(* ===== verification/Prelude.thy ===== *)
theory Prelude
  imports Main "HOL-Library.AList" "HOL-Library.List_Lexorder" "HOL-Library.Char_ord"
    "HOL-Library.Multiset" "HOL-Library.Sublist"
begin

text \<open>
  The vocabulary every component of the development shares.

  Go values. A Go string (and a byte slice) is a \<open>string\<close>: a list of 8-bit characters, compared
  byte by byte (\<open>List_Lexorder\<close> over \<open>Char_ord\<close> is Go's \<open><\<close> on strings). An instant (Go's
  \<open>time.Time\<close>) is the number of nanoseconds since Go's zero instant, so \<open>IsZero\<close> is equality
  with 0; a duration is a number of nanoseconds. A Go \<open>map\<close> is an association list: the list
  order stands for the order in which the runtime happens to walk the map, which Go leaves
  open, so a theorem about every association list holds for every walk.

  Interfaces. \<open>ttl_table\<close> is the contract of the four tables of the program that forget
  entries by age (suppression entries, pending pairings, discovered peers, rate-limit windows);
  \<open>bounded_table\<close> extends it with an insertion that respects a capacity. The components that
  provide such a table interpret the locale in their own theory.
\<close>

section \<open>Time\<close>

type_synonym time = int
type_synonym duration = int

definition zero_time :: time where
  "zero_time = 0"

definition nanosecond :: duration where
  "nanosecond = 1"

definition millisecond :: duration where
  "millisecond = 1000000"

definition second :: duration where
  "second = 1000000000"

definition minute :: duration where
  "minute = 60 * second"

definition max_int64 :: int where
  "max_int64 = 2 ^ 63 - 1"

definition min_int64 :: int where
  "min_int64 = - (2 ^ 63)"

text \<open>Wrap-around of Go's \<open>int\<close>, \<open>int64\<close> and \<open>time.Duration\<close> arithmetic.\<close>

definition wrap64 :: "int \<Rightarrow> int" where
  "wrap64 x = (x + 2 ^ 63) mod 2 ^ 64 - 2 ^ 63"

lemma wrap64_id: "min_int64 \<le> x \<Longrightarrow> x \<le> max_int64 \<Longrightarrow> wrap64 x = x"
  by (simp add: wrap64_def min_int64_def max_int64_def)

lemma wrap64_range: "min_int64 \<le> wrap64 x \<and> wrap64 x \<le> max_int64"
  using pos_mod_bound [of "2 ^ 64" "x + 2 ^ 63"] pos_mod_sign [of "2 ^ 64" "x + 2 ^ 63"]
  by (simp add: wrap64_def min_int64_def max_int64_def)

text \<open>
  \<open>t.Sub(u)\<close> saturates at the range of a duration (\<open>time.Time.Sub\<close>); \<open>t.Add(d)\<close>,
  \<open>t.Before(u)\<close> and \<open>t.After(u)\<close> are the arithmetic of instants.
\<close>

definition time_sub :: "time \<Rightarrow> time \<Rightarrow> duration" where
  "time_sub t u = max min_int64 (min max_int64 (t - u))"

definition time_add :: "time \<Rightarrow> duration \<Rightarrow> time" where
  "time_add t d = t + d"

definition time_before :: "time \<Rightarrow> time \<Rightarrow> bool" where
  "time_before t u \<longleftrightarrow> t < u"

definition time_after :: "time \<Rightarrow> time \<Rightarrow> bool" where
  "time_after t u \<longleftrightarrow> u < t"

named_theorems time_simps \<open>instants and durations as integers\<close>

declare zero_time_def [time_simps] nanosecond_def [time_simps] millisecond_def [time_simps]
  second_def [time_simps] minute_def [time_simps] time_add_def [time_simps]
  time_before_def [time_simps] time_after_def [time_simps]

text \<open>Comparing a saturated difference with an ordinary duration ignores the saturation.\<close>

lemma time_sub_ge: "min_int64 < d \<Longrightarrow> d \<le> max_int64 \<Longrightarrow> d \<le> time_sub t u \<longleftrightarrow> d \<le> t - u"
  by (auto simp: time_sub_def)

lemma time_sub_ge_minute [time_simps]: "minute \<le> time_sub t u \<longleftrightarrow> 60000000000 \<le> t - u"
  by (subst time_sub_ge) (auto simp: minute_def second_def min_int64_def max_int64_def)

lemma time_sub_ge_second [time_simps]: "second \<le> time_sub t u \<longleftrightarrow> 1000000000 \<le> t - u"
  by (subst time_sub_ge) (auto simp: second_def min_int64_def max_int64_def)

section \<open>Strings\<close>

definition has_prefix :: "string \<Rightarrow> string \<Rightarrow> bool" where
  "has_prefix s p \<longleftrightarrow> take (length p) s = p"

lemma has_prefix_iff: "has_prefix s p \<longleftrightarrow> (\<exists>r. s = p @ r)"
  by (metis append_eq_conv_conj append_take_drop_id has_prefix_def)

lemma has_prefix_refl [simp]: "has_prefix s s"
  by (simp add: has_prefix_def)

lemma has_prefix_Nil [simp]: "has_prefix s []"
  by (simp add: has_prefix_def)

lemma has_prefix_length: "has_prefix s p \<Longrightarrow> length p \<le> length s"
  by (auto simp: has_prefix_iff)

lemma has_prefix_same_length: "has_prefix s p \<Longrightarrow> length s \<le> length p \<Longrightarrow> s = p"
  by (auto simp: has_prefix_iff)

text \<open>\<open>strings.Join\<close>.\<close>

fun join_with :: "string \<Rightarrow> string list \<Rightarrow> string" where
  "join_with sep [] = []"
| "join_with sep [x] = x"
| "join_with sep (x # y # xs) = x @ sep @ join_with sep (y # xs)"

lemma join_with_append:
  "xs \<noteq> [] \<Longrightarrow> ys \<noteq> [] \<Longrightarrow>
     join_with sep (xs @ ys) = join_with sep xs @ sep @ join_with sep ys"
  by (induction sep xs rule: join_with.induct) (auto simp: neq_Nil_conv)

section \<open>Lists\<close>

lemma length_filter_drop: "length (filter P (drop n xs)) \<le> length (filter P xs)"
  by (metis append_take_drop_id filter_append le_add2 length_append)

lemma length_filter_filter_le: "length (filter P (filter Q xs)) \<le> length (filter P xs)"
  by (induction xs) auto

lemma map_filter_drop:
  "List.map_filter (\<lambda>x. if P x then None else Some x) xs = filter (\<lambda>x. \<not> P x) xs"
  by (induction xs) auto

section \<open>Go maps as association lists\<close>

type_synonym ('k, 'v) gomap = "('k \<times> 'v) list"

abbreviation mget :: "('k, 'v) gomap \<Rightarrow> 'k \<Rightarrow> 'v option" where
  "mget \<equiv> map_of"

abbreviation mput :: "'k \<Rightarrow> 'v \<Rightarrow> ('k, 'v) gomap \<Rightarrow> ('k, 'v) gomap" where
  "mput \<equiv> AList.update"

abbreviation mdel :: "'k \<Rightarrow> ('k, 'v) gomap \<Rightarrow> ('k, 'v) gomap" where
  "mdel \<equiv> AList.delete"

abbreviation mkeys :: "('k, 'v) gomap \<Rightarrow> 'k list" where
  "mkeys m \<equiv> map fst m"

definition wf_map :: "('k, 'v) gomap \<Rightarrow> bool" where
  "wf_map m \<longleftrightarrow> distinct (mkeys m)"

named_theorems gomap_simps \<open>reading a Go map after a write\<close>

declare AList.update_conv' [gomap_simps] AList.delete_conv' [gomap_simps]

lemma wf_map_Nil [simp]: "wf_map []"
  by (simp add: wf_map_def)

lemma wf_map_mput [simp]: "wf_map m \<Longrightarrow> wf_map (mput k v m)"
  by (simp add: wf_map_def AList.distinct_update)

lemma wf_map_mdel [simp]: "wf_map m \<Longrightarrow> wf_map (mdel k m)"
  by (simp add: wf_map_def AList.distinct_delete)

lemma wf_map_filter [simp]: "wf_map m \<Longrightarrow> wf_map (filter P m)"
  by (simp add: wf_map_def distinct_map_filter)

lemma length_mput: "length (mput k v m) = (if mget m k = None then Suc (length m) else length m)"
  by (induction m) auto

lemma length_mdel_le: "length (mdel k m) \<le> length m"
  by (simp add: AList.length_delete_le)

lemma set_mdel: "set (mdel k m) = {e \<in> set m. fst e \<noteq> k}"
  by (auto simp: AList.delete_eq)

lemma set_mput_subset: "set (mput k v m) \<subseteq> insert (k, v) (set m)"
  by (induction m) (auto split: if_splits)

lemma mem_mputD: "e \<in> set (mput k v m) \<Longrightarrow> e = (k, v) \<or> e \<in> set m"
  using set_mput_subset [of k v m] by auto

lemma list_all_mput: "list_all P m \<Longrightarrow> P (k, v) \<Longrightarrow> list_all P (mput k v m)"
  by (auto simp: list_all_iff dest!: mem_mputD)

lemma mget_Some_mem: "mget m k = Some v \<Longrightarrow> (k, v) \<in> set m"
  by (rule map_of_SomeD)

lemma mem_mget: "wf_map m \<Longrightarrow> (k, v) \<in> set m \<Longrightarrow> mget m k = Some v"
  by (simp add: wf_map_def)

lemma mget_filter:
  "wf_map m \<Longrightarrow> mget (filter P m) k
     = (case mget m k of None \<Rightarrow> None | Some v \<Rightarrow> if P (k, v) then Some v else None)"
  by (induction m) (auto simp: wf_map_def map_of_eq_None_iff split: option.splits dest: map_of_SomeD)

lemma length_mdel:
  "wf_map m \<Longrightarrow> length (mdel k m) = (if mget m k = None then length m else length m - 1)"
proof (induction m)
  case (Cons e m)
  then show ?case
    by (cases "m = []") (auto simp: wf_map_def map_of_eq_None_iff AList.delete_eq
        filter_id_conv image_iff split: if_splits)
qed simp

text \<open>Two walks of the same map: the same entries in another order.\<close>

definition same_map :: "('k, 'v) gomap \<Rightarrow> ('k, 'v) gomap \<Rightarrow> bool" where
  "same_map m n \<longleftrightarrow> mget m = mget n"

lemma same_map_refl [simp]: "same_map m m"
  by (simp add: same_map_def)

lemma wf_same_map_set: "wf_map m \<Longrightarrow> wf_map n \<Longrightarrow> same_map m n \<Longrightarrow> set m = set n"
  unfolding same_map_def wf_map_def by (metis map_of_inject_set)

lemma wf_same_map_mset:
  assumes "wf_map m" "wf_map n" "same_map m n"
  shows "mset m = mset n"
proof -
  have "distinct m" "distinct n"
    using assms(1,2) by (auto simp: wf_map_def distinct_map)
  with wf_same_map_set [OF assms] show ?thesis
    by (simp add: set_eq_iff_mset_eq_distinct)
qed

lemma mset_wf_same_map:
  assumes "wf_map m" "mset m = mset n"
  shows "wf_map n \<and> same_map m n"
proof -
  from assms(2) have "mset (mkeys m) = mset (mkeys n)" by simp
  with assms(1) have wf: "wf_map n"
    unfolding wf_map_def by (metis mset_eq_imp_distinct_iff)
  moreover from assms(2) have "set m = set n" by (metis set_mset_mset)
  ultimately show ?thesis
    using assms(1) by (auto simp: same_map_def wf_map_def map_of_inject_set)
qed

section \<open>Tables that forget entries by age\<close>

text \<open>
  A table is read through its entries; whether an entry is still live depends on the table's
  own settings and on the clock. What every pruning loop of the program promises is that it
  keeps exactly the live entries, in order, and that an entry once dead stays dead.
\<close>

locale ttl_table =
  fixes prune :: "time \<Rightarrow> 't \<Rightarrow> 't"
    and entries :: "'t \<Rightarrow> 'e list"
    and live :: "'t \<Rightarrow> time \<Rightarrow> 'e \<Rightarrow> bool"
  assumes entries_prune: "entries (prune now t) = filter (live t now) (entries t)"
    and live_prune: "live (prune now t) = live t"
    and live_antimono: "now \<le> now' \<Longrightarrow> live t now' e \<Longrightarrow> live t now e"
begin

lemma pruned_live: "e \<in> set (entries (prune now t)) \<Longrightarrow> live t now e"
  by (simp add: entries_prune)

lemma pruned_sub: "e \<in> set (entries (prune now t)) \<Longrightarrow> e \<in> set (entries t)"
  by (simp add: entries_prune)

lemma pruned_length: "length (entries (prune now t)) \<le> length (entries t)"
  by (simp add: entries_prune)

lemma prune_later_absorbs:
  "now \<le> now' \<Longrightarrow> entries (prune now' (prune now t)) = entries (prune now' t)"
  by (auto simp: entries_prune live_prune intro: filter_cong dest: live_antimono)

lemma dead_stays_dead:
  "\<not> live t now e \<Longrightarrow> now \<le> now' \<Longrightarrow> e \<notin> set (entries (prune now' t))"
  by (auto simp: entries_prune dest: live_antimono)

end

locale bounded_table = ttl_table prune entries live
  for prune :: "time \<Rightarrow> 't \<Rightarrow> 't" and entries :: "'t \<Rightarrow> 'e list"
    and live :: "'t \<Rightarrow> time \<Rightarrow> 'e \<Rightarrow> bool" +
  fixes put :: "time \<Rightarrow> 'x \<Rightarrow> 't \<Rightarrow> 't"
    and cap :: "'t \<Rightarrow> nat"
  assumes put_bounded: "length (entries t) \<le> cap t \<Longrightarrow> length (entries (put now x t)) \<le> cap t"
    and cap_put: "cap (put now x t) = cap t"
    and cap_prune: "cap (prune now t) = cap t"
begin

text \<open>Any history of insertions (\<open>Some x\<close>) and bare prunings (\<open>None\<close>) stays within capacity.\<close>

lemma history_bounded:
  assumes "length (entries t) \<le> cap t"
  shows "length (entries (fold (\<lambda>(now, op) t. case op of Some x \<Rightarrow> put now x t
                                                       | None \<Rightarrow> prune now t) h t)) \<le> cap t"
  using assms
proof (induction h arbitrary: t)
  case (Cons step h)
  obtain now op where step: "step = (now, op)" by fastforce
  show ?case
  proof (cases op)
    case None
    have "length (entries (prune now t)) \<le> cap (prune now t)"
      using Cons.prems pruned_length [of now t] by (simp add: cap_prune)
    from Cons.IH [OF this] show ?thesis by (simp add: step None cap_prune)
  next
    case (Some x)
    have "length (entries (put now x t)) \<le> cap (put now x t)"
      using put_bounded [OF Cons.prems] by (simp add: cap_put)
    from Cons.IH [OF this] show ?thesis by (simp add: step Some cap_put)
  qed
qed simp

end

end
