(* ===== verification/Windows.thy ===== *)
theory Windows
  imports Prelude
begin

text \<open>
  Fixed-window counters. The program limits three streams the same way (all pairing attempts,
  the attempts of one source, the clipboard frames of one connection): a counter belongs to a
  window that began at some instant, an event inside the window is let through while the count
  is below a limit, and an event after the window's span begins a new window. The contract is
  \<open>window_counter\<close>; its consequence is that no interval of one span lets through more than twice
  the limit, however the windows fall.
\<close>

text \<open>The events of a history that were let through.\<close>

fun let_through :: "('o \<Rightarrow> 's \<Rightarrow> bool) \<Rightarrow> ('o \<Rightarrow> 's \<Rightarrow> 's) \<Rightarrow> 'o list \<Rightarrow> 's \<Rightarrow> 'o list" where
  "let_through acc step [] s = []"
| "let_through acc step (x # xs) s =
     (if acc x s then x # let_through acc step xs (step x s) else let_through acc step xs (step x s))"

lemma set_let_through: "set (let_through acc step xs s) \<subseteq> set xs"
  by (induction xs arbitrary: s) auto

lemma filter_let_through_Nil:
  "(\<And>x. x \<in> set xs \<Longrightarrow> \<not> P x) \<Longrightarrow> filter P (let_through acc step xs s) = []"
  using set_let_through [of acc step xs s] by (auto simp: filter_empty_conv)

lemma let_through_filter:
  "let_through (\<lambda>x s. acc x s \<and> P x) step xs s = filter P (let_through acc step xs s)"
  by (induction xs arbitrary: s) auto

locale window_counter =
  fixes step :: "'o \<Rightarrow> 's \<Rightarrow> 's"
    and at :: "'o \<Rightarrow> time"
    and accepts :: "'o \<Rightarrow> 's \<Rightarrow> bool"
    and view :: "'s \<Rightarrow> (time \<times> nat) option"
    and inv :: "'s \<Rightarrow> bool"
    and span :: duration
    and limit :: nat
  assumes inv_step: "inv s \<Longrightarrow> 0 < at x \<Longrightarrow> inv (step x s)"
    and accepted: "inv s \<Longrightarrow> 0 < at x \<Longrightarrow> accepts x s \<Longrightarrow>
      (\<exists>w n. view s = Some (w, n) \<and> at x < w + span \<and> n < limit \<and> view (step x s) = Some (w, Suc n))
      \<or> ((\<forall>w n. view s = Some (w, n) \<longrightarrow> w + span \<le> at x) \<and> view (step x s) = Some (at x, 1))"
    and refused: "inv s \<Longrightarrow> 0 < at x \<Longrightarrow> \<not> accepts x s \<Longrightarrow>
      view (step x s) = view s
      \<or> ((\<forall>w n. view s = Some (w, n) \<longrightarrow> w + span \<le> at x)
         \<and> (view (step x s) = None \<or> view (step x s) = Some (at x, 0)))"
    and limit_pos: "0 < limit"
begin

definition within :: "'s \<Rightarrow> bool" where
  "within s \<longleftrightarrow> inv s \<and> (\<forall>w n. view s = Some (w, n) \<longrightarrow> n \<le> limit)"

lemma within_step: "within s \<Longrightarrow> 0 < at x \<Longrightarrow> within (step x s)"
  using inv_step [of s x] accepted [of s x] refused [of s x] limit_pos
  by (cases "accepts x s") (fastforce simp: within_def)+

text \<open>Inside the current window, what is let through fits in what the window has left.\<close>

lemma rest_of_window:
  assumes "within s" "view s = Some (w, n)" "sorted (map at xs)" "\<forall>x \<in> set xs. 0 < at x"
  shows "length (filter (\<lambda>x. at x < w + span) (let_through accepts step xs s)) \<le> limit - n"
  using assms
proof (induction xs arbitrary: s n)
  case (Cons x xs)
  show ?case
  proof (cases "at x < w + span")
    case False
    then have "\<not> at y < w + span" if "y \<in> set (x # xs)" for y
      using Cons.prems(3) that by fastforce
    then have "filter (\<lambda>x. at x < w + span) (let_through accepts step (x # xs) s) = []"
      by (intro filter_let_through_Nil)
    then show ?thesis by simp
  next
    case in_window: True
    have pos: "0 < at x" and inv: "inv s" using Cons.prems by (simp_all add: within_def)
    note IH = Cons.IH [OF within_step [OF Cons.prems(1) pos]]
    show ?thesis
    proof (cases "accepts x s")
      case True
      with accepted [OF inv pos] Cons.prems(2) in_window
      have "n < limit" "view (step x s) = Some (w, Suc n)" by auto
      with IH [of "Suc n"] Cons.prems(3,4) True show ?thesis by auto
    next
      case False
      with refused [OF inv pos] Cons.prems(2) in_window
      have "view (step x s) = Some (w, n)" by auto
      with IH [of n] Cons.prems(3,4) False show ?thesis by auto
    qed
  qed
qed simp

definition room :: "'s \<Rightarrow> nat" where
  "room s = (case view s of None \<Rightarrow> limit | Some (w, n) \<Rightarrow> (limit - n) + limit)"

lemma room_le: "room s \<le> 2 * limit"
  by (simp add: room_def split: option.split)

lemma burst_from:
  assumes "within s" "sorted (map at xs)" "\<forall>x \<in> set xs. 0 < at x" "\<forall>x \<in> set xs. t \<le> at x"
  shows "length (filter (\<lambda>x. at x < t + span) (let_through accepts step xs s)) \<le> room s"
  using assms
proof (induction xs arbitrary: s)
  case (Cons x xs)
  let ?in = "\<lambda>x. at x < t + span"
  show ?case
  proof (cases "at x < t + span")
    case False
    then have "\<not> at y < t + span" if "y \<in> set (x # xs)" for y
      using Cons.prems(2) that by fastforce
    then have "filter ?in (let_through accepts step (x # xs) s) = []"
      by (intro filter_let_through_Nil)
    then show ?thesis by simp
  next
    case in_span: True
    have pos: "0 < at x" and inv: "inv s" using Cons.prems by (simp_all add: within_def)
    note within = within_step [OF Cons.prems(1) pos]
    have tail: "sorted (map at xs)" "\<forall>x \<in> set xs. 0 < at x" "\<forall>x \<in> set xs. t \<le> at x"
      using Cons.prems by simp_all
    note IH = Cons.IH [OF within tail]
    have later: "length (filter ?in (let_through accepts step xs s')) \<le> limit - n"
      if "view s' = Some (at x, n)" "within s'" for s' n
    proof -
      have "filter ?in (let_through accepts step xs s')
          = filter ?in (filter (\<lambda>y. at y < at x + span) (let_through accepts step xs s'))"
        using Cons.prems(4) set_let_through [of accepts step xs s'] by (auto intro!: filter_cong)
      with rest_of_window [OF that(2,1) tail(1,2)] show ?thesis
        by (metis length_filter_le order_trans)
    qed
    show ?thesis
    proof (cases "accepts x s")
      case True
      from accepted [OF inv pos True] show ?thesis
      proof (elim disjE exE conjE)
        fix w n assume "view s = Some (w, n)" "n < limit" "view (step x s) = Some (w, Suc n)"
        with IH True in_span show ?thesis by (simp add: room_def)
      next
        assume "view (step x s) = Some (at x, 1)"
        from later [OF this within] True in_span limit_pos
        have "length (filter ?in (let_through accepts step (x # xs) s)) \<le> limit" by simp
        also have "limit \<le> room s" by (simp add: room_def split: option.split)
        finally show ?thesis .
      qed
    next
      case False
      from refused [OF inv pos False] show ?thesis
      proof (elim disjE conjE)
        assume "view (step x s) = view s"
        with IH False show ?thesis by (simp add: room_def)
      next
        assume "view (step x s) = None"
        with IH False show ?thesis by (simp add: room_def split: option.split)
      next
        assume "view (step x s) = Some (at x, 0)"
        from later [OF this within] False show ?thesis
          by (simp add: room_def split: option.split)
      qed
    qed
  qed
qed simp

lemma burst_bound:
  assumes "within s" "sorted (map at xs)" "\<forall>x \<in> set xs. 0 < at x"
  shows "length (filter (\<lambda>x. t \<le> at x \<and> at x < t + span) (let_through accepts step xs s)) \<le> 2 * limit"
  using assms
proof (induction xs arbitrary: s)
  case (Cons x xs)
  show ?case
  proof (cases "t \<le> at x")
    case False
    with Cons.IH [OF within_step [of s x]] Cons.prems show ?thesis by simp
  next
    case True
    have "\<forall>y \<in> set (x # xs). t \<le> at y" using Cons.prems(2) True by fastforce
    note from_t = burst_from [OF Cons.prems this]
    have "length (filter (\<lambda>x. t \<le> at x \<and> at x < t + span) (let_through accepts step (x # xs) s))
        \<le> length (filter (\<lambda>x. at x < t + span) (let_through accepts step (x # xs) s))"
      by (simp only: filter_filter [symmetric, where P = "\<lambda>x. at x < t + span"
            and Q = "\<lambda>x. t \<le> at x"] conj_commute length_filter_filter_le)
    also note from_t
    also note room_le
    finally show ?thesis .
  qed
qed simp

end

end
