(* ===== verification/Digest.thy ===== *)
theory Digest
  imports Prelude "HOL-Library.Word"
begin

unbundle bit_operations_syntax

text \<open>
  The part of Go's \<open>crypto/sha256\<close> and \<open>encoding/hex\<close> the program uses: \<open>sha256.Sum256\<close>
  (FIPS 180-4, on byte strings shorter than \<open>2 ^ 61\<close> bytes) and hexadecimal encoding. The
  clipboard suppressor compares contents by this digest, certificate fingerprints are its
  hexadecimal form, and the comparison code is drawn from its first six bytes.
\<close>

section \<open>SHA-256\<close>

type_synonym u32 = "32 word"

text \<open>The round constants, eight to a row: fractional parts of cube roots of primes.\<close>

definition sha256_k :: "u32 list" where
  "sha256_k = concat
   [[1116352408, 1899447441, 3049323471, 3921009573, 961987163, 1508970993, 2453635748, 2870763221],
    [3624381080, 310598401, 607225278, 1426881987, 1925078388, 2162078206, 2614888103, 3248222580],
    [3835390401, 4022224774, 264347078, 604807628, 770255983, 1249150122, 1555081692, 1996064986],
    [2554220882, 2821834349, 2952996808, 3210313671, 3336571891, 3584528711, 113926993, 338241895],
    [666307205, 773529912, 1294757372, 1396182291, 1695183700, 1986661051, 2177026350, 2456956037],
    [2730485921, 2820302411, 3259730800, 3345764771, 3516065817, 3600352804, 4094571909, 275423344],
    [430227734, 506948616, 659060556, 883997877, 958139571, 1322822218, 1537002063, 1747873779],
    [1955562222, 2024104815, 2227730452, 2361852424, 2428436474, 2756734187, 3204031479, 3329325298]]"

definition sha256_h0 :: "u32 list" where
  "sha256_h0 =
   [0x6a09e667, 0xbb67ae85, 0x3c6ef372, 0xa54ff53a,
    0x510e527f, 0x9b05688c, 0x1f83d9ab, 0x5be0cd19]"

definition ror32 :: "nat \<Rightarrow> u32 \<Rightarrow> u32" where
  "ror32 n x = drop_bit n x OR push_bit (32 - n) x"

definition sigma_small0 :: "u32 \<Rightarrow> u32" where
  "sigma_small0 x = ror32 7 x XOR ror32 18 x XOR drop_bit 3 x"

definition sigma_small1 :: "u32 \<Rightarrow> u32" where
  "sigma_small1 x = ror32 17 x XOR ror32 19 x XOR drop_bit 10 x"

definition sigma_big0 :: "u32 \<Rightarrow> u32" where
  "sigma_big0 x = ror32 2 x XOR ror32 13 x XOR ror32 22 x"

definition sigma_big1 :: "u32 \<Rightarrow> u32" where
  "sigma_big1 x = ror32 6 x XOR ror32 11 x XOR ror32 25 x"

definition sha_ch :: "u32 \<Rightarrow> u32 \<Rightarrow> u32 \<Rightarrow> u32" where
  "sha_ch x y z = (x AND y) XOR (NOT x AND z)"

definition sha_maj :: "u32 \<Rightarrow> u32 \<Rightarrow> u32 \<Rightarrow> u32" where
  "sha_maj x y z = (x AND y) XOR (x AND z) XOR (y AND z)"

text \<open>A big-endian 32-bit word from four bytes, and back.\<close>

definition be_word :: "string \<Rightarrow> u32" where
  "be_word bs = foldl (\<lambda>w c. push_bit 8 w OR of_char c) 0 bs"

definition word_be :: "u32 \<Rightarrow> string" where
  "word_be w = map (\<lambda>k. char_of (unat (drop_bit k w AND 0xff))) [24, 16, 8, 0]"

fun group4 :: "string \<Rightarrow> string list" where
  "group4 (a # b # c # d # xs) = [a, b, c, d] # group4 xs"
| "group4 _ = []"

text \<open>The message schedule, kept newest first: from 16 words to 64.\<close>

fun schedule :: "nat \<Rightarrow> u32 list \<Rightarrow> u32 list" where
  "schedule 0 ws = ws"
| "schedule (Suc n) ws =
     schedule n ((sigma_small1 (ws ! 1) + ws ! 6 + sigma_small0 (ws ! 14) + ws ! 15) # ws)"

fun sha_round :: "u32 list \<Rightarrow> u32 \<times> u32 \<Rightarrow> u32 list" where
  "sha_round [a, b, c, d, e, f, g, h] (k, w) =
     (let t1 = h + sigma_big1 e + sha_ch e f g + k + w;
          t2 = sigma_big0 a + sha_maj a b c
      in [t1 + t2, a, b, c, d + t1, e, f, g])"
| "sha_round hs _ = hs"

definition sha_block :: "u32 list \<Rightarrow> string \<Rightarrow> u32 list" where
  "sha_block hs block =
     map2 (+) hs (foldl sha_round hs
       (zip sha256_k (rev (schedule 48 (rev (map be_word (group4 block)))))))"

fun sha_blocks :: "nat \<Rightarrow> u32 list \<Rightarrow> string \<Rightarrow> u32 list" where
  "sha_blocks 0 hs bs = hs"
| "sha_blocks (Suc n) hs bs = sha_blocks n (sha_block hs (take 64 bs)) (drop 64 bs)"

text \<open>Padding: a one bit, zeros to 56 modulo 64, the bit length as 64 bits.\<close>

definition sha_pad :: "string \<Rightarrow> string" where
  "sha_pad m = m @ [CHR 0x80] @ replicate ((119 - length m mod 64) mod 64) (CHR 0x00)
     @ map (\<lambda>k. char_of ((8 * int (length m)) div 2 ^ k mod 256)) [56, 48, 40, 32, 24, 16, 8, 0]"

definition sha256 :: "string \<Rightarrow> string" where
  "sha256 m = (let p = sha_pad m
     in concat (map word_be (sha_blocks (length p div 64) sha256_h0 p)))"

lemma length_sha_round [simp]: "length (sha_round hs kw) = length hs"
  by (induction hs kw rule: sha_round.induct) (auto simp: Let_def)

lemma length_foldl_sha_round [simp]: "length (foldl sha_round hs kws) = length hs"
  by (induction kws arbitrary: hs) auto

lemma length_sha_block [simp]: "length (sha_block hs b) = length hs"
  by (simp add: sha_block_def)

lemma length_sha_blocks [simp]: "length (sha_blocks n hs bs) = length hs"
  by (induction n arbitrary: hs bs) auto

lemma length_word_be [simp]: "length (word_be w) = 4"
  by (simp add: word_be_def)

lemma length_concat_word_be [simp]: "length (concat (map word_be ws)) = 4 * length ws"
  by (induction ws) auto

lemma length_sha256 [simp]: "length (sha256 m) = 32"
  by (simp add: sha256_def Let_def sha256_h0_def)

lemma length_sha_pad: "length (sha_pad m) mod 64 = 0"
proof -
  define q r where "q = length m div 64" and "r = length m mod 64"
  have len: "length m = 64 * q + r" and r: "r < 64" by (simp_all add: q_def r_def)
  have "(119 - r) mod 64 = (if r \<le> 55 then 55 - r else 119 - r)"
    using r by (auto simp: mod_if)
  then have "length m + 9 + (119 - r) mod 64 = 64 * (if r \<le> 55 then q + 1 else q + 2)"
    using r len by auto
  moreover have "length (sha_pad m) = length m + 9 + (119 - r) mod 64"
    by (simp add: sha_pad_def r_def)
  ultimately show ?thesis by simp
qed

section \<open>Hexadecimal\<close>

definition hex_digits :: string where
  "hex_digits = ''0123456789abcdef''"

definition hex_byte :: "char \<Rightarrow> string" where
  "hex_byte c = [hex_digits ! (of_char c div 16), hex_digits ! (of_char c mod 16)]"

text \<open>\<open>hex.EncodeToString\<close>, and whether \<open>hex.DecodeString\<close> succeeds.\<close>

definition hex_encode :: "string \<Rightarrow> string" where
  "hex_encode bs = concat (map hex_byte bs)"

definition is_hex_digit :: "char \<Rightarrow> bool" where
  "is_hex_digit c \<longleftrightarrow> c \<in> set ''0123456789abcdefABCDEF''"

definition hex_decodable :: "string \<Rightarrow> bool" where
  "hex_decodable s \<longleftrightarrow> even (length s) \<and> list_all is_hex_digit s"

lemma length_hex_byte [simp]: "length (hex_byte c) = 2"
  by (simp add: hex_byte_def)

lemma length_hex_encode [simp]: "length (hex_encode bs) = 2 * length bs"
  by (induction bs) (auto simp: hex_encode_def)

lemma hex_digits_nth: "n < 16 \<Longrightarrow> hex_digits ! n \<in> set hex_digits"
  by (rule nth_mem) (simp add: hex_digits_def)

lemma set_hex_byte: "set (hex_byte c) \<subseteq> set hex_digits"
proof -
  have "(of_char c :: nat) < 256" by simp
  then have "(of_char c :: nat) div 16 < 16" and "(of_char c :: nat) mod 16 < 16"
    by (linarith, simp)
  then show ?thesis by (auto simp: hex_byte_def intro: hex_digits_nth)
qed

lemma set_hex_encode: "set (hex_encode bs) \<subseteq> set hex_digits"
  using set_hex_byte by (auto simp: hex_encode_def)

lemma hex_digit_ok: "c \<in> set hex_digits \<Longrightarrow> is_hex_digit c"
  by (auto simp: hex_digits_def is_hex_digit_def)

lemma hex_decodable_encode: "hex_decodable (hex_encode bs)"
  using set_hex_encode [of bs] by (auto simp: hex_decodable_def list_all_iff intro: hex_digit_ok)

lemma hex_digits_inj: "i < 16 \<Longrightarrow> j < 16 \<Longrightarrow> hex_digits ! i = hex_digits ! j \<Longrightarrow> i = j"
  by (subst (asm) nth_eq_iff_index_eq) (auto simp: hex_digits_def)

lemma hex_byte_inj: "hex_byte c = hex_byte d \<Longrightarrow> c = d"
proof -
  assume eq: "hex_byte c = hex_byte d"
  let ?c = "of_char c :: nat" and ?d = "of_char d :: nat"
  have bounds: "?c div 16 < 16" "?d div 16 < 16" "?c mod 16 < 16" "?d mod 16 < 16"
    using nat_of_char_less_256 [of c] nat_of_char_less_256 [of d] by linarith+
  from eq bounds have "?c div 16 = ?d div 16" and "?c mod 16 = ?d mod 16"
    by (simp_all only: hex_byte_def list.inject) (blast dest: hex_digits_inj)+
  then have "?c = ?d" by (metis div_mod_decomp)
  then show ?thesis by simp
qed

lemma hex_encode_inj: "hex_encode a = hex_encode b \<Longrightarrow> a = b"
proof (induction a arbitrary: b)
  case Nil
  then show ?case by (cases b) (auto simp: hex_encode_def hex_byte_def)
next
  case (Cons c a)
  then obtain d b' where b: "b = d # b'" by (cases b) (auto simp: hex_encode_def hex_byte_def)
  from Cons.prems have "hex_byte c @ hex_encode a = hex_byte d @ hex_encode b'"
    by (simp add: b hex_encode_def)
  then have "hex_byte c = hex_byte d" and "hex_encode a = hex_encode b'" by auto
  with Cons.IH b hex_byte_inj show ?case by blast
qed

end
