(* ===== verification/Net_IP.thy ===== *)
theory Net_IP
  imports Digest
begin

text \<open>
  The parts of Go's \<open>net\<close> package that the program decides on: parsing and printing of IP
  addresses, the address classes, masks and network membership, and the host/port syntax. An
  \<open>IP\<close> is a byte slice of length 4 or 16 (\<open>ParseIP\<close> always gives 16), \<open>None\<close> stands for a nil
  result.
\<close>

unbundle bit_operations_syntax

type_synonym ip = "8 word list"

record ipnet =
  net_ip :: ip
  net_mask :: ip

section \<open>Classes of addresses\<close>

definition v4_prefix :: ip where
  "v4_prefix = replicate 10 0 @ [0xff, 0xff]"

definition To4 :: "ip \<Rightarrow> ip option" where
  "To4 ip = (if length ip = 4 then Some ip
     else if length ip = 16 \<and> take 12 ip = v4_prefix then Some (drop 12 ip) else None)"

definition ip_equal :: "ip \<Rightarrow> ip \<Rightarrow> bool" where
  "ip_equal ip x = (if length ip = length x then ip = x
     else if length ip = 4 \<and> length x = 16 then take 12 x = v4_prefix \<and> ip = drop 12 x
     else if length ip = 16 \<and> length x = 4 then take 12 ip = v4_prefix \<and> drop 12 ip = x
     else False)"

definition IsLoopback :: "ip \<Rightarrow> bool" where
  "IsLoopback ip = (case To4 ip of Some v4 \<Rightarrow> v4 ! 0 = 127
     | None \<Rightarrow> ip_equal ip (replicate 15 0 @ [1]))"

definition IsUnspecified :: "ip \<Rightarrow> bool" where
  "IsUnspecified ip \<longleftrightarrow> ip_equal ip (v4_prefix @ [0, 0, 0, 0]) \<or> ip_equal ip (replicate 16 0)"

definition IsMulticast :: "ip \<Rightarrow> bool" where
  "IsMulticast ip = (case To4 ip of Some v4 \<Rightarrow> v4 ! 0 AND 0xf0 = 0xe0
     | None \<Rightarrow> length ip = 16 \<and> ip ! 0 = 0xff)"

definition mask_bytes :: "ip \<Rightarrow> ip \<Rightarrow> ip" where
  "mask_bytes a m = map2 (\<lambda>x y. x AND y) a m"

text \<open>\<open>networkNumberAndMask\<close> and \<open>(*IPNet).Contains\<close>.\<close>

definition network_number :: "ipnet \<Rightarrow> (ip \<times> ip) option" where
  "network_number n =
     (let num = (case To4 (net_ip n) of Some v4 \<Rightarrow> Some v4
                 | None \<Rightarrow> if length (net_ip n) = 16 then Some (net_ip n) else None)
      in case num of None \<Rightarrow> None
         | Some ip \<Rightarrow>
             (if length (net_mask n) = 4 then (if length ip = 4 then Some (ip, net_mask n) else None)
              else if length (net_mask n) = 16
              then Some (ip, if length ip = 4 then drop 12 (net_mask n) else net_mask n)
              else None))"

definition net_contains :: "ipnet \<Rightarrow> ip \<Rightarrow> bool" where
  "net_contains n ip =
     (let ip = (case To4 ip of Some v4 \<Rightarrow> v4 | None \<Rightarrow> ip)
      in case network_number n of None \<Rightarrow> ip = []
         | Some (nn, m) \<Rightarrow> length ip = length nn \<and> mask_bytes nn m = mask_bytes ip m)"

definition mask64 :: ip where
  "mask64 = replicate 8 0xff @ replicate 8 0"

section \<open>Parsing\<close>

definition digit_value :: "char \<Rightarrow> nat option" where
  "digit_value c = (if CHR ''0'' \<le> c \<and> c \<le> CHR ''9'' then Some (of_char c - 48) else None)"

definition hex_value :: "char \<Rightarrow> nat option" where
  "hex_value c = (if CHR ''0'' \<le> c \<and> c \<le> CHR ''9'' then Some (of_char c - 48)
     else if CHR ''a'' \<le> c \<and> c \<le> CHR ''f'' then Some (of_char c - 97 + 10)
     else if CHR ''A'' \<le> c \<and> c \<le> CHR ''F'' then Some (of_char c - 65 + 10) else None)"

text \<open>
  \<open>netip.parseIPv4Fields\<close>: \<open>octets\<close> are the octets so far, \<open>val\<close> and \<open>digLen\<close> the current one,
  \<open>prev_dot\<close> whether the previous byte was a dot (true at the start).
\<close>

fun parse_v4_fields :: "string \<Rightarrow> ip \<Rightarrow> nat \<Rightarrow> nat \<Rightarrow> bool \<Rightarrow> ip option" where
  "parse_v4_fields [] octets val digLen prev_dot =
     (if length octets < 3 then None else Some (octets @ [of_nat val]))"
| "parse_v4_fields (c # cs) octets val digLen prev_dot =
     (case digit_value c of
        Some v \<Rightarrow>
          (if digLen = 1 \<and> val = 0 then None
           else if val * 10 + v > 255 then None
           else parse_v4_fields cs octets (val * 10 + v) (Suc digLen) False)
      | None \<Rightarrow>
          (if c = CHR ''.'' then
             (if prev_dot \<or> cs = [] then None
              else if length octets = 3 then None
              else parse_v4_fields cs (octets @ [of_nat val]) 0 0 True)
           else None))"

definition parse_v4 :: "string \<Rightarrow> ip option" where
  "parse_v4 s = map_option (\<lambda>f. v4_prefix @ f) (parse_v4_fields s [] 0 0 True)"

text \<open>One hexadecimal group: value, number of digits, rest; at most four digits.\<close>

fun hex_group :: "nat \<Rightarrow> nat \<Rightarrow> string \<Rightarrow> (nat \<times> nat \<times> string) option" where
  "hex_group acc off [] = Some (acc, off, [])"
| "hex_group acc off (c # cs) =
     (case hex_value c of
        None \<Rightarrow> Some (acc, off, c # cs)
      | Some v \<Rightarrow> if off > 3 then None else hex_group (acc * 16 + v) (Suc off) cs)"

text \<open>
  The loop of \<open>netip.parseIPv6\<close>: \<open>bs\<close> are the bytes so far, \<open>ell\<close> the position of the ellipsis.
  The result is the bytes, the ellipsis and what is left of the text when the loop ends.
\<close>

function parse_v6_loop :: "string \<Rightarrow> ip \<Rightarrow> nat option \<Rightarrow> (ip \<times> nat option \<times> string) option" where
  "parse_v6_loop s bs ell =
     (if length bs \<ge> 16 then Some (bs, ell, s)
      else case hex_group 0 0 s of
        None \<Rightarrow> None
      | Some (acc, off, r) \<Rightarrow>
          if off = 0 then None
          else if r \<noteq> [] \<and> hd r = CHR ''.'' then
            (if ell = None \<and> length bs \<noteq> 12 then None
             else if length bs + 4 > 16 then None
             else case parse_v4_fields s [] 0 0 True of
                 None \<Rightarrow> None
               | Some f \<Rightarrow> Some (bs @ f, ell, []))
          else let bs = bs @ [of_nat (acc div 256), of_nat acc] in
            if r = [] then Some (bs, ell, [])
            else if hd r \<noteq> CHR '':'' then None
            else if tl r = [] then None
            else if hd (tl r) = CHR '':'' then
              (if ell \<noteq> None then None
               else if tl (tl r) = [] then Some (bs, Some (length bs), [])
               else parse_v6_loop (tl (tl r)) bs (Some (length bs)))
            else parse_v6_loop (tl r) bs ell)"
  by pat_completeness auto

termination
proof (relation "measure (\<lambda>(s, bs, ell). 16 - length bs)", goal_cases)
qed auto

definition parse_v6 :: "string \<Rightarrow> ip option" where
  "parse_v6 s =
     (if take 2 s = ''::'' \<and> length s = 2 then Some (replicate 16 0)
      else
        (let (s, ell) = (if take 2 s = ''::'' then (drop 2 s, Some 0) else (s, None))
         in case parse_v6_loop s [] ell of
              None \<Rightarrow> None
            | Some (bs, ell, r) \<Rightarrow>
                if r \<noteq> [] then None
                else if length bs < 16 then
                  (case ell of None \<Rightarrow> None
                   | Some e \<Rightarrow> Some (take e bs @ replicate (16 - length bs) 0 @ drop e bs))
                else (if ell \<noteq> None then None else Some bs)))"

text \<open>
  \<open>net.ParseIP\<close>: the first dot or colon decides the syntax; an address with a zone (a percent
  sign) is refused, so is anything else.
\<close>

definition ParseIP :: "string \<Rightarrow> ip option" where
  "ParseIP s =
     (case find (\<lambda>c. c = CHR ''.'' \<or> c = CHR '':'' \<or> c = CHR ''%'') s of
        None \<Rightarrow> None
      | Some c \<Rightarrow> if c = CHR ''.'' then parse_v4 s
                 else if c = CHR '':'' then (if CHR ''%'' \<in> set s then None else parse_v6 s)
                 else None)"

section \<open>Printing\<close>

fun decimal :: "nat \<Rightarrow> string" where
  "decimal n = (if n < 10 then [char_of (48 + n)] else decimal (n div 10) @ [char_of (48 + n mod 10)])"

declare decimal.simps [simp del]

definition hex_char :: "nat \<Rightarrow> char" where
  "hex_char n = (if n < 10 then char_of (48 + n) else char_of (87 + n))"

fun hex_number :: "nat \<Rightarrow> string" where
  "hex_number n = (if n < 16 then [hex_char n] else hex_number (n div 16) @ [hex_char (n mod 16)])"

declare hex_number.simps [simp del]

fun groups16 :: "ip \<Rightarrow> nat list" where
  "groups16 (a # b # r) = (unat a * 256 + unat b) # groups16 r"
| "groups16 _ = []"

definition zero_run :: "nat list \<Rightarrow> nat \<Rightarrow> nat" where
  "zero_run gs i = length (takeWhile (\<lambda>g. g = 0) (drop i gs))"

text \<open>The longest run of two or more zero groups, the leftmost of the longest.\<close>

definition best_run :: "nat list \<Rightarrow> (nat \<times> nat) option" where
  "best_run gs = foldl (\<lambda>best i. let l = zero_run gs i in
       if l \<ge> 2 \<and> (case best of None \<Rightarrow> True | Some (_, m) \<Rightarrow> l > m) then Some (i, l) else best)
     None [0..<length gs]"

definition print_v6 :: "ip \<Rightarrow> string" where
  "print_v6 ip =
     (let gs = groups16 ip
      in case best_run gs of
           None \<Rightarrow> join_with '':'' (map hex_number gs)
         | Some (i, l) \<Rightarrow> join_with '':'' (map hex_number (take i gs)) @ ''::''
                          @ join_with '':'' (map hex_number (drop (i + l) gs)))"

definition ip_string :: "ip \<Rightarrow> string" where
  "ip_string ip =
     (case To4 ip of
        Some v4 \<Rightarrow> join_with ''.'' (map (\<lambda>b. decimal (unat b)) v4)
      | None \<Rightarrow> if length ip = 16 then print_v6 ip
               else if ip = [] then ''<nil>''
               else ''?'' @ hex_encode (map (\<lambda>b. char_of (unat b)) ip))"

section \<open>Hosts and ports\<close>

definition last_colon :: "string \<Rightarrow> nat option" where
  "last_colon s = (if CHR '':'' \<in> set s
     then Some (length s - 1 - length (takeWhile (\<lambda>c. c \<noteq> CHR '':'') (rev s))) else None)"

definition SplitHostPort :: "string \<Rightarrow> (string \<times> string) option" where
  "SplitHostPort hp =
     (case last_colon hp of
        None \<Rightarrow> None
      | Some i \<Rightarrow>
          if hd hp = CHR ''['' then
            (let e = length (takeWhile (\<lambda>c. c \<noteq> CHR '']'') hp) in
             if CHR '']'' \<notin> set hp then None
             else if e + 1 \<noteq> i then None
             else if CHR ''['' \<in> set (drop 1 hp) \<or> CHR '']'' \<in> set (drop (e + 1) hp) then None
             else Some (drop 1 (take e hp), drop (i + 1) hp))
          else if CHR '':'' \<in> set (take i hp) then None
          else if CHR ''['' \<in> set hp \<or> CHR '']'' \<in> set hp then None
          else Some (take i hp, drop (i + 1) hp))"

definition JoinHostPort :: "string \<Rightarrow> string \<Rightarrow> string" where
  "JoinHostPort host port =
     (if CHR '':'' \<in> set host then ''['' @ host @ '']:'' @ port else host @ '':'' @ port)"

lemma takeWhile_not: "c \<notin> set xs \<Longrightarrow> takeWhile (\<lambda>x. x \<noteq> c) (xs @ c # ys) = xs"
  by (induction xs) auto

lemma last_colon_append:
  "CHR '':'' \<notin> set port \<Longrightarrow> last_colon (xs @ CHR '':'' # port) = Some (length xs)"
  using takeWhile_not [of "CHR '':''" "rev port" "rev xs"] by (simp add: last_colon_def)

text \<open>An endpoint is split back into the host and port it was joined from.\<close>

lemma SplitHostPort_JoinHostPort:
  assumes "CHR ''['' \<notin> set host" "CHR '']'' \<notin> set host"
    "CHR ''['' \<notin> set port" "CHR '']'' \<notin> set port" "CHR '':'' \<notin> set port"
  shows "SplitHostPort (JoinHostPort host port) = Some (host, port)"
proof (cases "CHR '':'' \<in> set host")
  case True
  let ?pre = "CHR ''['' # host @ [CHR '']'']"
  have "last_colon (?pre @ CHR '':'' # port) = Some (length ?pre)"
    using assms(5) by (rule last_colon_append)
  moreover have "takeWhile (\<lambda>c. c \<noteq> CHR '']'') (CHR ''['' # host @ CHR '']'' # CHR '':'' # port)
      = CHR ''['' # host"
    using takeWhile_not [of "CHR '']''" "CHR ''['' # host" "CHR '':'' # port"] assms(2) by simp
  ultimately show ?thesis
    using True assms by (simp add: JoinHostPort_def SplitHostPort_def)
next
  case False
  with assms last_colon_append [of port host] show ?thesis
    by (cases host) (auto simp: JoinHostPort_def SplitHostPort_def)
qed

end
