(* ===== verification/Runes.thy ===== *)
theory Runes
  imports Prelude
begin

text \<open>
  Go strings as sequences of Unicode code points, and \<open>internal/pairing/name.go\<close>.

  A rune is a natural number. \<open>decode_rune\<close> is \<open>utf8.DecodeRuneInString\<close> (an ill-formed byte
  gives U+FFFD of width 1), \<open>encode_rune\<close> is \<open>utf8.AppendRune\<close>, \<open>rune_chunks\<close> is what ranging
  over a string visits, each rune with the bytes it came from. On them stand
  \<open>strings.TrimSpace\<close>, \<open>strings.Map\<close>, \<open>utf8.ValidString\<close> and the classes \<open>Cc\<close>, \<open>Cf\<close>, \<open>Zl\<close>,
  \<open>Zp\<close> of package \<open>unicode\<close>. Case folding and lower-casing are written out on ASCII; above it
  they are the table \<open>tab\<close> of package \<open>unicode\<close>, an argument of the functions that use it.
\<close>

section \<open>UTF-8\<close>

type_synonym rune = nat

definition rune_error :: rune where
  "rune_error = 0xFFFD"

definition is_cont :: "nat \<Rightarrow> bool" where
  "is_cont b \<longleftrightarrow> 0x80 \<le> b \<and> b \<le> 0xBF"

definition scalar :: "rune \<Rightarrow> bool" where
  "scalar r \<longleftrightarrow> r \<le> 0x10FFFF \<and> \<not> (0xD800 \<le> r \<and> r \<le> 0xDFFF)"

text \<open>Decoding by the lead byte and the accepted range of the second byte, as package \<open>utf8\<close>.\<close>

fun decode_bytes :: "nat list \<Rightarrow> (rune \<times> nat) option" where
  "decode_bytes [] = None"
| "decode_bytes (b0 # bs) =
     (if b0 < 0x80 then Some (b0, 1)
      else if 0xC2 \<le> b0 \<and> b0 \<le> 0xDF then
        (case bs of b1 # _ \<Rightarrow>
           if is_cont b1 then Some ((b0 - 0xC0) * 64 + (b1 - 0x80), 2) else None
         | _ \<Rightarrow> None)
      else if 0xE0 \<le> b0 \<and> b0 \<le> 0xEF then
        (case bs of b1 # b2 # _ \<Rightarrow>
           if (if b0 = 0xE0 then 0xA0 else 0x80) \<le> b1
              \<and> b1 \<le> (if b0 = 0xED then 0x9F else 0xBF) \<and> is_cont b2
           then Some ((b0 - 0xE0) * 4096 + (b1 - 0x80) * 64 + (b2 - 0x80), 3) else None
         | _ \<Rightarrow> None)
      else if 0xF0 \<le> b0 \<and> b0 \<le> 0xF4 then
        (case bs of b1 # b2 # b3 # _ \<Rightarrow>
           if (if b0 = 0xF0 then 0x90 else 0x80) \<le> b1
              \<and> b1 \<le> (if b0 = 0xF4 then 0x8F else 0xBF) \<and> is_cont b2 \<and> is_cont b3
           then Some ((b0 - 0xF0) * 262144 + (b1 - 0x80) * 4096 + (b2 - 0x80) * 64 + (b3 - 0x80), 4)
           else None
         | _ \<Rightarrow> None)
      else None)"

definition decode_rune :: "string \<Rightarrow> rune \<times> nat" where
  "decode_rune s = (case decode_bytes (map of_char (take 4 s)) of
     Some rn \<Rightarrow> rn | None \<Rightarrow> (rune_error, if s = [] then 0 else 1))"

definition encode_bytes :: "rune \<Rightarrow> nat list" where
  "encode_bytes r =
     (if r < 0x80 then [r]
      else if r < 0x800 then [0xC0 + r div 64, 0x80 + r mod 64]
      else if \<not> scalar r then [0xEF, 0xBF, 0xBD]
      else if r < 0x10000 then [0xE0 + r div 4096, 0x80 + r div 64 mod 64, 0x80 + r mod 64]
      else [0xF0 + r div 262144, 0x80 + r div 4096 mod 64, 0x80 + r div 64 mod 64, 0x80 + r mod 64])"

definition encode_rune :: "rune \<Rightarrow> string" where
  "encode_rune r = map char_of (encode_bytes r)"

lemma decode_bytes_width: "decode_bytes bs = Some (r, n) \<Longrightarrow> 0 < n \<and> n \<le> length bs"
  by (cases bs) (auto split: if_splits list.splits)

lemma decode_rune_width: "s \<noteq> [] \<Longrightarrow> 0 < snd (decode_rune s)"
  by (auto simp: decode_rune_def split: option.splits dest: decode_bytes_width)

function rune_chunks :: "string \<Rightarrow> (rune \<times> string) list" where
  "rune_chunks s =
     (if s = [] then []
      else (fst (decode_rune s), take (snd (decode_rune s)) s)
             # rune_chunks (drop (snd (decode_rune s)) s))"
  by pat_completeness auto
termination
  by (relation "measure length") (simp_all add: decode_rune_width diff_less)

declare rune_chunks.simps [simp del]

definition runes :: "string \<Rightarrow> rune list" where
  "runes s = map fst (rune_chunks s)"

definition from_runes :: "rune list \<Rightarrow> string" where
  "from_runes rs = concat (map encode_rune rs)"

text \<open>\<open>utf8.Valid\<close>: no ill-formed byte.\<close>

definition utf8_valid :: "string \<Rightarrow> bool" where
  "utf8_valid s \<longleftrightarrow> (\<forall>(r, bs) \<in> set (rune_chunks s). \<not> (r = rune_error \<and> length bs = 1))"

section \<open>Round trip\<close>

lemma rune_chunks_Nil [simp]: "rune_chunks [] = []"
  by (simp add: rune_chunks.simps)

lemma runes_Nil [simp]: "runes [] = []"
  by (simp add: runes_def)

lemma from_runes_simps [simp]:
  "from_runes [] = []" "from_runes (r # rs) = encode_rune r @ from_runes rs"
  "from_runes (rs @ rs') = from_runes rs @ from_runes rs'"
  by (simp_all add: from_runes_def)

lemma div_mod_bounds:
  fixes r :: nat
  shows "r mod 64 < 64" "r div 64 mod 64 < 64" "r div 4096 mod 64 < 64"
    "r < 0x800 \<Longrightarrow> r div 64 < 32" "r < 0x10000 \<Longrightarrow> r div 4096 < 16"
    "r \<le> 0x10FFFF \<Longrightarrow> r div 262144 \<le> 4"
  by auto

lemma recompose2: "r div 64 * 64 + r mod 64 = (r::nat)"
  by simp

lemma recompose3: "r div 4096 * 4096 + r div 64 mod 64 * 64 + r mod 64 = (r::nat)"
proof -
  have "r div 4096 = r div 64 div 64" by (simp add: div_mult2_eq [symmetric])
  moreover have "r div 64 div 64 * 64 + r div 64 mod 64 = r div 64" by simp
  ultimately have "r div 4096 * 64 + r div 64 mod 64 = r div 64" by simp
  then have "(r div 4096 * 64 + r div 64 mod 64) * 64 + r mod 64 = r" by simp
  then show ?thesis by (simp add: add_mult_distrib)
qed

lemma recompose4:
  "r div 262144 * 262144 + r div 4096 mod 64 * 4096 + r div 64 mod 64 * 64 + r mod 64 = (r::nat)"
proof -
  have "r div 262144 = r div 4096 div 64" by (simp add: div_mult2_eq [symmetric])
  moreover have "r div 4096 div 64 * 64 + r div 4096 mod 64 = r div 4096" by simp
  ultimately have "r div 262144 * 64 + r div 4096 mod 64 = r div 4096" by simp
  then have "(r div 262144 * 64 + r div 4096 mod 64) * 4096 + r div 64 mod 64 * 64 + r mod 64 = r"
    using recompose3 [of r] by simp
  then show ?thesis by (simp add: add_mult_distrib)
qed

lemma decode2:
  assumes "2 \<le> q" "q \<le> 31" "m \<le> 63"
  shows "decode_bytes ((192 + q) # (128 + m) # rest) = Some (q * 64 + m, 2)"
  using assms by (simp add: is_cont_def)

lemma decode3:
  assumes "q \<le> 15" "m1 \<le> 63" "m0 \<le> 63" "q = 0 \<Longrightarrow> 32 \<le> m1" "q = 13 \<Longrightarrow> m1 \<le> 31"
  shows "decode_bytes ((224 + q) # (128 + m1) # (128 + m0) # rest) = Some (q * 4096 + m1 * 64 + m0, 3)"
  using assms by (auto simp: is_cont_def)

lemma decode4:
  assumes "q \<le> 4" "m2 \<le> 63" "m1 \<le> 63" "m0 \<le> 63" "q = 0 \<Longrightarrow> 16 \<le> m2" "q = 4 \<Longrightarrow> m2 \<le> 15"
  shows "decode_bytes ((240 + q) # (128 + m2) # (128 + m1) # (128 + m0) # rest)
     = Some (q * 262144 + m2 * 4096 + m1 * 64 + m0, 4)"
  using assms by (auto simp: is_cont_def)

lemma decode_encode_bytes:
  assumes "scalar r"
  shows "decode_bytes (encode_bytes r @ rest) = Some (r, length (encode_bytes r))"
proof -
  define m0 m1 m2 where "m0 = r mod 64" and "m1 = r div 64 mod 64" and "m2 = r div 4096 mod 64"
  have m: "m0 \<le> 63" "m1 \<le> 63" "m2 \<le> 63" by (simp_all add: m0_def m1_def m2_def)
  consider "r < 0x80" | "0x80 \<le> r" "r < 0x800" | "0x800 \<le> r" "r < 0x10000" | "0x10000 \<le> r"
    by linarith
  then show ?thesis
  proof cases
    case 1
    then show ?thesis by (simp add: encode_bytes_def)
  next
    case 2
    define q where "q = r div 64"
    have r: "r = q * 64 + m0" by (simp add: q_def m0_def)
    have "2 \<le> q" "q \<le> 31" using 2 m r by linarith+
    from decode2 [OF this m(1), of rest]
    have "decode_bytes ([192 + q, 128 + m0] @ rest) = Some (r, 2)" by (simp only: r append.simps)
    moreover have "encode_bytes r = [192 + q, 128 + m0]"
      using 2 by (simp add: encode_bytes_def q_def m0_def)
    ultimately show ?thesis by (simp del: decode_bytes.simps append.simps)
  next
    case 3
    define q where "q = r div 4096"
    have r: "r = q * 4096 + m1 * 64 + m0" using recompose3 [of r] by (simp add: q_def m0_def m1_def)
    have "q \<le> 15" "q = 0 \<Longrightarrow> 32 \<le> m1" "q = 13 \<Longrightarrow> m1 \<le> 31"
      using 3 m r assms by (auto simp: scalar_def)
    from decode3 [OF this(1) m(2,1) this(2,3), of rest]
    have "decode_bytes ([224 + q, 128 + m1, 128 + m0] @ rest) = Some (r, 3)"
      by (simp only: r append.simps)
    moreover have "encode_bytes r = [224 + q, 128 + m1, 128 + m0]"
      using 3 assms by (simp add: encode_bytes_def q_def m0_def m1_def)
    ultimately show ?thesis by (simp del: decode_bytes.simps append.simps)
  next
    case 4
    define q where "q = r div 262144"
    have r: "r = q * 262144 + m2 * 4096 + m1 * 64 + m0"
      using recompose4 [of r] by (simp add: q_def m0_def m1_def m2_def)
    have "q \<le> 4" "q = 0 \<Longrightarrow> 16 \<le> m2" "q = 4 \<Longrightarrow> m2 \<le> 15"
      using 4 m r assms by (auto simp: scalar_def)
    from decode4 [OF this(1) m(3,2,1) this(2,3), of rest]
    have "decode_bytes ([240 + q, 128 + m2, 128 + m1, 128 + m0] @ rest) = Some (r, 4)"
      by (simp only: r append.simps)
    moreover have "encode_bytes r = [240 + q, 128 + m2, 128 + m1, 128 + m0]"
      using 4 assms by (simp add: encode_bytes_def q_def m0_def m1_def m2_def)
    ultimately show ?thesis by (simp del: decode_bytes.simps append.simps)
  qed
qed

lemma encode_bytes_range: "b \<in> set (encode_bytes r) \<Longrightarrow> b < 256"
  using div_mod_bounds [of r] by (auto simp: encode_bytes_def scalar_def split: if_splits)

lemma length_encode_bytes: "0 < length (encode_bytes r) \<and> length (encode_bytes r) \<le> 4"
  by (simp add: encode_bytes_def)

lemma length_encode_rune [simp]: "length (encode_rune r) = length (encode_bytes r)"
  by (simp add: encode_rune_def)

lemma encode_rune_not_Nil [simp]: "encode_rune r \<noteq> []"
  using length_encode_bytes [of r] by (auto simp: encode_rune_def)

lemma of_char_encode_rune: "map of_char (encode_rune r) = encode_bytes r"
proof -
  have "map (of_char \<circ> char_of) (encode_bytes r) = encode_bytes r"
    by (rule map_idI) (simp add: encode_bytes_range)
  then show ?thesis by (simp add: encode_rune_def)
qed

lemma decode_encode_rune:
  assumes "scalar r"
  shows "decode_rune (encode_rune r @ rest) = (r, length (encode_rune r))"
proof -
  have "decode_bytes (map of_char (take 4 (encode_rune r @ rest)))
      = decode_bytes (map of_char (encode_rune r) @ map of_char (take (4 - length (encode_bytes r)) rest))"
    using length_encode_bytes [of r] by (simp del: decode_bytes.simps)
  also have "\<dots> = Some (r, length (encode_rune r))"
    by (simp only: of_char_encode_rune decode_encode_bytes [OF assms] length_encode_rune)
  finally show ?thesis by (simp only: decode_rune_def option.case)
qed

lemma rune_chunks_encode:
  "scalar r \<Longrightarrow> rune_chunks (encode_rune r @ s) = (r, encode_rune r) # rune_chunks s"
  by (subst rune_chunks.simps) (simp add: decode_encode_rune)

lemma rune_chunks_from_runes:
  "list_all scalar rs \<Longrightarrow> rune_chunks (from_runes rs) = map (\<lambda>r. (r, encode_rune r)) rs"
  by (induction rs) (auto simp: rune_chunks_encode)

lemma runes_from_runes: "list_all scalar rs \<Longrightarrow> runes (from_runes rs) = rs"
  by (simp add: runes_def rune_chunks_from_runes comp_def)

lemma decode_bytes_scalar: "decode_bytes bs = Some (r, n) \<Longrightarrow> scalar r"
proof (induction bs rule: decode_bytes.induct)
  case (2 b0 bs)
  then show ?case
    by (auto simp: scalar_def is_cont_def split: if_splits list.splits)
qed simp

lemma decode_rune_scalar: "scalar (fst (decode_rune s))"
  by (auto simp: decode_rune_def rune_error_def scalar_def [of 65533]
      split: option.splits dest: decode_bytes_scalar)

lemma runes_scalar: "list_all scalar (runes s)"
proof (induction s rule: rune_chunks.induct)
  case (1 s)
  then show ?case
    by (cases "s = []")
      (auto simp: runes_def rune_chunks.simps [of s] decode_rune_scalar)
qed

lemma utf8_valid_from_runes: "list_all scalar rs \<Longrightarrow> utf8_valid (from_runes rs)"
  by (auto simp: utf8_valid_def rune_chunks_from_runes rune_error_def encode_bytes_def scalar_def
      list_all_iff)

section \<open>Character classes\<close>

definition is_space :: "rune \<Rightarrow> bool" where
  "is_space r \<longleftrightarrow> (9 \<le> r \<and> r \<le> 13) \<or> (0x2000 \<le> r \<and> r \<le> 0x200A)
     \<or> r \<in> set [0x20, 0x85, 0xA0, 0x1680, 0x2028, 0x2029, 0x202F, 0x205F, 0x3000]"

definition is_control :: "rune \<Rightarrow> bool" where
  "is_control r \<longleftrightarrow> r < 0x20 \<or> (0x7F \<le> r \<and> r < 0xA0)"

definition in_ranges :: "(nat \<times> nat) list \<Rightarrow> rune \<Rightarrow> bool" where
  "in_ranges tbl r \<longleftrightarrow> list_ex (\<lambda>(lo, hi). lo \<le> r \<and> r \<le> hi) tbl"

definition unicode_Cf :: "(nat \<times> nat) list" where
  "unicode_Cf =
     [(0xAD, 0xAD), (0x600, 0x605), (0x61C, 0x61C), (0x6DD, 0x6DD), (0x70F, 0x70F),
      (0x890, 0x891), (0x8E2, 0x8E2), (0x180E, 0x180E), (0x200B, 0x200F), (0x202A, 0x202E),
      (0x2060, 0x2064), (0x2066, 0x206F), (0xFEFF, 0xFEFF), (0xFFF9, 0xFFFB),
      (0x110BD, 0x110BD), (0x110CD, 0x110CD), (0x13430, 0x1343F), (0x1BCA0, 0x1BCA3),
      (0x1D173, 0x1D17A), (0xE0001, 0xE0001), (0xE0020, 0xE007F)]"

definition unicode_Zl :: "(nat \<times> nat) list" where
  "unicode_Zl = [(0x2028, 0x2028)]"

definition unicode_Zp :: "(nat \<times> nat) list" where
  "unicode_Zp = [(0x2029, 0x2029)]"

section \<open>Trimming, mapping, folding\<close>

definition trim_by :: "('a \<Rightarrow> bool) \<Rightarrow> 'a list \<Rightarrow> 'a list" where
  "trim_by P xs = rev (dropWhile P (rev (dropWhile P xs)))"

text \<open>\<open>strings.TrimSpace\<close>: whole runes are cut off, ill-formed bytes stay.\<close>

definition trim_space :: "string \<Rightarrow> string" where
  "trim_space s = concat (map snd (trim_by (is_space \<circ> fst) (rune_chunks s)))"

text \<open>\<open>strings.Map\<close> with a mapping that drops (\<open>None\<close>) or keeps runes.\<close>

definition strings_map :: "(rune \<Rightarrow> rune option) \<Rightarrow> string \<Rightarrow> string" where
  "strings_map f s = from_runes (List.map_filter f (runes s))"

definition fold_rune :: "(rune \<Rightarrow> rune) \<Rightarrow> rune \<Rightarrow> rune" where
  "fold_rune tab r = (if 65 \<le> r \<and> r \<le> 90 then r + 32 else if r < 128 then r else tab r)"

text \<open>
  \<open>strings.EqualFold\<close> (\<open>tab\<close> picks a representative of each folding orbit above ASCII, ASCII
  letters being the representatives of theirs) and \<open>strings.ToLower\<close>.
\<close>

definition equal_fold :: "(rune \<Rightarrow> rune) \<Rightarrow> string \<Rightarrow> string \<Rightarrow> bool" where
  "equal_fold tab s t \<longleftrightarrow> map (fold_rune tab) (runes s) = map (fold_rune tab) (runes t)"

definition to_lower :: "(rune \<Rightarrow> rune) \<Rightarrow> string \<Rightarrow> string" where
  "to_lower tab s = from_runes (map (fold_rune tab) (runes s))"

lemma equal_fold_refl [simp]: "equal_fold tab s s"
  by (simp add: equal_fold_def)

lemma equal_fold_sym: "equal_fold tab s t \<Longrightarrow> equal_fold tab t s"
  by (simp add: equal_fold_def)

lemma set_trim_by: "set (trim_by P xs) \<subseteq> set xs"
  unfolding trim_by_def by (auto dest!: set_dropWhileD)

lemma trim_by_map: "trim_by P (map f xs) = map f (trim_by (P \<circ> f) xs)"
  by (simp add: trim_by_def dropWhile_map rev_map)

lemma hd_trim_by: "trim_by P xs \<noteq> [] \<Longrightarrow> \<not> P (hd (trim_by P xs))"
proof -
  let ?ys = "dropWhile P xs"
  assume ne: "trim_by P xs \<noteq> []"
  then obtain zs where "?ys = trim_by P xs @ zs"
    unfolding trim_by_def by (metis rev_append rev_rev_ident takeWhile_dropWhile_id)
  with ne have "hd (trim_by P xs) = hd ?ys" and "?ys \<noteq> []" by auto
  then show ?thesis using hd_dropWhile [of P xs] by metis
qed

lemma last_trim_by: "trim_by P xs \<noteq> [] \<Longrightarrow> \<not> P (last (trim_by P xs))"
  unfolding trim_by_def by (simp add: last_rev hd_dropWhile)

lemma trim_by_id: "xs \<noteq> [] \<Longrightarrow> \<not> P (hd xs) \<Longrightarrow> \<not> P (last xs) \<Longrightarrow> trim_by P xs = xs"
proof -
  assume "xs \<noteq> []" "\<not> P (hd xs)" "\<not> P (last xs)"
  then have "dropWhile P xs = xs" and "dropWhile P (rev xs) = rev xs"
    by (simp_all only: dropWhile_eq_self_iff hd_rev simp_thms)
  then show ?thesis by (simp add: trim_by_def)
qed

lemma trim_by_Nil [simp]: "trim_by P [] = []"
  by (simp add: trim_by_def)

lemma trim_space_from_runes:
  "list_all scalar rs \<Longrightarrow> trim_space (from_runes rs) = from_runes (trim_by is_space rs)"
  by (simp add: trim_space_def rune_chunks_from_runes trim_by_map comp_def) (simp add: from_runes_def)

text \<open>Printable ASCII strings have nothing to trim.\<close>

lemma encode_ascii: "r < 128 \<Longrightarrow> encode_rune r = [char_of r]"
  by (simp add: encode_rune_def encode_bytes_def scalar_def)

lemma from_runes_ascii:
  "\<forall>c \<in> set s. of_char c < (128::nat) \<Longrightarrow> from_runes (map of_char s) = s"
  by (induction s) (simp_all add: encode_ascii)

lemma trim_space_ascii:
  assumes "\<forall>c \<in> set s. 33 \<le> (of_char c :: nat) \<and> of_char c < (127 :: nat)"
  shows "trim_space s = s"
proof (cases "s = []")
  case False
  have "\<not> is_space (of_char c)" "scalar (of_char c)" if "c \<in> set s" for c
    using assms that by (auto simp: is_space_def scalar_def)
  then have "list_all scalar (map of_char s)" "trim_by is_space (map of_char s) = map of_char s"
    using False by (auto simp: list_all_iff hd_map last_map intro!: trim_by_id)
  with trim_space_from_runes [OF this(1)] from_runes_ascii [of s] assms show ?thesis by fastforce
qed (simp add: trim_space_def)

lemma utf8_ascii: "list_all (\<lambda>c. of_char c < (128 :: nat)) s \<Longrightarrow> utf8_valid s"
proof -
  assume s: "list_all (\<lambda>c. of_char c < (128 :: nat)) s"
  then have "s = from_runes (map of_char s)" by (intro from_runes_ascii [symmetric]) (simp add: list_all_iff)
  moreover have "list_all scalar (map of_char s)" using s by (auto simp: list_all_iff scalar_def)
  ultimately show ?thesis by (metis utf8_valid_from_runes)
qed

section \<open>NormalizeDeviceName\<close>

definition MaxDeviceNameRunes :: nat where
  "MaxDeviceNameRunes = 128"

definition NormalizeDeviceName :: "string \<Rightarrow> string" where
  "NormalizeDeviceName name =
     (let name = trim_space (strings_map
            (\<lambda>r. if is_control r \<or> in_ranges (unicode_Cf @ unicode_Zl @ unicode_Zp) r
                 then None else Some r) name);
          rs = runes name
      in if length rs > MaxDeviceNameRunes then from_runes (take MaxDeviceNameRunes rs) else name)"

definition keeps_rune :: "rune \<Rightarrow> bool" where
  "keeps_rune r \<longleftrightarrow> \<not> is_control r \<and> \<not> in_ranges (unicode_Cf @ unicode_Zl @ unicode_Zp) r"

lemma NormalizeDeviceName_eq:
  "NormalizeDeviceName name =
     from_runes (take MaxDeviceNameRunes (trim_by is_space (filter keeps_rune (runes name))))"
proof -
  let ?rs = "filter keeps_rune (runes name)"
  have map: "strings_map (\<lambda>r. if is_control r \<or> in_ranges (unicode_Cf @ unicode_Zl @ unicode_Zp) r
      then None else Some r) name = from_runes ?rs"
    by (simp add: strings_map_def map_filter_drop keeps_rune_def [abs_def])
  have sc: "list_all scalar ?rs" using runes_scalar [of name] by (auto simp: list_all_iff)
  then have "list_all scalar (trim_by is_space ?rs)"
    using set_trim_by [of is_space ?rs] by (auto simp: list_all_iff)
  then have "runes (from_runes (trim_by is_space ?rs)) = trim_by is_space ?rs"
    by (rule runes_from_runes)
  then show ?thesis
    by (auto simp: NormalizeDeviceName_def Let_def map trim_space_from_runes [OF sc])
qed

lemma runes_NormalizeDeviceName:
  "runes (NormalizeDeviceName name) =
     take MaxDeviceNameRunes (trim_by is_space (filter keeps_rune (runes name)))"
proof -
  have "set (take MaxDeviceNameRunes (trim_by is_space (filter keeps_rune (runes name))))
      \<subseteq> set (runes name)"
    by (meson filter_is_subset order_trans set_take_subset set_trim_by)
  with runes_scalar [of name]
  have "list_all scalar (take MaxDeviceNameRunes (trim_by is_space (filter keeps_rune (runes name))))"
    unfolding list_all_iff by blast
  then show ?thesis by (simp add: NormalizeDeviceName_eq runes_from_runes)
qed

lemma NormalizeDeviceName_from_runes:
  "list_all scalar rs \<Longrightarrow> NormalizeDeviceName (from_runes rs) =
     from_runes (take MaxDeviceNameRunes (trim_by is_space (filter keeps_rune rs)))"
  by (simp add: NormalizeDeviceName_eq runes_from_runes)

definition safe_name :: "string \<Rightarrow> bool" where
  "safe_name n \<longleftrightarrow> n \<noteq> [] \<and> length (runes n) \<le> MaxDeviceNameRunes \<and> list_all keeps_rune (runes n)"

lemma safe_name_normalized: "NormalizeDeviceName n \<noteq> [] \<Longrightarrow> safe_name (NormalizeDeviceName n)"
proof -
  have "set (take MaxDeviceNameRunes (trim_by is_space (filter keeps_rune (runes n))))
      \<subseteq> set (filter keeps_rune (runes n))"
    by (meson order_trans set_take_subset set_trim_by)
  then show "NormalizeDeviceName n \<noteq> [] \<Longrightarrow> ?thesis"
    unfolding safe_name_def runes_NormalizeDeviceName list_all_iff by auto
qed

text \<open>A one-letter name, for the samples of the components that use names.\<close>

lemma runes_B: "runes ''B'' = [66]" "list_all keeps_rune [66]" "trim_by is_space [66] = [66]"
proof -
  have "from_runes [66] = ''B''" by code_simp
  with runes_from_runes [of "[66]"] show "runes ''B'' = [66]" by (simp add: scalar_def)
qed (simp_all add: keeps_rune_def is_control_def in_ranges_def unicode_Cf_def unicode_Zl_def
    unicode_Zp_def trim_by_def is_space_def)

lemma normalize_B: "NormalizeDeviceName ''B'' = ''B''"
proof -
  have "from_runes [66] = ''B''" by code_simp
  with runes_B show ?thesis by (simp add: NormalizeDeviceName_eq MaxDeviceNameRunes_def)
qed

section \<open>Properties\<close>

text \<open>
  Whatever bytes the network supplies, a normalised device name is valid UTF-8 of at most
  128 code points, none of which is a control, format, line or paragraph separator, and it
  does not start with white space.
\<close>

theorem normalized_name_is_safe:
  "utf8_valid (NormalizeDeviceName name) \<and> length (runes (NormalizeDeviceName name)) \<le> 128 \<and>
   list_all (\<lambda>r. \<not> is_control r \<and> \<not> in_ranges unicode_Cf r \<and> \<not> in_ranges unicode_Zl r
                 \<and> \<not> in_ranges unicode_Zp r) (runes (NormalizeDeviceName name)) \<and>
   (case runes (NormalizeDeviceName name) of [] \<Rightarrow> True | r # _ \<Rightarrow> \<not> is_space r)"
proof -
  let ?rs = "trim_by is_space (filter keeps_rune (runes name))"
  let ?n = "take MaxDeviceNameRunes ?rs"
  have sub: "set ?n \<subseteq> set (filter keeps_rune (runes name))"
    by (meson order_trans set_take_subset set_trim_by)
  with runes_scalar [of name] have "list_all scalar ?n" by (auto simp: list_all_iff)
  then have "utf8_valid (NormalizeDeviceName name)"
    by (simp add: NormalizeDeviceName_eq utf8_valid_from_runes)
  moreover have "case ?n of [] \<Rightarrow> True | r # _ \<Rightarrow> \<not> is_space r"
    using hd_trim_by [of is_space "filter keeps_rune (runes name)"]
    by (cases ?rs) (auto simp: MaxDeviceNameRunes_def)
  ultimately show ?thesis
    using sub unfolding runes_NormalizeDeviceName
    by (auto simp: list_all_iff keeps_rune_def in_ranges_def MaxDeviceNameRunes_def)
qed

text \<open>
  A name that is already well-formed UTF-8, at most 128 code points long, free of the
  dropped classes and not framed by white space comes back unchanged.
\<close>

theorem normalize_keeps_clean_names:
  assumes "list_all scalar rs" "list_all keeps_rune rs" "rs \<noteq> []"
    "\<not> is_space (hd rs)" "\<not> is_space (last rs)" "length rs \<le> 128"
  shows "NormalizeDeviceName (from_runes rs) = from_runes rs"
proof -
  from assms(2) have "filter keeps_rune rs = rs" by (simp add: list_all_iff filter_id_conv)
  with assms show ?thesis
    by (simp add: NormalizeDeviceName_from_runes trim_by_id MaxDeviceNameRunes_def)
qed

theorem normalize_keeps_clean_names_witness:
  "NormalizeDeviceName (from_runes [83, 116, 32, 0x1F642]) = from_runes [83, 116, 32, 0x1F642]"
  by (rule normalize_keeps_clean_names)
    (simp_all add: scalar_def keeps_rune_def is_control_def in_ranges_def unicode_Cf_def
      unicode_Zl_def unicode_Zp_def is_space_def)

text \<open>
  Normalisation is not idempotent: the cut at 128 code points comes after the trimming, so
  a long name can come out ending in a space, which a second pass removes. \<open>UpdateName\<close>
  normalises a name its caller has already normalised, so for such a name it stores a label
  that differs from the one its caller compares with.
\<close>

theorem normalize_not_idempotent:
  "NormalizeDeviceName (NormalizeDeviceName (replicate 127 (CHR ''x'') @ '' y''))
     \<noteq> NormalizeDeviceName (replicate 127 (CHR ''x'') @ '' y'')"
proof -
  let ?rs = "replicate 127 (120::nat)"
  have keep: "keeps_rune 120" "keeps_rune 32" "keeps_rune 121"
    by (simp_all add: keeps_rune_def is_control_def in_ranges_def unicode_Cf_def
        unicode_Zl_def unicode_Zp_def)
  have sp: "\<not> is_space 120" "is_space 32" "\<not> is_space 121" by (simp_all add: is_space_def)
  have enc: "encode_rune 120 = ''x''" "encode_rune 32 = '' ''" "encode_rune 121 = ''y''"
    by code_simp+
  have "from_runes (?rs @ [32, 121]) = replicate 127 (CHR ''x'') @ '' y''"
    by (simp add: enc from_runes_def concat_replicate_single)
  moreover have sc: "list_all scalar (?rs @ [32, 121])" "list_all scalar (?rs @ [32])"
    by (simp_all add: list_all_iff scalar_def)
  ultimately have one: "NormalizeDeviceName (replicate 127 (CHR ''x'') @ '' y'')
      = from_runes (take 128 (trim_by is_space (filter keeps_rune (?rs @ [32, 121]))))"
    using NormalizeDeviceName_from_runes [OF sc(1)] by (simp add: MaxDeviceNameRunes_def)
  have "trim_by is_space (?rs @ [32, 121]) = ?rs @ [32, 121]"
    by (rule trim_by_id) (simp_all add: sp hd_append)
  then have one: "NormalizeDeviceName (replicate 127 (CHR ''x'') @ '' y'') = from_runes (?rs @ [32])"
    using one keep by (simp add: filter_replicate)
  have "trim_by is_space (?rs @ [32]) = ?rs"
    by (simp add: trim_by_def sp dropWhile_append2 dropWhile_replicate)
  then have "NormalizeDeviceName (from_runes (?rs @ [32])) = from_runes ?rs"
    using NormalizeDeviceName_from_runes [OF sc(2)] keep
    by (simp add: MaxDeviceNameRunes_def filter_replicate)
  with one show ?thesis by (simp add: enc)
qed

end
