(* ===== verification/Rate_Limit.thy ===== *)
theory Rate_Limit
  imports Windows Net_IP Runes
begin

text \<open>
  The limiter of unauthenticated pairing requests (\<open>internal/daemon/daemon.go\<close>,
  \<open>allowPairAttempt\<close> and \<open>pairRateKey\<close>): one window for all sources, one per source key, and a
  bounded table of sources. The daemon's \<open>pairMu\<close> makes a call atomic; its clock reading is an
  argument. A missing map entry reads as the zero \<open>pairRate\<close>, as in Go.
\<close>

section \<open>State and operations\<close>

record pairRate =
  pr_window :: time
  pr_count :: int

record rate_limiter =
  pairRates :: "(string, pairRate) gomap"
  pairGlobal :: pairRate

definition maxPairAttemptsPerMinute :: int where
  "maxPairAttemptsPerMinute = 10"

definition maxGlobalPairAttempts :: int where
  "maxGlobalPairAttempts = 64"

definition maxPairRateEntries :: nat where
  "maxPairRateEntries = 256"

definition new_limiter :: rate_limiter where
  "new_limiter = \<lparr>pairRates = [], pairGlobal = \<lparr>pr_window = zero_time, pr_count = 0\<rparr>\<rparr>"

definition pairRateKey :: "string \<Rightarrow> string" where
  "pairRateKey host =
     (case ParseIP (trim_space host) of
        None \<Rightarrow> host
      | Some ip \<Rightarrow>
          (case To4 ip of
             Some v4 \<Rightarrow> ip_string v4
           | None \<Rightarrow> ip_string (mask_bytes ip mask64) @ ''/64''))"

definition expired_rate :: "time \<Rightarrow> pairRate \<Rightarrow> bool" where
  "expired_rate now r \<longleftrightarrow> time_sub now (pr_window r) \<ge> minute"

definition prune_rates :: "time \<Rightarrow> rate_limiter \<Rightarrow> rate_limiter" where
  "prune_rates now l = l\<lparr>pairRates := filter (\<lambda>(k, r). \<not> expired_rate now r) (pairRates l)\<rparr>"

definition allow_key :: "time \<Rightarrow> string \<Rightarrow> rate_limiter \<Rightarrow> bool \<times> rate_limiter" where
  "allow_key now host l =
     (let l = (if pr_window (pairGlobal l) = zero_time \<or> expired_rate now (pairGlobal l)
               then l\<lparr>pairGlobal := \<lparr>pr_window = now, pr_count = 0\<rparr>\<rparr> else l);
          l = prune_rates now l;
          rate = (case mget (pairRates l) host of Some r \<Rightarrow> r
                  | None \<Rightarrow> \<lparr>pr_window = zero_time, pr_count = 0\<rparr>)
      in if pr_window rate = zero_time \<and> length (pairRates l) \<ge> maxPairRateEntries then (False, l)
         else
           let rate = (if pr_window rate = zero_time \<or> expired_rate now rate
                       then \<lparr>pr_window = now, pr_count = 0\<rparr> else rate)
           in if pr_count rate \<ge> maxPairAttemptsPerMinute then (False, l)
              else if pr_count (pairGlobal l) \<ge> maxGlobalPairAttempts then (False, l)
              else
                let rate = rate\<lparr>pr_count := pr_count rate + 1\<rparr>
                in (True, l\<lparr>pairRates := mput host rate (pairRates l),
                           pairGlobal := (pairGlobal l)\<lparr>pr_count := pr_count (pairGlobal l) + 1\<rparr>\<rparr>))"

definition allowPairAttempt :: "time \<Rightarrow> string \<Rightarrow> rate_limiter \<Rightarrow> bool \<times> rate_limiter" where
  "allowPairAttempt now addr l =
     (let host = (case SplitHostPort addr of Some (host, _) \<Rightarrow> host | None \<Rightarrow> addr)
      in allow_key now (pairRateKey host) l)"

section \<open>One step\<close>

definition source_of :: "string \<Rightarrow> string" where
  "source_of addr = pairRateKey (case SplitHostPort addr of Some (host, _) \<Rightarrow> host | None \<Rightarrow> addr)"

definition live_rates :: "time \<Rightarrow> rate_limiter \<Rightarrow> (string, pairRate) gomap" where
  "live_rates now l = filter (\<lambda>(k, r). now < pr_window r + 60000000000) (pairRates l)"

definition current_global :: "time \<Rightarrow> rate_limiter \<Rightarrow> pairRate" where
  "current_global now l =
     (if pr_window (pairGlobal l) = 0 \<or> pr_window (pairGlobal l) + 60000000000 \<le> now
      then \<lparr>pr_window = now, pr_count = 0\<rparr> else pairGlobal l)"

definition rate_at :: "time \<Rightarrow> string \<Rightarrow> rate_limiter \<Rightarrow> pairRate" where
  "rate_at now k l = (case mget (live_rates now l) k of Some r \<Rightarrow> r
     | None \<Rightarrow> \<lparr>pr_window = now, pr_count = 0\<rparr>)"

lemma expired_rate_iff: "expired_rate now r \<longleftrightarrow> pr_window r + 60000000000 \<le> now"
  by (auto simp: expired_rate_def time_sub_ge_minute)

lemma prune_rates_eq: "prune_rates now l = l\<lparr>pairRates := live_rates now l\<rparr>"
  by (simp add: prune_rates_def live_rates_def expired_rate_iff not_le)

definition rates_ok :: "rate_limiter \<Rightarrow> bool" where
  "rates_ok l \<longleftrightarrow> wf_map (pairRates l) \<and> list_all (\<lambda>(k, r). 0 < pr_window r \<and> 1 \<le> pr_count r
     \<and> pr_count r \<le> 10) (pairRates l) \<and> 0 \<le> pr_window (pairGlobal l) \<and> 0 \<le> pr_count (pairGlobal l)
     \<and> pr_count (pairGlobal l) \<le> 64"

lemma live_rates_ok:
  "rates_ok l \<Longrightarrow> wf_map (live_rates now l)"
  "rates_ok l \<Longrightarrow> mget (live_rates now l) k = Some r \<Longrightarrow>
     0 < pr_window r \<and> now < pr_window r + 60000000000 \<and> 1 \<le> pr_count r \<and> pr_count r \<le> 10"
  by (auto simp: rates_ok_def live_rates_def list_all_iff dest!: mget_Some_mem)

lemma allow_key_eq:
  assumes "rates_ok l" "0 < now"
  shows "allow_key now k l =
     (let l' = l\<lparr>pairRates := live_rates now l, pairGlobal := current_global now l\<rparr>;
          r = rate_at now k l
      in if mget (live_rates now l) k = None \<and> 256 \<le> length (live_rates now l) then (False, l')
         else if 10 \<le> pr_count r \<or> 64 \<le> pr_count (current_global now l) then (False, l')
         else (True, l'\<lparr>pairRates := mput k (r\<lparr>pr_count := pr_count r + 1\<rparr>) (live_rates now l),
                      pairGlobal := (current_global now l)\<lparr>pr_count := pr_count (current_global now l) + 1\<rparr>\<rparr>))"
proof -
  have global: "prune_rates now (if pr_window (pairGlobal l) = zero_time \<or> expired_rate now (pairGlobal l)
      then l\<lparr>pairGlobal := \<lparr>pr_window = now, pr_count = 0\<rparr>\<rparr> else l)
      = l\<lparr>pairRates := live_rates now l, pairGlobal := current_global now l\<rparr>"
    by (simp add: prune_rates_eq live_rates_def current_global_def expired_rate_iff time_simps)
  show ?thesis
  proof (cases "mget (live_rates now l) k")
    case None
    then show ?thesis
      unfolding allow_key_def global Let_def
      by (simp add: rate_at_def time_simps maxPairRateEntries_def maxPairAttemptsPerMinute_def
          maxGlobalPairAttempts_def)
  next
    case (Some r)
    with live_rates_ok(2) [OF assms(1) Some] show ?thesis
      unfolding allow_key_def global Let_def
      by (simp add: rate_at_def time_simps expired_rate_iff maxPairRateEntries_def
          maxPairAttemptsPerMinute_def maxGlobalPairAttempts_def)
  qed
qed

lemma allow_key_cases:
  assumes ok: "rates_ok l" and pos: "0 < now"
  obtains (refused) "allow_key now k l =
      (False, l\<lparr>pairRates := live_rates now l, pairGlobal := current_global now l\<rparr>)"
  | (allowed) "allow_key now k l =
      (True, l\<lparr>pairRates := mput k ((rate_at now k l)\<lparr>pr_count := pr_count (rate_at now k l) + 1\<rparr>)
                             (live_rates now l),
             pairGlobal := (current_global now l)\<lparr>pr_count := pr_count (current_global now l) + 1\<rparr>\<rparr>)"
      "pr_count (rate_at now k l) < 10" "pr_count (current_global now l) < 64"
      "mget (live_rates now l) k \<noteq> None \<or> length (live_rates now l) < 256"
proof (cases "fst (allow_key now k l)")
  case True
  with allowed show thesis
    by (auto simp: allow_key_eq [OF ok pos] Let_def split: if_splits)
next
  case False
  with refused show thesis
    by (auto simp: allow_key_eq [OF ok pos] Let_def split: if_splits)
qed

section \<open>The invariant and the windows\<close>

lemma current_global_ok:
  "rates_ok l \<Longrightarrow> 0 < now \<Longrightarrow> 0 < pr_window (current_global now l)
     \<and> 0 \<le> pr_count (current_global now l) \<and> pr_count (current_global now l) \<le> 64"
  by (auto simp: rates_ok_def current_global_def)

lemma rate_at_ok:
  "rates_ok l \<Longrightarrow> 0 < now \<Longrightarrow> 0 < pr_window (rate_at now k l)
     \<and> 0 \<le> pr_count (rate_at now k l) \<and> pr_count (rate_at now k l) \<le> 10"
  by (auto simp: rate_at_def split: option.split dest!: live_rates_ok(2))

lemma rates_ok_live:
  assumes ok: "rates_ok l" and pos: "0 < now"
  shows "rates_ok (l\<lparr>pairRates := live_rates now l, pairGlobal := current_global now l\<rparr>)"
  using assms current_global_ok [OF assms]
  by (auto simp: rates_ok_def live_rates_def list_all_iff)

lemma rates_ok_step:
  assumes ok: "rates_ok l" and pos: "0 < now"
  shows "rates_ok (snd (allow_key now k l))"
proof (rule allow_key_cases [OF ok pos, of k])
  assume "allow_key now k l =
      (False, l\<lparr>pairRates := live_rates now l, pairGlobal := current_global now l\<rparr>)"
  with rates_ok_live [OF assms] show ?thesis by simp
next
  assume "allow_key now k l =
      (True, l\<lparr>pairRates := mput k ((rate_at now k l)\<lparr>pr_count := pr_count (rate_at now k l) + 1\<rparr>)
                             (live_rates now l),
             pairGlobal := (current_global now l)\<lparr>pr_count := pr_count (current_global now l) + 1\<rparr>\<rparr>)"
    "pr_count (rate_at now k l) < 10" "pr_count (current_global now l) < 64"
  with rates_ok_live [OF assms] rate_at_ok [OF assms, of k] current_global_ok [OF assms]
  show ?thesis
    by (auto simp: rates_ok_def intro!: list_all_mput)
qed

lemma new_limiter_ok: "rates_ok new_limiter"
  by (simp add: rates_ok_def new_limiter_def zero_time_def)

text \<open>An attempt of a history: when, and from which remote address.\<close>

type_synonym attempt = "time \<times> string"

definition attempt_step :: "attempt \<Rightarrow> rate_limiter \<Rightarrow> rate_limiter" where
  "attempt_step x l = snd (allowPairAttempt (fst x) (snd x) l)"

definition attempt_allowed :: "attempt \<Rightarrow> rate_limiter \<Rightarrow> bool" where
  "attempt_allowed x l = fst (allowPairAttempt (fst x) (snd x) l)"

definition allowed_attempts :: "attempt list \<Rightarrow> rate_limiter \<Rightarrow> attempt list" where
  "allowed_attempts xs l = let_through attempt_allowed attempt_step xs l"

lemma allowPairAttempt_eq: "allowPairAttempt now addr l = allow_key now (source_of addr) l"
  by (simp add: allowPairAttempt_def source_of_def)

definition global_view :: "rate_limiter \<Rightarrow> (time \<times> nat) option" where
  "global_view l = (if pr_window (pairGlobal l) = 0 then None
     else Some (pr_window (pairGlobal l), nat (pr_count (pairGlobal l))))"

definition source_view :: "string \<Rightarrow> rate_limiter \<Rightarrow> (time \<times> nat) option" where
  "source_view k l = map_option (\<lambda>r. (pr_window r, nat (pr_count r))) (mget (pairRates l) k)"

interpretation all_sources: window_counter attempt_step fst attempt_allowed global_view rates_ok
    60000000000 64
proof (unfold_locales, goal_cases)
  case (1 s x)
  then show ?case by (simp add: attempt_step_def allowPairAttempt_eq rates_ok_step)
next
  case (2 s x)
  show ?case
    by (rule allow_key_cases [OF 2(1,2), of "source_of (snd x)"])
      (use 2 current_global_ok [OF 2(1,2)] in \<open>auto simp: attempt_step_def attempt_allowed_def
          allowPairAttempt_eq global_view_def current_global_def rates_ok_def nat_add_distrib
          split: if_splits\<close>)
next
  case (3 s x)
  show ?case
    by (rule allow_key_cases [OF 3(1,2), of "source_of (snd x)"])
      (use 3 current_global_ok [OF 3(1,2)] in \<open>auto simp: attempt_step_def attempt_allowed_def
          allowPairAttempt_eq global_view_def current_global_def split: if_splits\<close>)
qed simp

lemma source_view_live:
  assumes "rates_ok l"
  shows "map_option (\<lambda>r. (pr_window r, nat (pr_count r))) (mget (live_rates now l) k) =
    (case source_view k l of None \<Rightarrow> None
     | Some (w, n) \<Rightarrow> if now < w + 60000000000 then Some (w, n) else None)"
  using assms by (auto simp: live_rates_def source_view_def mget_filter rates_ok_def split: option.split)

interpretation one_source: window_counter attempt_step fst
    "\<lambda>x l. attempt_allowed x l \<and> source_of (snd x) = k" "source_view k" rates_ok 60000000000 10
  for k
proof (unfold_locales, goal_cases)
  case (1 s x)
  then show ?case by (simp add: attempt_step_def allowPairAttempt_eq rates_ok_step)
next
  case (2 s x)
  note live = source_view_live [OF 2(1), of "fst x" k]
  show ?case
    by (rule allow_key_cases [OF 2(1,2), of k])
      (use 2 live rate_at_ok [OF 2(1,2), of k] in \<open>auto simp: attempt_step_def attempt_allowed_def
          allowPairAttempt_eq source_view_def rate_at_def gomap_simps nat_add_distrib
          split: option.splits if_splits\<close>)
next
  case (3 s x)
  note live = source_view_live [OF 3(1), of "fst x" k]
  show ?case
    by (rule allow_key_cases [OF 3(1,2), of "source_of (snd x)"])
      (use 3 live in \<open>auto simp: attempt_step_def attempt_allowed_def allowPairAttempt_eq
          source_view_def gomap_simps split: option.splits if_splits\<close>)
qed simp

section \<open>The table of sources\<close>

text \<open>
  The entries begun in the current global window are at most the attempts it let through; the
  older ones belong to the previous global window, all earlier ones having expired.
\<close>

definition newer :: "rate_limiter \<Rightarrow> (string, pairRate) gomap" where
  "newer l = filter (\<lambda>(k, r). pr_window (pairGlobal l) \<le> pr_window r) (pairRates l)"

definition older :: "rate_limiter \<Rightarrow> (string, pairRate) gomap" where
  "older l = filter (\<lambda>(k, r). pr_window r < pr_window (pairGlobal l)) (pairRates l)"

definition table_ok :: "rate_limiter \<Rightarrow> bool" where
  "table_ok l \<longleftrightarrow> rates_ok l
     \<and> list_all (\<lambda>(k, r). pr_window r < pr_window (pairGlobal l) + 60000000000) (pairRates l)
     \<and> (pr_window (pairGlobal l) = 0 \<longrightarrow> pairRates l = [])
     \<and> length (newer l) \<le> nat (pr_count (pairGlobal l)) \<and> length (older l) \<le> 64"

lemma length_newer_older: "length (pairRates l) = length (newer l) + length (older l)"
proof -
  have "older l = filter (\<lambda>x. \<not> (case x of (k, r) \<Rightarrow> pr_window (pairGlobal l) \<le> pr_window r)) (pairRates l)"
    by (auto simp: older_def intro: filter_cong)
  then show ?thesis by (simp add: newer_def sum_length_filter_compl)
qed

lemma table_small: "table_ok l \<Longrightarrow> length (pairRates l) \<le> 128"
  by (auto simp: table_ok_def rates_ok_def length_newer_older)

lemma table_ok_live:
  assumes ok: "table_ok l" and pos: "0 < now" and clock: "pr_window (pairGlobal l) \<le> now"
  shows "table_ok (l\<lparr>pairRates := live_rates now l, pairGlobal := current_global now l\<rparr>)"
proof -
  let ?l = "l\<lparr>pairRates := live_rates now l, pairGlobal := current_global now l\<rparr>"
  have rok: "rates_ok l" using ok by (simp add: table_ok_def)
  note rok' = rates_ok_live [OF rok pos]
  show ?thesis
  proof (cases "pr_window (pairGlobal l) = 0 \<or> pr_window (pairGlobal l) + 60000000000 \<le> now")
    case reset: True
    have young: "pr_window r < now \<and> pr_window (pairGlobal l) \<le> pr_window r"
      if "(k, r) \<in> set (live_rates now l)" for k r
      using that ok reset by (auto simp: live_rates_def table_ok_def list_all_iff)
    have "newer ?l = []"
      using young reset by (auto simp: newer_def filter_empty_conv current_global_def) fastforce+
    moreover have "length (live_rates now l) \<le> length (newer l)"
    proof -
      have "live_rates now l = filter (\<lambda>(k, r). now < pr_window r + 60000000000) (newer l)"
        using young by (auto simp: newer_def live_rates_def intro!: filter_cong)
      then show ?thesis by simp
    qed
    moreover have "length (newer l) \<le> 64" using ok by (auto simp: table_ok_def rates_ok_def)
    ultimately have "length (older ?l) \<le> 64"
      using length_newer_older [of ?l] by simp
    moreover have "pr_window r < now + 60000000000" if "(k, r) \<in> set (live_rates now l)" for k r
      using young [OF that] by linarith
    ultimately show ?thesis
      using rok' pos \<open>newer ?l = []\<close> reset
      by (auto simp: table_ok_def list_all_iff current_global_def)
  next
    case False
    then have g: "current_global now l = pairGlobal l" by (auto simp: current_global_def)
    have "length (newer ?l) \<le> length (newer l)" "length (older ?l) \<le> length (older l)"
      by (simp_all add: g newer_def older_def live_rates_def conj_commute
          length_filter_filter_le del: filter_filter)
    with rok' ok False show ?thesis
      by (auto simp: table_ok_def g live_rates_def list_all_iff)
  qed
qed

lemma table_ok_put:
  assumes ok: "table_ok l" and new: "0 < pr_window r" "1 \<le> pr_count r" "pr_count r \<le> 10"
    "mget (pairRates l) k = None \<Longrightarrow> pr_window (pairGlobal l) \<le> pr_window r
       \<and> pr_window r < pr_window (pairGlobal l) + 60000000000"
    "\<And>q. mget (pairRates l) k = Some q \<Longrightarrow> pr_window q = pr_window r"
    and room: "pr_count (pairGlobal l) < 64" "0 < pr_window (pairGlobal l)"
  shows "table_ok (l\<lparr>pairRates := mput k r (pairRates l),
    pairGlobal := (pairGlobal l)\<lparr>pr_count := pr_count (pairGlobal l) + 1\<rparr>\<rparr>)"
proof -
  let ?l = "l\<lparr>pairRates := mput k r (pairRates l),
    pairGlobal := (pairGlobal l)\<lparr>pr_count := pr_count (pairGlobal l) + 1\<rparr>\<rparr>"
  have rok: "rates_ok ?l"
    using ok new(1-3) room by (auto simp: table_ok_def rates_ok_def intro!: list_all_mput)
  have wf: "wf_map (pairRates l)" using ok by (simp add: table_ok_def rates_ok_def)
  have sizes: "length (newer ?l) \<le> Suc (length (newer l)) \<and> length (older ?l) \<le> length (older l)"
    if "wf_map m" "pairRates l = m" for m
    using new(4,5) that
  proof (cases "mget m k")
    case None
    then have "mput k r m = m @ [(k, r)]"
      by (induction m) auto
    with None new(4) that show ?thesis by (simp add: newer_def older_def)
  next
    case (Some q)
    then obtain xs ys where m: "m = xs @ (k, q) # ys"
      using split_list [of "(k, q)" m] by (auto dest: map_of_SomeD)
    with that(1) have k: "k \<notin> fst ` set xs" by (simp add: wf_map_def)
    have "mput k r m = xs @ (k, r) # ys"
      using k unfolding m by (induction xs) auto
    with Some new(5) that m show ?thesis by (auto simp: newer_def older_def)
  qed
  have "list_all (\<lambda>(k, r). pr_window r < pr_window (pairGlobal l) + 60000000000) (mput k r (pairRates l))"
  proof (rule list_all_mput)
    show "list_all (\<lambda>(k, r). pr_window r < pr_window (pairGlobal l) + 60000000000) (pairRates l)"
      using ok by (simp add: table_ok_def)
    then have old: "pr_window q < pr_window (pairGlobal l) + 60000000000"
      if "mget (pairRates l) k = Some q" for q
      using mget_Some_mem [OF that] by (auto simp: list_all_iff)
    show "case (k, r) of (k, r) \<Rightarrow> pr_window r < pr_window (pairGlobal l) + 60000000000"
    proof (cases "mget (pairRates l) k")
      case None
      with new(4) show ?thesis by simp
    next
      case (Some q)
      with old [OF Some] new(5) [OF Some] show ?thesis by simp
    qed
  qed
  with rok ok sizes [OF wf refl] room show ?thesis
    by (auto simp: table_ok_def rates_ok_def)
qed

lemma table_ok_step:
  assumes ok: "table_ok l" and pos: "0 < now" and clock: "pr_window (pairGlobal l) \<le> now"
  shows "table_ok (snd (allow_key now k l)) \<and> pr_window (pairGlobal (snd (allow_key now k l))) \<le> now"
proof -
  let ?l = "l\<lparr>pairRates := live_rates now l, pairGlobal := current_global now l\<rparr>"
  have rok: "rates_ok l" using ok by (simp add: table_ok_def)
  have ok': "table_ok ?l" by (rule table_ok_live [OF assms])
  have now: "pr_window (current_global now l) \<le> now \<and> now < pr_window (current_global now l) + 60000000000"
    using clock by (auto simp: current_global_def)
  show ?thesis
  proof (rule allow_key_cases [OF rok pos, of k])
    assume "allow_key now k l = (False, ?l)"
    with ok' now show ?thesis by simp
  next
    let ?r = "(rate_at now k l)\<lparr>pr_count := pr_count (rate_at now k l) + 1\<rparr>"
    assume step: "allow_key now k l = (True, l\<lparr>pairRates := mput k ?r (live_rates now l),
             pairGlobal := (current_global now l)\<lparr>pr_count := pr_count (current_global now l) + 1\<rparr>\<rparr>)"
      and room: "pr_count (rate_at now k l) < 10" "pr_count (current_global now l) < 64"
    have "table_ok (?l\<lparr>pairRates := mput k ?r (pairRates ?l),
        pairGlobal := (pairGlobal ?l)\<lparr>pr_count := pr_count (pairGlobal ?l) + 1\<rparr>\<rparr>)"
      by (rule table_ok_put [OF ok'])
        (use room now rate_at_ok [OF rok pos, of k] current_global_ok [OF rok pos]
          in \<open>auto simp: rate_at_def split: option.splits\<close>)
    with step now show ?thesis by simp
  qed
qed

lemma table_ok_run:
  assumes "table_ok l" "sorted (map fst xs)" "\<forall>x \<in> set xs. 0 < fst x \<and> pr_window (pairGlobal l) \<le> fst x"
  shows "table_ok (fold attempt_step xs l)"
  using assms
proof (induction xs arbitrary: l)
  case (Cons x xs)
  from table_ok_step [OF Cons.prems(1), of "fst x" "source_of (snd x)"] Cons.prems
  have "table_ok (attempt_step x l)" "pr_window (pairGlobal (attempt_step x l)) \<le> fst x"
    by (auto simp: attempt_step_def allowPairAttempt_eq)
  with Cons.IH [of "attempt_step x l"] Cons.prems(2,3) show ?case by force
qed simp

lemma new_limiter_table_ok: "table_ok new_limiter"
  using new_limiter_ok by (simp add: table_ok_def new_limiter_def newer_def older_def)

section \<open>Properties\<close>

text \<open>
  C16. How much pairing work an attacker can cause. Over any history of attempts with
  non-decreasing clock readings (the clock is read just before the lock is taken, so two attempts
  that overtake each other in between are not such a history), in any interval of one minute (wherever it starts) at most 128
  attempts are let through in all, and at most 20 from any one source key: twice the limits of
  one window, and no more.
\<close>

theorem pair_attempts_are_bounded:
  assumes "sorted (map fst xs)" "\<forall>x \<in> set xs. 0 < fst x"
  shows "length (filter (\<lambda>x. t \<le> fst x \<and> fst x < t + minute) (allowed_attempts xs new_limiter))
        \<le> 2 * nat maxGlobalPairAttempts
    \<and> length (filter (\<lambda>x. t \<le> fst x \<and> fst x < t + minute \<and> source_of (snd x) = k)
          (allowed_attempts xs new_limiter)) \<le> 2 * nat maxPairAttemptsPerMinute"
proof
  have minute: "minute = 60000000000" by (simp add: minute_def second_def)
  have "all_sources.within new_limiter" "one_source.within k new_limiter"
    using new_limiter_ok
    by (simp_all add: all_sources.within_def one_source.within_def global_view_def source_view_def
        new_limiter_def zero_time_def)
  note bound = all_sources.burst_bound [OF this(1) assms, of t]
    one_source.burst_bound [OF this(2) assms, of t]
  from bound(1) show "length (filter (\<lambda>x. t \<le> fst x \<and> fst x < t + minute)
      (allowed_attempts xs new_limiter)) \<le> 2 * nat maxGlobalPairAttempts"
    by (simp add: minute allowed_attempts_def maxGlobalPairAttempts_def)
  from bound(2) show "length (filter (\<lambda>x. t \<le> fst x \<and> fst x < t + minute \<and> source_of (snd x) = k)
      (allowed_attempts xs new_limiter)) \<le> 2 * nat maxPairAttemptsPerMinute"
    by (simp add: minute allowed_attempts_def maxPairAttemptsPerMinute_def let_through_filter conj_ac)
qed

theorem pair_attempts_are_bounded_witness:
  "length (filter (\<lambda>x. 1 \<le> fst x \<and> fst x < 1 + minute)
     (allowed_attempts [(1, ''h:1''), (2, ''h:2'')] new_limiter)) \<le> 128"
  using pair_attempts_are_bounded [of "[(1, ''h:1''), (2, ''h:2'')]" 1]
  by (simp add: maxGlobalPairAttempts_def)

text \<open>
  The limiter refuses for its two documented reasons only, and its table of sources stays
  small: after any history the table holds at most 128 sources, so the refusal of a full table
  (256 entries) never happens, and an attempt is let through exactly when its source has used
  fewer than 10 attempts of its live window and fewer than 64 of the global window are used.
\<close>

theorem limiter_refuses_only_at_a_limit:
  assumes "sorted (map fst (xs @ [(now, addr)]))" "\<forall>x \<in> set (xs @ [(now, addr)]). 0 < fst x"
  shows "length (pairRates (fold attempt_step xs new_limiter)) \<le> 128
    \<and> (fst (allowPairAttempt now addr (fold attempt_step xs new_limiter)) \<longleftrightarrow>
        pr_count (rate_at now (source_of addr) (fold attempt_step xs new_limiter)) < 10
        \<and> pr_count (current_global now (fold attempt_step xs new_limiter)) < 64)"
proof -
  let ?l = "fold attempt_step xs new_limiter"
  have "pr_window (pairGlobal new_limiter) = 0" by (simp add: new_limiter_def zero_time_def)
  then have "table_ok ?l"
    using assms by (intro table_ok_run [OF new_limiter_table_ok]) (auto simp: sorted_append)
  then have small: "length (pairRates ?l) \<le> 128" and ok: "rates_ok ?l"
    by (simp_all add: table_small table_ok_def)
  then have "length (live_rates now ?l) \<le> 128"
    unfolding live_rates_def by (metis length_filter_le order_trans)
  with small ok assms(2) show ?thesis
    by (auto simp: allowPairAttempt_eq allow_key_eq Let_def)
qed

theorem limiter_refuses_only_at_a_limit_witness:
  "length (pairRates (fold attempt_step [(1, ''h:1''), (2, ''h:2'')] new_limiter)) \<le> 128"
  using limiter_refuses_only_at_a_limit [of "[(1, ''h:1''), (2, ''h:2'')]" 3 "''h:3''"] by simp

text \<open>
  Rotating interface addresses does not help: two hosts whose addresses are IPv6 addresses
  of the same /64 network count as one source.
\<close>

theorem ipv6_hosts_of_a_network_are_one_source:
  assumes "ParseIP (trim_space h) = Some ip" "To4 ip = None"
    "ParseIP (trim_space h') = Some ip'" "To4 ip' = None"
    "take 8 ip = take 8 ip'" "length ip = 16" "length ip' = 16"
  shows "pairRateKey h = pairRateKey h'"
proof -
  have ones: "(0xff :: 8 word) = - 1" by simp
  have mask: "mask_bytes a mask64 = take 8 a @ replicate 8 0" if "length a = 16" for a
    by (rule nth_equalityI)
      (auto simp: that mask_bytes_def mask64_def ones nth_append)
  with assms show ?thesis by (simp add: pairRateKey_def)
qed

theorem ipv6_hosts_of_a_network_are_one_source_witness:
  "pairRateKey ''1::1'' = pairRateKey ''1::2''"
proof (rule ipv6_hosts_of_a_network_are_one_source)
  have chars: "from_runes [49, 58, 58, 49] = ''1::1''" "from_runes [49, 58, 58, 50] = ''1::2''"
    by code_simp+
  have "trim_space (from_runes [49, 58, 58, 49]) = from_runes [49, 58, 58, 49]"
      "trim_space (from_runes [49, 58, 58, 50]) = from_runes [49, 58, 58, 50]"
    by (simp_all add: trim_space_from_runes scalar_def trim_by_def is_space_def del: from_runes_simps)
  moreover have "ParseIP ''1::1'' = Some [0, 1, 0, 0, 0, 0, 0, 0, 0, 0, 0, 0, 0, 0, 0, 1]"
      "ParseIP ''1::2'' = Some [0, 1, 0, 0, 0, 0, 0, 0, 0, 0, 0, 0, 0, 0, 0, 2]"
    by code_simp+
  ultimately show "ParseIP (trim_space ''1::1'') = Some [0, 1, 0, 0, 0, 0, 0, 0, 0, 0, 0, 0, 0, 0, 0, 1]"
      "ParseIP (trim_space ''1::2'') = Some [0, 1, 0, 0, 0, 0, 0, 0, 0, 0, 0, 0, 0, 0, 0, 2]"
    unfolding chars by simp_all
qed (simp_all add: To4_def v4_prefix_def)

end
