(* ===== verification/Identity.thy ===== *)
theory Identity
  imports Digest
begin

text \<open>
  \<open>internal/identity/identity.go\<close>: device identifiers, fingerprints and the identity file.

  A certificate is the record of the fields the program reads of \<open>x509.Certificate\<close>;
  \<open>cert_sig_ok\<close> is the outcome of \<open>CheckSignature\<close> with the certificate's own key. PEM and
  PKCS#8/X.509 parsing are arguments of \<open>identity_parse\<close>. The random bytes of \<open>UUID\<close> are its
  argument, \<open>None\<close> standing for a failed read of the random source.
\<close>

section \<open>Certificates and identities\<close>

datatype public_key = Ed25519_Public string | Other_Public
datatype private_key = Ed25519_Private (priv_seed: string) (priv_public: string) | Other_Private

record certificate =
  cert_raw :: string
  cert_cn :: string
  cert_key :: public_key
  cert_not_before :: time
  cert_not_after :: time
  cert_sig_ok :: bool

record identity =
  id_ID :: string
  id_Certificate :: string
  id_PrivateKey :: private_key
  id_TLSCert :: string

section \<open>Fingerprints and identifiers\<close>

definition cert_fingerprint :: "string \<Rightarrow> string" where
  "cert_fingerprint der = hex_encode (sha256 der)"

definition identity_fingerprint :: "identity \<Rightarrow> string" where
  "identity_fingerprint i = cert_fingerprint (id_Certificate i)"

definition identity_short_fingerprint :: "identity \<Rightarrow> string" where
  "identity_short_fingerprint i = take 16 (identity_fingerprint i)"

definition ValidUUID :: "string \<Rightarrow> bool" where
  "ValidUUID s \<longleftrightarrow>
     \<not> (length s \<noteq> 36 \<or> s ! 8 \<noteq> CHR ''-'' \<or> s ! 13 \<noteq> CHR ''-'' \<or> s ! 18 \<noteq> CHR ''-''
         \<or> s ! 23 \<noteq> CHR ''-'' \<or> s ! 14 \<noteq> CHR ''4'' \<or> s ! 19 \<notin> set ''89ab'')
     \<and> hex_decodable (filter (\<lambda>c. c \<noteq> CHR ''-'') s)"

definition ValidFingerprint :: "string \<Rightarrow> nat \<Rightarrow> bool" where
  "ValidFingerprint s n \<longleftrightarrow> length s = n * 2 \<and> hex_decodable s"

definition uuid_version_byte :: "char \<Rightarrow> char" where
  "uuid_version_byte c = char_of (unat (((of_char c :: 8 word) AND 0x0f) OR 0x40))"

definition uuid_variant_byte :: "char \<Rightarrow> char" where
  "uuid_variant_byte c = char_of (unat (((of_char c :: 8 word) AND 0x3f) OR 0x80))"

definition slice :: "nat \<Rightarrow> nat \<Rightarrow> 'a list \<Rightarrow> 'a list" where
  "slice i j xs = drop i (take j xs)"

definition UUID :: "string option \<Rightarrow> string option" where
  "UUID rnd = (case rnd of None \<Rightarrow> None
     | Some b \<Rightarrow>
         let b = b[6 := uuid_version_byte (b ! 6)];
             b = b[8 := uuid_variant_byte (b ! 8)]
         in Some (hex_encode (slice 0 4 b) @ ''-'' @ hex_encode (slice 4 6 b) @ ''-''
              @ hex_encode (slice 6 8 b) @ ''-'' @ hex_encode (slice 8 10 b) @ ''-''
              @ hex_encode (slice 10 16 b)))"

section \<open>Reading the identity file\<close>

datatype identity_error =
    NoCertificate | NoPrivateKey | CertParseError | KeyParseError | KeyNotEd25519
  | InvalidIdentityName | IdentityNotUUID | CertKeyNotEd25519 | KeyMismatch
  | BadIdentitySignature | OutsideValidity

definition lanclip_cn :: string where
  "lanclip_cn = ''lanclip:''"

definition trim_prefix :: "string \<Rightarrow> string \<Rightarrow> string" where
  "trim_prefix s p = (if has_prefix s p then drop (length p) s else s)"

text \<open>
  \<open>pem\<close> is \<open>pem.Decode\<close> (a block of type and bytes, if there is one, and the rest), \<open>x509\<close> is
  \<open>x509.ParseCertificate\<close>, \<open>pkcs8\<close> is \<open>x509.ParsePKCS8PrivateKey\<close>.
\<close>

definition identity_parse ::
  "(string \<Rightarrow> (string \<times> string) option \<times> string) \<Rightarrow> (string \<Rightarrow> certificate option)
     \<Rightarrow> (string \<Rightarrow> private_key option) \<Rightarrow> time \<Rightarrow> string \<Rightarrow> identity_error + identity" where
  "identity_parse pem x509 pkcs8 now b =
     (case pem b of
        (None, _) \<Rightarrow> Inl NoCertificate
      | (Some (typ, der), rest) \<Rightarrow>
          if typ \<noteq> ''CERTIFICATE'' then Inl NoCertificate
          else (case pem rest of
            (None, _) \<Rightarrow> Inl NoPrivateKey
          | (Some (_, keyBytes), _) \<Rightarrow>
              (case x509 der of
                 None \<Rightarrow> Inl CertParseError
               | Some cert \<Rightarrow>
                   (case pkcs8 keyBytes of
                      None \<Rightarrow> Inl KeyParseError
                    | Some Other_Private \<Rightarrow> Inl KeyNotEd25519
                    | Some (Ed25519_Private seed pub) \<Rightarrow>
                        let id = trim_prefix (cert_cn cert) lanclip_cn in
                        if id = cert_cn cert \<or> id = [] then Inl InvalidIdentityName
                        else if \<not> ValidUUID id then Inl IdentityNotUUID
                        else (case cert_key cert of
                            Other_Public \<Rightarrow> Inl CertKeyNotEd25519
                          | Ed25519_Public certPub \<Rightarrow>
                              if certPub \<noteq> pub then Inl KeyMismatch
                              else if \<not> cert_sig_ok cert then Inl BadIdentitySignature
                              else if time_before now (cert_not_before cert)
                                      \<or> time_after now (cert_not_after cert)
                              then Inl OutsideValidity
                              else Inr \<lparr>id_ID = id, id_Certificate = der,
                                        id_PrivateKey = Ed25519_Private seed pub,
                                        id_TLSCert = b\<rparr>)))))"

section \<open>Lemmas\<close>

lemma length_fingerprint [simp]: "length (cert_fingerprint der) = 64"
  by (simp add: cert_fingerprint_def)

lemma hex_decodable_take:
  "hex_decodable s \<Longrightarrow> even n \<Longrightarrow> n \<le> length s \<Longrightarrow> hex_decodable (take n s)"
  by (auto simp: hex_decodable_def list_all_iff dest: in_set_takeD)

lemma hd_hex_byte_word:
  "hd (hex_byte (char_of (unat w))) = hex_digits ! unat (drop_bit 4 (w :: 8 word))"
proof -
  have "unat w < 256" using unsigned_less [of w, where ?'a = nat] by simp
  then show ?thesis by (simp add: hex_byte_def unat_drop_bit_eq drop_bit_eq_div [of 4 "unat w"])
qed

lemma uuid_version_hex: "hd (hex_byte (uuid_version_byte c)) = CHR ''4''"
  by (simp add: uuid_version_byte_def hd_hex_byte_word drop_bit_and drop_bit_or hex_digits_def)

lemma and_3_cases: "y AND 3 \<in> {0, 1, 2, 3 :: 8 word}"
proof -
  have "y AND 3 = take_bit 2 y" by (simp add: take_bit_eq_mask mask_eq_exp_minus_1)
  then have "unat (y AND 3) < 4" using take_bit_nat_less_exp [of 2 "unat y"]
    by (simp add: unsigned_take_bit_eq)
  then have "unat (y AND 3) \<in> {0, 1, 2, 3}" by auto
  then show ?thesis by (auto simp: word_unat_eq_iff)
qed

lemma uuid_variant_hex: "hd (hex_byte (uuid_variant_byte c)) \<in> set ''89ab''"
proof -
  have "drop_bit 4 (((of_char c :: 8 word) AND 0x3f) OR 0x80) = (drop_bit 4 (of_char c) AND 3) OR 8"
    by (simp add: drop_bit_and drop_bit_or)
  with and_3_cases [of "drop_bit 4 (of_char c)"] show ?thesis
    by (auto simp: uuid_variant_byte_def hd_hex_byte_word hex_digits_def)
qed

lemma length16E:
  assumes "length b = 16"
  obtains b0 b1 b2 b3 b4 b5 b6 b7 b8 b9 ba bb bc bd be bf where
    "b = [b0, b1, b2, b3, b4, b5, b6, b7, b8, b9, ba, bb, bc, bd, be, bf]"
  using assms by (auto simp: numeral_eq_Suc length_Suc_conv)

lemma hex_dash: "c \<in> set (hex_encode bs) \<Longrightarrow> c \<noteq> CHR ''-''"
  using set_hex_encode [of bs] by (auto simp: hex_digits_def)

lemma filter_hex_encode: "filter (\<lambda>c. c \<noteq> CHR ''-'') (hex_encode bs) = hex_encode bs"
  by (rule filter_True) (auto dest: hex_dash)

lemma hex_encode_append: "hex_encode (a @ b) = hex_encode a @ hex_encode b"
  by (simp add: hex_encode_def)

section \<open>Properties\<close>

text \<open>
  Whatever 16 bytes the random source returns, \<open>UUID\<close> produces a string that \<open>ValidUUID\<close>
  accepts: the version and variant bits are forced, the dashes are where they are looked for
  and the rest is hexadecimal.
\<close>

theorem generated_uuid_is_valid:
  assumes "length b = 16"
  shows "\<exists>u. UUID (Some b) = Some u \<and> ValidUUID u"
proof -
  obtain b0 b1 b2 b3 b4 b5 b6 b7 b8 b9 ba bb bc bd be bf where b:
    "b = [b0, b1, b2, b3, b4, b5, b6, b7, b8, b9, ba, bb, bc, bd, be, bf]"
    using assms by (rule length16E)
  let ?v = "uuid_version_byte b6" and ?w = "uuid_variant_byte b8"
  let ?u = "hex_encode [b0, b1, b2, b3] @ ''-'' @ hex_encode [b4, b5] @ ''-''
      @ hex_encode [?v, b7] @ ''-'' @ hex_encode [?w, b9] @ ''-''
      @ hex_encode [ba, bb, bc, bd, be, bf]"
  have u: "UUID (Some b) = Some ?u" by (simp add: UUID_def b slice_def Let_def)
  have v: "hex_byte ?v ! 0 = CHR ''4''"
    using uuid_version_hex [of b6] by (simp add: hex_byte_def)
  have w: "hex_byte ?w ! 0 \<in> set ''89ab''"
    using uuid_variant_hex [of b8] by (simp add: hex_byte_def)
  have "filter (\<lambda>c. c \<noteq> CHR ''-'') ?u
      = hex_encode [b0, b1, b2, b3, b4, b5, ?v, b7, ?w, b9, ba, bb, bc, bd, be, bf]"
    by (simp add: filter_hex_encode) (simp add: hex_encode_def)
  then have "hex_decodable (filter (\<lambda>c. c \<noteq> CHR ''-'') ?u)"
    using hex_decodable_encode by metis
  with v w have "ValidUUID ?u"
    by (simp add: ValidUUID_def) (simp add: hex_encode_def hex_byte_def)
  with u show ?thesis by blast
qed

theorem generated_uuid_is_valid_witness:
  "\<exists>u. UUID (Some (replicate 16 (CHR 0xFF))) = Some u \<and> ValidUUID u"
  by (rule generated_uuid_is_valid) simp

text \<open>
  An identity file is accepted only when it is internally consistent: the certificate's
  common name is \<open>lanclip:\<close> followed by a valid UUID, which becomes the device ID, its key is
  the public half of the stored private key, its signature verifies and the clock is inside
  its validity period.
\<close>

theorem parsed_identity_is_consistent:
  assumes "identity_parse pem x509 pkcs8 now b = Inr i"
  shows "\<exists>cert seed pub. x509 (id_Certificate i) = Some cert \<and> cert_cn cert = ''lanclip:'' @ id_ID i
     \<and> ValidUUID (id_ID i) \<and> id_PrivateKey i = Ed25519_Private seed pub
     \<and> cert_key cert = Ed25519_Public pub \<and> cert_sig_ok cert
     \<and> cert_not_before cert \<le> now \<and> now \<le> cert_not_after cert \<and> id_TLSCert i = b"
proof -
  have prefix: "cn = lanclip_cn @ trim_prefix cn lanclip_cn"
    if "trim_prefix cn lanclip_cn \<noteq> cn" for cn
    using that by (auto simp: trim_prefix_def has_prefix_iff split: if_splits)
  show ?thesis
    using assms prefix unfolding identity_parse_def
    by (auto simp: Let_def time_simps lanclip_cn_def
        split: prod.splits option.splits if_splits private_key.splits public_key.splits)
qed

definition sample_cert :: certificate where
  "sample_cert = \<lparr>cert_raw = ''der'', cert_cn = ''lanclip:00000000-0000-4000-8000-000000000000'',
     cert_key = Ed25519_Public ''pub'', cert_not_before = 0, cert_not_after = 10,
     cert_sig_ok = True\<rparr>"

theorem parsed_identity_is_consistent_witness:
  "\<exists>cert seed pub. (\<lambda>_. Some sample_cert) ''der'' = Some cert
     \<and> cert_cn cert = ''lanclip:'' @ ''00000000-0000-4000-8000-000000000000''
     \<and> ValidUUID ''00000000-0000-4000-8000-000000000000''
     \<and> Ed25519_Private ''seed'' ''pub'' = Ed25519_Private seed pub
     \<and> cert_key cert = Ed25519_Public pub \<and> cert_sig_ok cert
     \<and> cert_not_before cert \<le> 5 \<and> 5 \<le> cert_not_after cert \<and> ''file'' = ''file''"
proof -
  have uuid: "ValidUUID ''00000000-0000-4000-8000-000000000000''" by code_simp
  have "identity_parse (\<lambda>_. (Some (''CERTIFICATE'', ''der''), ''rest'')) (\<lambda>_. Some sample_cert)
      (\<lambda>_. Some (Ed25519_Private ''seed'' ''pub'')) 5 ''file''
    = Inr \<lparr>id_ID = ''00000000-0000-4000-8000-000000000000'', id_Certificate = ''der'',
           id_PrivateKey = Ed25519_Private ''seed'' ''pub'', id_TLSCert = ''file''\<rparr>"
    using uuid by (simp add: identity_parse_def sample_cert_def trim_prefix_def lanclip_cn_def
        has_prefix_def time_simps)
  from parsed_identity_is_consistent [OF this] show ?thesis by simp
qed

text \<open>
  The fingerprint a device advertises (16 hexadecimal digits) passes the check the
  discovery browser applies to advertised keys and is a prefix of the full fingerprint the
  transport compares it with.
\<close>

theorem short_fingerprint_is_advertisable:
  "ValidFingerprint (identity_short_fingerprint i) 8
   \<and> has_prefix (identity_fingerprint i) (identity_short_fingerprint i)
   \<and> 12 \<le> length (identity_short_fingerprint i)"
proof -
  have "hex_decodable (identity_short_fingerprint i)"
    unfolding identity_short_fingerprint_def identity_fingerprint_def cert_fingerprint_def
    by (rule hex_decodable_take) (simp_all add: hex_decodable_encode)
  then show ?thesis
    by (simp add: ValidFingerprint_def identity_short_fingerprint_def identity_fingerprint_def
        has_prefix_def)
qed

end
