(* ===== verification/Discovery.thy ===== *)
theory Discovery
  imports Net_IP Identity Runes
begin

text \<open>
  \<open>internal/discovery/discovery.go\<close>: which interfaces and addresses count as the local link, the
  table of announced peers (bounded, expiring, fed from the network), the look-ups over it, and
  the life cycle of the advertisement.

  The browser and the responder are the third-party \<open>zeroconf\<close> package: an announcement is a
  record of the fields read of \<open>zeroconf.ServiceEntry\<close>, a registration returns a handle (a
  number), and the handles that \<open>Shutdown\<close> was called on are logged in the state. What the
  operating system reports (\<open>net.Interfaces\<close>, interface addresses) and the clock are arguments;
  \<open>tab\<close> is the lower-case table of \<open>strings.ToLower\<close>. Operations are atomic under the service's
  mutex; \<open>Run\<close> is the sequence of steps it takes in each of its cycles.
\<close>

section \<open>Interfaces and addresses\<close>

datatype net_addr = IPNetAddr ipnet | OtherAddr

record net_interface =
  if_name :: string
  if_flags :: "64 word"
  if_addrs :: "net_addr list option"

definition FlagUp :: "64 word" where "FlagUp = 1"
definition FlagLoopback :: "64 word" where "FlagLoopback = 4"
definition FlagPointToPoint :: "64 word" where "FlagPointToPoint = 8"
definition FlagMulticast :: "64 word" where "FlagMulticast = 16"

definition virtual_prefixes :: "string list" where
  "virtual_prefixes = [''docker'', ''br-'', ''bridge'', ''veth'', ''virbr'', ''vmnet'', ''vbox'',
     ''podman'', ''cni'', ''lxc'', ''incus'', ''tailscale'', ''tun'', ''utun'', ''tap'', ''wg'',
     ''zt'', ''nebula'', ''awdl'', ''llw'']"

definition eligibleInterface :: "(rune \<Rightarrow> rune) \<Rightarrow> net_interface \<Rightarrow> bool" where
  "eligibleInterface tab iface =
     (if if_flags iface AND FlagUp = 0 \<or> if_flags iface AND FlagMulticast = 0
         \<or> if_flags iface AND (FlagLoopback OR FlagPointToPoint) \<noteq> 0
      then False
      else let n = to_lower tab (if_name iface)
           in \<not> list_ex (\<lambda>prefix. has_prefix n prefix) virtual_prefixes)"

definition activeLANInterfaces ::
  "(rune \<Rightarrow> rune) \<Rightarrow> (string + net_interface list) \<Rightarrow> string + net_interface list" where
  "activeLANInterfaces tab ifaces =
     (case ifaces of
        Inl e \<Rightarrow> Inl e
      | Inr all \<Rightarrow>
          let out = filter (eligibleInterface tab) all
          in if length out = 0 then Inl ''no active multicast LAN interface'' else Inr out)"

definition activeLANNetworks ::
  "(rune \<Rightarrow> rune) \<Rightarrow> (string + net_interface list) \<Rightarrow> ipnet list" where
  "activeLANNetworks tab ifaces =
     (case ifaces of
        Inl _ \<Rightarrow> []
      | Inr all \<Rightarrow>
          concat (map (\<lambda>iface. if \<not> eligibleInterface tab iface then []
             else (case if_addrs iface of
                 None \<Rightarrow> []
               | Some addrs \<Rightarrow> concat (map (\<lambda>a. case a of IPNetAddr n \<Rightarrow> [n] | OtherAddr \<Rightarrow> []) addrs)))
            all))"

definition ipInNetworks :: "ip \<Rightarrow> ipnet list \<Rightarrow> bool" where
  "ipInNetworks ip networks = list_ex (\<lambda>network. net_contains network ip) networks"

definition isDirectIP :: "ip option \<Rightarrow> ipnet list \<Rightarrow> bool" where
  "isDirectIP ip networks =
     (case ip of
        None \<Rightarrow> False
      | Some a \<Rightarrow> if IsLoopback a \<or> IsUnspecified a \<or> IsMulticast a then False
                 else ipInNetworks a networks)"

definition IsDirectLANIP ::
  "(rune \<Rightarrow> rune) \<Rightarrow> (string + net_interface list) \<Rightarrow> ip option \<Rightarrow> bool" where
  "IsDirectLANIP tab ifaces ip = isDirectIP ip (activeLANNetworks tab ifaces)"

fun directEndpoint :: "string list \<Rightarrow> ipnet list \<Rightarrow> string option" where
  "directEndpoint [] networks = None"
| "directEndpoint (endpoint # addresses) networks =
     (case SplitHostPort endpoint of
        None \<Rightarrow> directEndpoint addresses networks
      | Some (host, _) \<Rightarrow>
          (case ParseIP host of
             None \<Rightarrow> directEndpoint addresses networks
           | Some ip \<Rightarrow> if isDirectIP (Some ip) networks then Some endpoint
                        else directEndpoint addresses networks))"

section \<open>The peer table\<close>

record disc_peer =
  dp_ID :: string
  dp_Name :: string
  dp_Fingerprint :: string
  dp_OS :: string
  dp_Port :: int
  dp_Addresses :: "string list"
  dp_LastSeen :: time

record disc_service =
  ds_selfID :: string
  ds_name :: string
  ds_fingerprint :: string
  ds_osName :: string
  ds_service :: string
  ds_port :: int
  ds_server :: "nat option"
  ds_peers :: "(string, disc_peer) gomap"
  ds_lastBrowse :: time
  ds_lastError :: string
  ds_closed :: bool
  ds_shutdown :: "nat list"

record service_entry =
  se_Instance :: string
  se_Text :: "string list"
  se_AddrIPv4 :: "ip list"
  se_AddrIPv6 :: "ip list"
  se_Port :: int

definition peerTTL :: duration where
  "peerTTL = 45 * second"

definition maxPeers :: nat where
  "maxPeers = 256"

definition Itoa :: "int \<Rightarrow> string" where
  "Itoa n = (if n < 0 then CHR ''-'' # decimal (nat (- n)) else decimal (nat n))"

text \<open>\<open>strings.SplitN(v, "=", 2)\<close> when it has two parts.\<close>

definition split_eq :: "string \<Rightarrow> (string \<times> string) option" where
  "split_eq v = (if CHR ''='' \<in> set v
     then Some (takeWhile (\<lambda>c. c \<noteq> CHR ''='') v, tl (dropWhile (\<lambda>c. c \<noteq> CHR ''='') v)) else None)"

definition txt_fields :: "string list \<Rightarrow> (string, string) gomap" where
  "txt_fields vs = foldl (\<lambda>m v. case split_eq v of Some (k, x) \<Rightarrow> mput k x m | None \<Rightarrow> m) [] vs"

definition field :: "(string, string) gomap \<Rightarrow> string \<Rightarrow> string" where
  "field m k = (case mget m k of Some x \<Rightarrow> x | None \<Rightarrow> [])"

definition prune_peers :: "time \<Rightarrow> disc_service \<Rightarrow> disc_service" where
  "prune_peers now s =
     (let cutoff = time_add now (- peerTTL)
      in s\<lparr>ds_peers := filter (\<lambda>(pid, p). \<not> \<not> time_after (dp_LastSeen p) cutoff) (ds_peers s)\<rparr>)"

definition oldest_peer :: "(string, disc_peer) gomap \<Rightarrow> string" where
  "oldest_peer m = fst (foldl (\<lambda>(oldestID, oldest) (peerID, existing).
       if oldestID = [] \<or> time_before (dp_LastSeen existing) oldest
       then (peerID, dp_LastSeen existing) else (oldestID, oldest)) ([], zero_time) m)"

definition putPeer :: "disc_peer \<Rightarrow> disc_service \<Rightarrow> disc_service" where
  "putPeer peer s =
     (let s = prune_peers (dp_LastSeen peer) s;
          s = (if mget (ds_peers s) (dp_ID peer) = None \<and> length (ds_peers s) \<ge> maxPeers
               then s\<lparr>ds_peers := mdel (oldest_peer (ds_peers s)) (ds_peers s)\<rparr> else s)
      in s\<lparr>ds_peers := mput (dp_ID peer) peer (ds_peers s)\<rparr>)"

definition observe :: "time \<Rightarrow> service_entry \<Rightarrow> disc_service \<Rightarrow> disc_service" where
  "observe now e s =
     (let fields = txt_fields (se_Text e);
          pid = field fields ''id'';
          name = NormalizeDeviceName (se_Instance e)
      in if \<not> ValidUUID pid \<or> pid = ds_selfID s \<or> field fields ''v'' \<noteq> ''1''
            \<or> \<not> ValidFingerprint (field fields ''pk'') 8 \<or> name = []
         then s
         else
           let addrs = map (\<lambda>ip. JoinHostPort (ip_string ip) (Itoa (se_Port e))) (se_AddrIPv4 e)
                       @ map (\<lambda>ip. JoinHostPort (ip_string ip) (Itoa (se_Port e))) (se_AddrIPv6 e)
           in putPeer \<lparr>dp_ID = pid, dp_Name = name, dp_Fingerprint = field fields ''pk'',
                       dp_OS = field fields ''os'', dp_Port = se_Port e,
                       dp_Addresses = sort addrs, dp_LastSeen = now\<rparr> s)"

definition Peers :: "time \<Rightarrow> disc_service \<Rightarrow> disc_peer list \<times> disc_service" where
  "Peers now s0 =
     (let s = prune_peers now s0 in (sort_key dp_Name (map snd (ds_peers s)), s))"

definition Find :: "(rune \<Rightarrow> rune) \<Rightarrow> time \<Rightarrow> string \<Rightarrow> disc_service \<Rightarrow> disc_peer option \<times> disc_service" where
  "Find tab now query s0 =
     (let s = prune_peers now s0;
          q = to_lower tab query
      in (map_option snd (find (\<lambda>(_, p). dp_ID p = query \<or> to_lower tab (dp_Name p) = q
             \<or> has_prefix (dp_ID p) query) (ds_peers s)), s))"

datatype endpoint_error = NoResolvedAddress string | NotDirect string

definition Endpoint ::
  "(rune \<Rightarrow> rune) \<Rightarrow> (string + net_interface list) \<Rightarrow> disc_peer \<Rightarrow> endpoint_error + string" where
  "Endpoint tab ifaces p =
     (if length (dp_Addresses p) = 0 then Inl (NoResolvedAddress (dp_Name p))
      else (case directEndpoint (dp_Addresses p) (activeLANNetworks tab ifaces) of
          Some endpoint \<Rightarrow> Inr endpoint
        | None \<Rightarrow> Inl (NotDirect (dp_Name p))))"

section \<open>The advertisement and the run loop\<close>

definition setError :: "string option \<Rightarrow> disc_service \<Rightarrow> disc_service" where
  "setError err s = s\<lparr>ds_lastError := (case err of None \<Rightarrow> [] | Some e \<Rightarrow> e)\<rparr>"

definition Health :: "disc_service \<Rightarrow> time \<times> string" where
  "Health s = (ds_lastBrowse s, ds_lastError s)"

text \<open>
  \<open>New\<close> and \<open>refreshRegistration\<close> take \<open>zeroconf.Register\<close> as a function of the TXT records: an
  error or the handle of a running responder.
\<close>

definition service_txt :: "string \<Rightarrow> string \<Rightarrow> string \<Rightarrow> string list" where
  "service_txt selfID fingerprint osName =
     [''v=1'', ''id='' @ selfID, ''pk='' @ fingerprint, ''os='' @ osName]"

definition NewService ::
  "string \<Rightarrow> string \<Rightarrow> string \<Rightarrow> string \<Rightarrow> string \<Rightarrow> int \<Rightarrow> (rune \<Rightarrow> rune)
     \<Rightarrow> (string + net_interface list) \<Rightarrow> (string list \<Rightarrow> string + nat) \<Rightarrow> string + disc_service" where
  "NewService selfID name fingerprint osName service port tab ifaces reg =
     (case activeLANInterfaces tab ifaces of
        Inl e \<Rightarrow> Inl e
      | Inr _ \<Rightarrow>
          (case reg (service_txt selfID fingerprint osName) of
             Inl e \<Rightarrow> Inl e
           | Inr srv \<Rightarrow> Inr \<lparr>ds_selfID = selfID, ds_name = name, ds_fingerprint = fingerprint,
               ds_osName = osName, ds_service = service, ds_port = port, ds_server = Some srv, ds_peers = [],
               ds_lastBrowse = zero_time, ds_lastError = [], ds_closed = False, ds_shutdown = []\<rparr>))"

definition shut :: "nat option \<Rightarrow> disc_service \<Rightarrow> disc_service" where
  "shut srv s = (case srv of Some h \<Rightarrow> s\<lparr>ds_shutdown := ds_shutdown s @ [h]\<rparr> | None \<Rightarrow> s)"

definition CloseService :: "disc_service \<Rightarrow> disc_service" where
  "CloseService s =
     (let s = s\<lparr>ds_closed := True\<rparr>
      in if ds_server s \<noteq> None then (shut (ds_server s) s)\<lparr>ds_server := None\<rparr> else s)"

definition refreshRegistration ::
  "(rune \<Rightarrow> rune) \<Rightarrow> (string + net_interface list) \<Rightarrow> (string list \<Rightarrow> string + nat)
     \<Rightarrow> disc_service \<Rightarrow> disc_service" where
  "refreshRegistration tab ifaces reg s =
     (case activeLANInterfaces tab ifaces of
        Inl e \<Rightarrow> setError (Some e) s
      | Inr _ \<Rightarrow>
          (case reg (service_txt (ds_selfID s) (ds_fingerprint s) (ds_osName s)) of
             Inl e \<Rightarrow> setError (Some e) s
           | Inr next_srv \<Rightarrow>
               if ds_closed s then shut (Some next_srv) s
               else let old = ds_server s; s = s\<lparr>ds_server := Some next_srv\<rparr> in shut old s))"

text \<open>
  How a browse cycle ended: without error, by its own deadline, with another error; and
  whether the service's context is done by then.
\<close>

datatype browse_end = BrowseOK | BrowseDeadline | BrowseFailed string

definition finish_browse :: "browse_end \<Rightarrow> bool \<Rightarrow> disc_service \<Rightarrow> disc_service" where
  "finish_browse b ctx_done s =
     (case b of
        BrowseFailed e \<Rightarrow> if \<not> ctx_done then setError (Some e) s else setError None s
      | _ \<Rightarrow> setError None s)"

text \<open>
  The atomic steps of the service and, as the events it issues, one iteration of \<open>Run\<close>: the
  interface check, the browse with the announcements it delivers, its end, the re-registration.
\<close>

datatype disc_event =
    DSetError "string option"
  | DBrowse time
  | DObserve time service_entry
  | DFinish browse_end bool
  | DRefresh "rune \<Rightarrow> rune" "string + net_interface list" "string list \<Rightarrow> string + nat"
  | DPeers time
  | DFind "rune \<Rightarrow> rune" time string
  | DClose

fun disc_apply :: "disc_event \<Rightarrow> disc_service \<Rightarrow> disc_service" where
  "disc_apply (DSetError e) s = setError e s"
| "disc_apply (DBrowse now) s = s\<lparr>ds_lastBrowse := now\<rparr>"
| "disc_apply (DObserve now e) s = observe now e s"
| "disc_apply (DFinish b ctx_done) s = finish_browse b ctx_done s"
| "disc_apply (DRefresh tab ifaces reg) s = refreshRegistration tab ifaces reg s"
| "disc_apply (DPeers now) s = snd (Peers now s)"
| "disc_apply (DFind tab now query) s = snd (Find tab now query s)"
| "disc_apply DClose s = CloseService s"

definition cycle_events ::
  "(rune \<Rightarrow> rune) \<Rightarrow> (string + net_interface list) \<Rightarrow> time \<Rightarrow> (time \<times> service_entry) list \<Rightarrow> browse_end
     \<Rightarrow> bool \<Rightarrow> (string + net_interface list) \<Rightarrow> (string list \<Rightarrow> string + nat) \<Rightarrow> disc_event list" where
  "cycle_events tab ifaces now entries b ctx_done ifaces' reg =
     (case activeLANInterfaces tab ifaces of
        Inl e \<Rightarrow> [DSetError (Some e)]
      | Inr _ \<Rightarrow> DBrowse now # map (\<lambda>(t, e). DObserve t e) entries @ [DFinish b ctx_done]
                 @ (if \<not> ctx_done then [DRefresh tab ifaces' reg] else []))"

end
