(* ===== verification/Discovery_Props.thy ===== *)
theory Discovery_Props
  imports Discovery
begin

text \<open>
  What discovery guarantees whatever the network announces: a bounded table of well-formed
  entries other than the device itself, eviction of a longest-unseen entry, look-ups that answer
  from entries seen in the last 45 seconds, endpoints on the local link only, and an
  advertisement that is always withdrawn.
\<close>

section \<open>The table\<close>

definition peer_live :: "disc_service \<Rightarrow> time \<Rightarrow> string \<times> disc_peer \<Rightarrow> bool" where
  "peer_live s now = (\<lambda>(pid, p). now - 45000000000 < dp_LastSeen p)"

lemma prune_peers_eq: "prune_peers now s = s\<lparr>ds_peers := filter (peer_live s now) (ds_peers s)\<rparr>"
  by (simp add: prune_peers_def peer_live_def peerTTL_def time_simps)

lemma prune_peers_fields [simp]:
  "ds_selfID (prune_peers now s) = ds_selfID s" "ds_server (prune_peers now s) = ds_server s"
  "ds_closed (prune_peers now s) = ds_closed s" "ds_shutdown (prune_peers now s) = ds_shutdown s"
  "ds_fingerprint (prune_peers now s) = ds_fingerprint s" "ds_osName (prune_peers now s) = ds_osName s"
  by (simp_all add: prune_peers_eq)

lemma putPeer_fields [simp]:
  "ds_selfID (putPeer p s) = ds_selfID s" "ds_server (putPeer p s) = ds_server s"
  "ds_closed (putPeer p s) = ds_closed s" "ds_shutdown (putPeer p s) = ds_shutdown s"
  by (simp_all add: putPeer_def Let_def)

lemma observe_cases:
  obtains (ignored) "observe now e s = s"
  | (stored) p where "observe now e s = putPeer p s" "ValidUUID (dp_ID p)" "dp_ID p \<noteq> ds_selfID s"
      "ValidFingerprint (dp_Fingerprint p) 8" "dp_Name p \<noteq> []"
      "dp_Name p = NormalizeDeviceName (se_Instance e)" "dp_LastSeen p = now"
proof (cases "observe now e s = s")
  case True
  then show thesis by (rule ignored)
next
  case False
  then show thesis
    by (intro stored) (auto simp: observe_def Let_def split: if_splits)
qed

section \<open>Eviction\<close>

definition older_of :: "string \<times> time \<Rightarrow> string \<times> disc_peer \<Rightarrow> string \<times> time" where
  "older_of = (\<lambda>(oldestID, oldest) (peerID, existing).
     if oldestID = [] \<or> time_before (dp_LastSeen existing) oldest
     then (peerID, dp_LastSeen existing) else (oldestID, oldest))"

lemma oldest_peer_eq: "oldest_peer m = fst (foldl older_of ([], 0) m)"
  by (simp add: oldest_peer_def older_of_def zero_time_def)

lemma foldl_older_key: "fst (foldl older_of acc m) = fst acc \<or> fst (foldl older_of acc m) \<in> fst ` set m"
proof (induction m arbitrary: acc)
  case (Cons e m)
  have "fst (older_of acc e) = fst acc \<or> fst (older_of acc e) = fst e"
    by (simp add: older_of_def split: prod.split)
  with Cons.IH [of "older_of acc e"] show ?case by auto
qed simp

lemma oldest_peer_key: "m \<noteq> [] \<Longrightarrow> oldest_peer m \<in> fst ` set m"
proof -
  assume "m \<noteq> []"
  then obtain e m' where m: "m = e # m'" by (cases m) auto
  have "fst (older_of ([], 0) e) = fst e" by (simp add: older_of_def split: prod.split)
  with foldl_older_key [of "older_of ([], 0) e" m'] show ?thesis by (auto simp: oldest_peer_eq m)
qed

lemma foldl_older_min:
  assumes "\<forall>e \<in> set m. fst e \<noteq> []" "fst acc \<noteq> []"
  shows "snd (foldl older_of acc m) \<le> snd acc
    \<and> (\<forall>e \<in> set m. snd (foldl older_of acc m) \<le> dp_LastSeen (snd e))
    \<and> (foldl older_of acc m = acc
       \<or> (\<exists>e \<in> set m. foldl older_of acc m = (fst e, dp_LastSeen (snd e))))"
  using assms
proof (induction m arbitrary: acc)
  case (Cons e m)
  let ?acc = "older_of acc e"
  have step: "?acc = acc \<and> snd acc \<le> dp_LastSeen (snd e)
      \<or> ?acc = (fst e, dp_LastSeen (snd e)) \<and> dp_LastSeen (snd e) < snd acc"
    using Cons.prems(2) by (auto simp: older_of_def time_simps split: prod.split)
  then have "fst ?acc \<noteq> []" using Cons.prems by auto
  with Cons.IH [of ?acc] Cons.prems(1)
  have IH: "snd (foldl older_of ?acc m) \<le> snd ?acc"
      "\<forall>e \<in> set m. snd (foldl older_of ?acc m) \<le> dp_LastSeen (snd e)"
      "foldl older_of ?acc m = ?acc
       \<or> (\<exists>e \<in> set m. foldl older_of ?acc m = (fst e, dp_LastSeen (snd e)))"
    by auto
  with step show ?case by fastforce
qed simp

lemma oldest_peer_oldest:
  assumes "m \<noteq> []" "\<forall>e \<in> set m. fst e \<noteq> []"
  shows "\<exists>p. (oldest_peer m, p) \<in> set m \<and> (\<forall>e \<in> set m. dp_LastSeen p \<le> dp_LastSeen (snd e))"
proof -
  obtain e m' where m: "m = e # m'" using assms(1) by (cases m) auto
  have first: "older_of ([], 0) e = (fst e, dp_LastSeen (snd e))"
    by (simp add: older_of_def split: prod.split)
  let ?r = "foldl older_of (fst e, dp_LastSeen (snd e)) m'"
  have min: "\<forall>x \<in> set m. snd ?r \<le> dp_LastSeen (snd x)"
    and mem: "\<exists>q \<in> set m. ?r = (fst q, dp_LastSeen (snd q))"
    using foldl_older_min [of m' "(fst e, dp_LastSeen (snd e))"] assms(2) by (auto simp: m)
  from mem obtain q where q: "q \<in> set m" "?r = (fst q, dp_LastSeen (snd q))" by blast
  then have "oldest_peer m = fst q" by (simp add: oldest_peer_eq m first)
  with q min show ?thesis by (intro exI [of _ "snd q"]) simp
qed

lemma length_mdel_less: "k \<in> fst ` set m \<Longrightarrow> length (mdel k m) < length m"
  by (auto simp: AList.delete_eq intro!: length_filter_less)

lemma length_putPeer:
  assumes "length (ds_peers s) \<le> 256"
  shows "length (ds_peers (putPeer p s)) \<le> 256"
proof -
  let ?m = "ds_peers (prune_peers (dp_LastSeen p) s)"
  have small: "length ?m \<le> 256"
    using assms by (simp add: prune_peers_eq order_trans [OF length_filter_le])
  show ?thesis
  proof (cases "mget ?m (dp_ID p) = None \<and> 256 \<le> length ?m")
    case True
    then have "?m \<noteq> []" by auto
    with length_mdel_less [OF oldest_peer_key] small True show ?thesis
      by (fastforce simp: putPeer_def Let_def maxPeers_def length_mput)
  next
    case False
    with small show ?thesis
      by (auto simp: putPeer_def Let_def maxPeers_def length_mput)
  qed
qed

interpretation disc: bounded_table prune_peers ds_peers peer_live "\<lambda>now e. observe now e" "\<lambda>_. maxPeers"
proof (unfold_locales, goal_cases)
  case (1 now t)
  then show ?case by (simp add: prune_peers_eq)
next
  case (2 now t)
  then show ?case by (simp add: peer_live_def fun_eq_iff)
next
  case (3 now now' t e)
  then show ?case by (cases e) (auto simp: peer_live_def)
next
  case (4 t now x)
  then show ?case
    by (rule_tac observe_cases [of now x t]) (auto simp: maxPeers_def length_putPeer)
qed auto

section \<open>The invariant\<close>

definition disc_entry_ok :: "string \<Rightarrow> string \<times> disc_peer \<Rightarrow> bool" where
  "disc_entry_ok selfID = (\<lambda>(pid, p). dp_ID p = pid \<and> ValidUUID pid \<and> pid \<noteq> selfID
     \<and> ValidFingerprint (dp_Fingerprint p) 8 \<and> safe_name (dp_Name p))"

definition disc_inv :: "disc_service \<Rightarrow> bool" where
  "disc_inv s \<longleftrightarrow> wf_map (ds_peers s) \<and> list_all (disc_entry_ok (ds_selfID s)) (ds_peers s)
     \<and> length (ds_peers s) \<le> maxPeers"

lemma disc_inv_prune: "disc_inv s \<Longrightarrow> disc_inv (prune_peers now s)"
  by (auto simp: disc_inv_def prune_peers_eq list_all_iff order_trans [OF length_filter_le])

lemma disc_inv_observe: "disc_inv s \<Longrightarrow> disc_inv (observe now e s)"
proof (rule observe_cases [of now e s])
  fix p
  assume inv: "disc_inv s" and obs: "observe now e s = putPeer p s"
    and p: "ValidUUID (dp_ID p)" "dp_ID p \<noteq> ds_selfID s" "ValidFingerprint (dp_Fingerprint p) 8"
      "dp_Name p \<noteq> []" "dp_Name p = NormalizeDeviceName (se_Instance e)"
  from p(4,5) have "safe_name (dp_Name p)" by (simp add: safe_name_normalized)
  note p = p(1-3) this
  let ?s = "prune_peers (dp_LastSeen p) s"
  have inv': "disc_inv ?s" using inv by (rule disc_inv_prune)
  have "list_all (disc_entry_ok (ds_selfID s)) (ds_peers (putPeer p s))"
    using inv' p
    by (auto simp: putPeer_def Let_def disc_inv_def disc_entry_ok_def list_all_iff set_mdel
        dest!: mem_mputD)
  moreover have "wf_map (ds_peers (putPeer p s))"
    using inv' by (simp add: putPeer_def Let_def disc_inv_def)
  ultimately show "disc_inv (observe now e s)"
    using inv length_putPeer [of s p] by (simp add: obs disc_inv_def maxPeers_def)
qed simp

lemma setError_fields [simp]:
  "ds_peers (setError e s) = ds_peers s" "ds_selfID (setError e s) = ds_selfID s"
  "ds_server (setError e s) = ds_server s" "ds_shutdown (setError e s) = ds_shutdown s"
  "ds_closed (setError e s) = ds_closed s"
  by (simp_all add: setError_def)

lemma shut_fields [simp]:
  "ds_peers (shut h s) = ds_peers s" "ds_selfID (shut h s) = ds_selfID s"
  "ds_server (shut h s) = ds_server s" "ds_closed (shut h s) = ds_closed s"
  by (simp_all add: shut_def split: option.split)

lemma disc_apply_frame:
  "(\<forall>now e. ev \<noteq> DObserve now e) \<Longrightarrow> ds_selfID (disc_apply ev s) = ds_selfID s
     \<and> (ds_peers (disc_apply ev s) = ds_peers s
        \<or> (\<exists>now. ds_peers (disc_apply ev s) = ds_peers (prune_peers now s)))"
  by (cases ev)
    (auto simp: Peers_def Find_def CloseService_def refreshRegistration_def finish_browse_def Let_def
      split: sum.split browse_end.split)

lemma disc_inv_apply: "disc_inv s \<Longrightarrow> disc_inv (disc_apply ev s)"
proof (cases "\<forall>now e. ev \<noteq> DObserve now e")
  case True
  assume inv: "disc_inv s"
  from disc_apply_frame [OF True, of s] inv disc_inv_prune [OF inv] show ?thesis
    by (auto simp: disc_inv_def)
next
  case False
  then show "disc_inv s \<Longrightarrow> ?thesis" by (auto simp: disc_inv_observe)
qed

lemma NewService_inv: "NewService selfID name fp osn svc port tab ifaces reg = Inr s \<Longrightarrow> disc_inv s \<and> ds_selfID s = selfID"
  by (auto simp: NewService_def disc_inv_def split: sum.splits)

lemma disc_inv_fold: "disc_inv s \<Longrightarrow> disc_inv (fold disc_apply es s) \<and> ds_selfID (fold disc_apply es s) = ds_selfID s"
proof (induction es arbitrary: s)
  case (Cons ev es)
  have "ds_selfID (disc_apply ev s) = ds_selfID s"
  proof (cases "\<forall>now e. ev \<noteq> DObserve now e")
    case True
    with disc_apply_frame [OF True, of s] show ?thesis by simp
  next
    case False
    then obtain now e where "ev = DObserve now e" by auto
    then show ?thesis by (auto intro: observe_cases [of now e s])
  qed
  with Cons.IH [OF disc_inv_apply [OF Cons.prems, of ev]] show ?case by simp
qed simp

section \<open>A sample service\<close>

definition sample_iface :: net_interface where
  "sample_iface = \<lparr>if_name = ''e'', if_flags = 0x13,
     if_addrs = Some [IPNetAddr \<lparr>net_ip = [192, 168, 1, 7], net_mask = [255, 255, 255, 0]\<rparr>, OtherAddr]\<rparr>"

definition sample_uuid :: "char \<Rightarrow> string" where
  "sample_uuid c = ''00000000-0000-4000-8000-00000000000'' @ [c]"

definition sample_service :: disc_service where
  "sample_service = \<lparr>ds_selfID = sample_uuid CHR ''1'', ds_name = ''B'', ds_fingerprint = ''0011223344556677'',
     ds_osName = ''linux'', ds_service = ''_lanclip._tcp'', ds_port = 45783, ds_server = Some 7,
     ds_peers = [], ds_lastBrowse = 0, ds_lastError = [], ds_closed = False, ds_shutdown = []\<rparr>"

definition sample_peer :: "char \<Rightarrow> string \<Rightarrow> disc_peer" where
  "sample_peer c name = \<lparr>dp_ID = sample_uuid c, dp_Name = name, dp_Fingerprint = ''0011223344556677'',
     dp_OS = ''linux'', dp_Port = 9, dp_Addresses = [''1.2.3.4'', ''192.168.1.20:9''], dp_LastSeen = 50\<rparr>"

lemma sample_eligible: "eligibleInterface (\<lambda>r. r) sample_iface"
  by code_simp

lemma sample_new_service:
  "NewService (sample_uuid CHR ''1'') ''B'' ''0011223344556677'' ''linux'' ''_lanclip._tcp'' 45783 (\<lambda>r. r)
     (Inr [sample_iface]) (\<lambda>_. Inr 7) = Inr sample_service"
  by (simp add: NewService_def activeLANInterfaces_def sample_eligible sample_service_def zero_time_def)

lemma sample_valid:
  "ValidUUID (sample_uuid CHR ''1'')" "ValidUUID (sample_uuid CHR ''2'')" "ValidUUID (sample_uuid CHR ''3'')"
  "ValidFingerprint ''0011223344556677'' 8"
  by code_simp+

lemma sample_uuid_inj [simp]: "sample_uuid c = sample_uuid d \<longleftrightarrow> c = d"
  by (simp add: sample_uuid_def)

lemma sample_direct:
  "SplitHostPort ''192.168.1.20:9'' = Some (''192.168.1.20'', ''9'')"
  "directEndpoint [''1.2.3.4'', ''192.168.1.20:9''] (activeLANNetworks (\<lambda>r. r) (Inr [sample_iface]))
     = Some ''192.168.1.20:9''"
proof -
  show host: "SplitHostPort ''192.168.1.20:9'' = Some (''192.168.1.20'', ''9'')" by code_simp
  have host': "SplitHostPort ''1.2.3.4'' = None" by code_simp
  have ip: "ParseIP ''192.168.1.20'' = Some (v4_prefix @ [192, 168, 1, 20])" by code_simp
  have "isDirectIP (Some (v4_prefix @ [192, 168, 1, 20]))
      [\<lparr>net_ip = [192, 168, 1, 7], net_mask = [255, 255, 255, 0]\<rparr>]" by code_simp
  with host host' ip show "directEndpoint [''1.2.3.4'', ''192.168.1.20:9'']
      (activeLANNetworks (\<lambda>r. r) (Inr [sample_iface])) = Some ''192.168.1.20:9''"
    using sample_eligible by (simp add: activeLANNetworks_def sample_iface_def)
qed

section \<open>Properties\<close>

text \<open>
  C17. Whatever is announced on the network and in whatever order the service's steps interleave,
  the peer table never holds more than 256 entries nor the device itself, and every entry has
  a well-formed UUID as its key and ID, an 8-byte hexadecimal fingerprint and a non-empty
  display name that is safe to print.
\<close>

theorem discovery_table_is_sound:
  assumes "NewService selfID name fp osn svc port tab ifaces reg = Inr s"
  shows "length (ds_peers (fold disc_apply es s)) \<le> maxPeers
    \<and> list_all (\<lambda>(pid, p). dp_ID p = pid \<and> ValidUUID pid \<and> pid \<noteq> selfID
         \<and> ValidFingerprint (dp_Fingerprint p) 8 \<and> safe_name (dp_Name p))
        (ds_peers (fold disc_apply es s))"
proof -
  have "disc_inv (fold disc_apply es s)" "ds_selfID (fold disc_apply es s) = selfID"
    using NewService_inv [OF assms] disc_inv_fold [of s es] by auto
  then show ?thesis unfolding disc_inv_def disc_entry_ok_def by simp
qed

theorem discovery_table_is_sound_witness:
  "length (ds_peers (fold disc_apply [DObserve 1 \<lparr>se_Instance = ''B'', se_Text = [], se_AddrIPv4 = [],
     se_AddrIPv6 = [], se_Port = 9\<rparr>, DClose] sample_service)) \<le> maxPeers"
  using discovery_table_is_sound [OF sample_new_service] by blast

lemma mget_putPeer:
  "mget (ds_peers (putPeer p s)) (dp_ID p) = Some p"
  by (simp add: putPeer_def Let_def gomap_simps)

text \<open>
  A full table gives up a longest-unseen entry and nothing else. Storing an announcement
  keeps every unexpired entry of another device, except that when the table is full of
  unexpired entries and the device is new, exactly one is dropped, and no unexpired entry
  was seen earlier than it.
\<close>

theorem eviction_drops_an_oldest:
  assumes "disc_inv s" "ValidUUID (dp_ID p)" "pid \<noteq> dp_ID p"
    "mget (ds_peers (prune_peers (dp_LastSeen p) s)) pid = Some q"
  shows "mget (ds_peers (putPeer p s)) pid = Some q
    \<or> (length (ds_peers (prune_peers (dp_LastSeen p) s)) = maxPeers
       \<and> mget (ds_peers (prune_peers (dp_LastSeen p) s)) (dp_ID p) = None
       \<and> pid = oldest_peer (ds_peers (prune_peers (dp_LastSeen p) s))
       \<and> (\<forall>pid' q'. mget (ds_peers (prune_peers (dp_LastSeen p) s)) pid' = Some q'
            \<longrightarrow> dp_LastSeen q \<le> dp_LastSeen q'))"
proof -
  let ?m = "ds_peers (prune_peers (dp_LastSeen p) s)"
  note inv = disc_inv_prune [OF assms(1), of "dp_LastSeen p"]
  show ?thesis
  proof (cases "mget ?m (dp_ID p) = None \<and> length ?m \<ge> maxPeers \<and> pid = oldest_peer ?m")
    case False
    then show ?thesis
      using assms(3,4) by (auto simp: putPeer_def Let_def gomap_simps)
  next
    case True
    have keys: "\<forall>e \<in> set ?m. fst e \<noteq> []"
      using inv by (auto simp: disc_inv_def list_all_iff disc_entry_ok_def ValidUUID_def)
    have "?m \<noteq> []" using True by (auto simp: maxPeers_def)
    from oldest_peer_oldest [OF this keys] obtain r where
      r: "(oldest_peer ?m, r) \<in> set ?m" "\<forall>e \<in> set ?m. dp_LastSeen r \<le> dp_LastSeen (snd e)" by blast
    have "r = q"
      using mem_mget [OF _ r(1)] inv assms(4) True by (simp add: disc_inv_def)
    moreover have "length ?m = maxPeers" using True inv by (simp add: disc_inv_def)
    ultimately show ?thesis
      using True r(2) by (auto dest!: mget_Some_mem)
  qed
qed

theorem eviction_drops_an_oldest_witness:
  "mget (ds_peers (putPeer (sample_peer CHR ''3'' ''B'')
      (sample_service\<lparr>ds_peers := [(sample_uuid CHR ''2'', sample_peer CHR ''2'' ''B'')]\<rparr>))) (sample_uuid CHR ''2'')
     = Some (sample_peer CHR ''2'' ''B'')"
proof -
  let ?s = "sample_service\<lparr>ds_peers := [(sample_uuid CHR ''2'', sample_peer CHR ''2'' ''B'')]\<rparr>"
  have "disc_inv ?s"
    using sample_valid runes_B
    by (simp add: disc_inv_def wf_map_def disc_entry_ok_def sample_service_def sample_peer_def
        safe_name_def maxPeers_def MaxDeviceNameRunes_def)
  from eviction_drops_an_oldest [OF this, of "sample_peer CHR ''3'' ''B''" "sample_uuid CHR ''2''"
      "sample_peer CHR ''2'' ''B''"] sample_valid
  show ?thesis
    by (simp add: sample_service_def prune_peers_eq peer_live_def sample_peer_def maxPeers_def)
qed

text \<open>
  A look-up answers from what was seen in the last 45 seconds: it returns a stored peer that
  matches the query by full ID, by name (case-folded) or by ID prefix, and it fails only when
  no live peer matches.
\<close>

theorem find_answers_from_live_peers:
  "(case fst (Find tab now query s) of
      Some p \<Rightarrow> now - 45000000000 < dp_LastSeen p \<and> p \<in> snd ` set (ds_peers s)
        \<and> (dp_ID p = query \<or> to_lower tab (dp_Name p) = to_lower tab query \<or> has_prefix (dp_ID p) query)
    | None \<Rightarrow> \<not> (\<exists>p \<in> snd ` set (ds_peers s). now - 45000000000 < dp_LastSeen p
        \<and> (dp_ID p = query \<or> to_lower tab (dp_Name p) = to_lower tab query \<or> has_prefix (dp_ID p) query)))"
proof (cases "fst (Find tab now query s)")
  case None
  then have "\<not> (\<exists>p \<in> snd ` set (ds_peers s). now - 45000000000 < dp_LastSeen p
      \<and> (dp_ID p = query \<or> to_lower tab (dp_Name p) = to_lower tab query \<or> has_prefix (dp_ID p) query))"
    unfolding Find_def Let_def fst_conv map_option_is_None find_None_iff prune_peers_eq peer_live_def
    by fastforce
  with None show ?thesis by simp
next
  case (Some p)
  let ?P = "\<lambda>(_, p). dp_ID p = query \<or> to_lower tab (dp_Name p) = to_lower tab query
      \<or> has_prefix (dp_ID p) query"
  from Some obtain pid where "find ?P (ds_peers (prune_peers now s)) = Some (pid, p)"
    by (auto simp: Find_def Let_def)
  then have "(pid, p) \<in> set (ds_peers (prune_peers now s))" "?P (pid, p)"
    by (auto simp: find_Some_iff in_set_conv_nth)
  with Some show ?thesis
    by (force simp: prune_peers_eq peer_live_def)
qed

lemma directEndpoint_SomeD:
  "directEndpoint addrs networks = Some e \<Longrightarrow> e \<in> set addrs \<and> (\<exists>host port ip. SplitHostPort e = Some (host, port)
     \<and> ParseIP host = Some ip \<and> isDirectIP (Some ip) networks)"
  by (induction addrs) (auto split: option.splits if_splits)

lemma activeLANNetworksE:
  assumes "n \<in> set (activeLANNetworks tab ifaces)"
  obtains all iface addrs where "ifaces = Inr all" "iface \<in> set all" "eligibleInterface tab iface"
    "if_addrs iface = Some addrs" "IPNetAddr n \<in> set addrs"
proof (cases ifaces)
  case (Inl e)
  with assms show thesis by (simp add: activeLANNetworks_def)
next
  case (Inr all)
  with assms obtain iface where iface: "iface \<in> set all" "eligibleInterface tab iface"
    and n: "n \<in> set (case if_addrs iface of None \<Rightarrow> []
         | Some addrs \<Rightarrow> concat (map (\<lambda>a. case a of IPNetAddr n \<Rightarrow> [n] | OtherAddr \<Rightarrow> []) addrs))"
    by (auto simp: activeLANNetworks_def split: if_splits)
  from n obtain addrs where addrs: "if_addrs iface = Some addrs"
    by (cases "if_addrs iface") auto
  with n obtain a where "a \<in> set addrs" "n \<in> set (case a of IPNetAddr n \<Rightarrow> [n] | OtherAddr \<Rightarrow> [])"
    by auto
  then have "IPNetAddr n \<in> set addrs" by (cases a) auto
  with Inr iface addrs show thesis by (rule that)
qed

text \<open>
  Only addresses on the local link are dialled. The endpoint chosen for a peer is one of its
  announced addresses, its host parses as an address that is neither loopback, unspecified nor
  multicast, and that address lies in a network of an up, multicast, non-loopback,
  non-point-to-point interface whose name is not a known virtual one.
\<close>

theorem endpoint_is_on_the_local_link:
  assumes "Endpoint tab ifaces p = Inr e"
  shows "e \<in> set (dp_Addresses p) \<and> (\<exists>host port ip all iface addrs n.
      SplitHostPort e = Some (host, port) \<and> ParseIP host = Some ip
      \<and> \<not> IsLoopback ip \<and> \<not> IsUnspecified ip \<and> \<not> IsMulticast ip
      \<and> ifaces = Inr all \<and> iface \<in> set all \<and> eligibleInterface tab iface
      \<and> if_addrs iface = Some addrs \<and> IPNetAddr n \<in> set addrs \<and> net_contains n ip)"
proof -
  from assms have "directEndpoint (dp_Addresses p) (activeLANNetworks tab ifaces) = Some e"
    by (auto simp: Endpoint_def split: if_splits option.splits)
  from directEndpoint_SomeD [OF this] obtain host port ip where
    e: "e \<in> set (dp_Addresses p)" "SplitHostPort e = Some (host, port)" "ParseIP host = Some ip"
      "isDirectIP (Some ip) (activeLANNetworks tab ifaces)" by blast
  then obtain n where n: "n \<in> set (activeLANNetworks tab ifaces)" "net_contains n ip"
      "\<not> IsLoopback ip" "\<not> IsUnspecified ip" "\<not> IsMulticast ip"
    by (auto simp: isDirectIP_def ipInNetworks_def list_ex_iff split: if_splits)
  from n(1) show ?thesis by (rule activeLANNetworksE) (use e n in blast)
qed

theorem endpoint_is_on_the_local_link_witness:
  "\<exists>ip. ParseIP ''192.168.1.20'' = Some ip \<and> \<not> IsLoopback ip \<and> \<not> IsMulticast ip"
proof -
  have "Endpoint (\<lambda>r. r) (Inr [sample_iface]) (sample_peer CHR ''2'' ''B'') = Inr ''192.168.1.20:9''"
    using sample_direct by (simp add: Endpoint_def sample_peer_def)
  from endpoint_is_on_the_local_link [OF this] sample_direct show ?thesis by auto
qed

definition registers :: "disc_event \<Rightarrow> disc_service \<Rightarrow> nat list" where
  "registers ev s = (case ev of
       DRefresh tab ifaces reg \<Rightarrow>
         (case activeLANInterfaces tab ifaces of
            Inl _ \<Rightarrow> []
          | Inr _ \<Rightarrow> (case reg (service_txt (ds_selfID s) (ds_fingerprint s) (ds_osName s)) of
               Inl _ \<Rightarrow> [] | Inr h \<Rightarrow> [h]))
     | _ \<Rightarrow> [])"

fun registered_in :: "disc_event list \<Rightarrow> disc_service \<Rightarrow> nat list" where
  "registered_in [] s = []"
| "registered_in (ev # es) s = registers ev s @ registered_in es (disc_apply ev s)"

definition in_use :: "disc_service \<Rightarrow> nat list" where
  "in_use s = (case ds_server s of None \<Rightarrow> [] | Some h \<Rightarrow> [h])"

lemma apply_servers:
  "mset (ds_shutdown (disc_apply ev s)) + mset (in_use (disc_apply ev s))
     = mset (ds_shutdown s) + mset (in_use s) + mset (registers ev s)"
  "(ds_closed s \<longrightarrow> ds_server s = None) \<Longrightarrow>
     (ds_closed (disc_apply ev s) \<longrightarrow> ds_server (disc_apply ev s) = None)
     \<and> (ds_closed s \<or> ev = DClose \<longrightarrow> ds_closed (disc_apply ev s))"
proof -
  have obs: "ds_shutdown (observe now e s) = ds_shutdown s" "ds_server (observe now e s) = ds_server s"
      "ds_closed (observe now e s) = ds_closed s" for now e
    by (rule observe_cases [of now e s]; simp)+
  show "mset (ds_shutdown (disc_apply ev s)) + mset (in_use (disc_apply ev s))
     = mset (ds_shutdown s) + mset (in_use s) + mset (registers ev s)"
    by (cases ev) (auto simp: obs in_use_def registers_def Peers_def Find_def CloseService_def
        refreshRegistration_def finish_browse_def shut_def Let_def
        split: sum.split browse_end.split option.split)
  show "(ds_closed s \<longrightarrow> ds_server s = None) \<Longrightarrow>
     (ds_closed (disc_apply ev s) \<longrightarrow> ds_server (disc_apply ev s) = None)
     \<and> (ds_closed s \<or> ev = DClose \<longrightarrow> ds_closed (disc_apply ev s))"
    by (cases ev) (auto simp: obs Peers_def Find_def CloseService_def
        refreshRegistration_def finish_browse_def shut_def Let_def
        split: sum.split browse_end.split option.split)
qed

lemma fold_servers:
  "(ds_closed s \<longrightarrow> ds_server s = None) \<Longrightarrow>
     mset (ds_shutdown (fold disc_apply es s)) + mset (in_use (fold disc_apply es s))
       = mset (ds_shutdown s) + mset (in_use s) + mset (registered_in es s)
     \<and> (ds_closed s \<or> DClose \<in> set es \<longrightarrow> ds_server (fold disc_apply es s) = None)"
proof (induction es arbitrary: s)
  case (Cons ev es)
  from apply_servers(2) [OF Cons.prems, of ev] Cons.IH [of "disc_apply ev s"]
    apply_servers(1) [of ev s]
  show ?case by (auto simp: ac_simps)
qed simp

text \<open>
  C30. No advertisement outlives the service. Every responder ever registered is either the one
  in use or has been shut down, exactly once; and once \<open>Close\<close> has happened there is none in
  use, even if a re-registration that was already under way completes afterwards.
\<close>

theorem no_advertisement_outlives_close:
  assumes "NewService selfID name fp osn svc port tab ifaces reg = Inr s"
  shows "mset (ds_shutdown (fold disc_apply es s)) + mset (in_use (fold disc_apply es s))
      = mset (in_use s @ registered_in es s)
    \<and> (DClose \<in> set es \<longrightarrow> ds_server (fold disc_apply es s) = None)"
proof -
  have "\<not> ds_closed s" "ds_shutdown s = []"
    using assms by (auto simp: NewService_def split: sum.splits)
  with fold_servers [of s es] show ?thesis by auto
qed

theorem no_advertisement_outlives_close_witness:
  "ds_server (fold disc_apply [DClose, DRefresh (\<lambda>r. r) (Inr [sample_iface]) (\<lambda>_. Inr 8)] sample_service) = None"
  using no_advertisement_outlives_close [OF sample_new_service,
      of "[DClose, DRefresh (\<lambda>r. r) (Inr [sample_iface]) (\<lambda>_. Inr 8)]"] by simp

lemma split_eq_key: "CHR ''='' \<notin> set k \<Longrightarrow> split_eq (k @ ''='' @ x) = Some (k, x)"
proof (induction k)
  case (Cons c k)
  then show ?case by (auto simp: split_eq_def)
qed (simp add: split_eq_def)

lemma txt_fields_service:
  "txt_fields (service_txt selfID fp osn) =
     [(''v'', ''1''), (''id'', selfID), (''pk'', fp), (''os'', osn)]"
  using split_eq_key [of "''v''" "''1''"] split_eq_key [of "''id''" selfID]
    split_eq_key [of "''pk''" fp] split_eq_key [of "''os''" osn]
  by (simp add: txt_fields_def service_txt_def)

text \<open>
  Two instances find each other: an announcement carrying the TXT records that a service
  registers for a valid identity is accepted by every other device, which then knows the
  sender under its ID, its fingerprint prefix and its operating system.
\<close>

theorem advertised_peer_is_discovered:
  assumes "ValidUUID selfID" "ValidFingerprint fp 8" "selfID \<noteq> ds_selfID s"
    "se_Text e = service_txt selfID fp osn" "NormalizeDeviceName (se_Instance e) \<noteq> []"
  shows "\<exists>p. mget (ds_peers (observe now e s)) selfID = Some p \<and> dp_ID p = selfID
    \<and> dp_Fingerprint p = fp \<and> dp_OS p = osn \<and> dp_Name p = NormalizeDeviceName (se_Instance e)
    \<and> dp_Port p = se_Port e \<and> dp_LastSeen p = now"
proof -
  obtain p where "observe now e s = putPeer p s" "dp_ID p = selfID" "dp_Fingerprint p = fp"
      "dp_OS p = osn" "dp_Name p = NormalizeDeviceName (se_Instance e)" "dp_Port p = se_Port e"
      "dp_LastSeen p = now"
    using assms by (simp add: observe_def txt_fields_service field_def Let_def)
  with mget_putPeer [of p s] show ?thesis by auto
qed

theorem advertised_peer_is_discovered_witness:
  "\<exists>p. mget (ds_peers (observe 5 \<lparr>se_Instance = ''B'', se_Text = service_txt (sample_uuid CHR ''2'')
      ''0011223344556677'' ''linux'', se_AddrIPv4 = [[192, 168, 1, 20]], se_AddrIPv6 = [], se_Port = 9\<rparr>
      sample_service)) (sample_uuid CHR ''2'') = Some p"
proof -
  let ?e = "\<lparr>se_Instance = ''B'', se_Text = service_txt (sample_uuid CHR ''2'')
      ''0011223344556677'' ''linux'', se_AddrIPv4 = [[192, 168, 1, 20]], se_AddrIPv6 = [], se_Port = 9\<rparr>"
  have "NormalizeDeviceName (se_Instance ?e) \<noteq> []" by (simp add: normalize_B)
  moreover have "sample_uuid CHR ''2'' \<noteq> ds_selfID sample_service" by (simp add: sample_service_def)
  ultimately have "\<exists>p. mget (ds_peers (observe 5 ?e sample_service)) (sample_uuid CHR ''2'') = Some p
      \<and> dp_ID p = sample_uuid CHR ''2'' \<and> dp_Fingerprint p = ''0011223344556677''
      \<and> dp_OS p = ''linux'' \<and> dp_Name p = NormalizeDeviceName (se_Instance ?e)
      \<and> dp_Port p = se_Port ?e \<and> dp_LastSeen p = 5"
    by (intro advertised_peer_is_discovered sample_valid) simp_all
  then show ?thesis by blast
qed

text \<open>
  A reference that is the full ID of one device can resolve to another: \<open>Find\<close> takes the first
  peer in walk order that matches in any of the three ways, so a device whose announced name is
  another device's ID (or a device whose ID extends it) may be returned instead.
\<close>

theorem find_by_full_id_can_return_another:
  assumes "wf_map (ds_peers s)" "mget (ds_peers s) v = Some victim" "mget (ds_peers s) a = Some other"
    "dp_ID victim = v" "dp_ID other = a" "a \<noteq> v" "dp_Name other = v"
    "now - 45000000000 < dp_LastSeen victim" "now - 45000000000 < dp_LastSeen other"
  shows "\<exists>walk. mset walk = mset (ds_peers s)
    \<and> fst (Find tab now v (s\<lparr>ds_peers := walk\<rparr>)) = Some other \<and> dp_ID other \<noteq> v"
proof -
  let ?walk = "(a, other) # remove1 (a, other) (ds_peers s)"
  have "mset ?walk = mset (ds_peers s)"
    using mget_Some_mem [OF assms(3)] by simp
  moreover have "fst (Find tab now v (s\<lparr>ds_peers := ?walk\<rparr>)) = Some other"
    using assms(5,7,9) by (simp add: Find_def prune_peers_eq peer_live_def)
  ultimately show ?thesis using assms(5,6) by blast
qed

theorem find_by_full_id_can_return_another_witness:
  "\<exists>walk. fst (Find (\<lambda>r. r) 60 (sample_uuid CHR ''2'') (sample_service\<lparr>ds_peers := walk\<rparr>))
     = Some (sample_peer CHR ''3'' (sample_uuid CHR ''2''))"
  using find_by_full_id_can_return_another [of "sample_service\<lparr>ds_peers :=
      [(sample_uuid CHR ''2'', sample_peer CHR ''2'' ''B''),
       (sample_uuid CHR ''3'', sample_peer CHR ''3'' (sample_uuid CHR ''2''))]\<rparr>" "sample_uuid CHR ''2''"
      "sample_peer CHR ''2'' ''B''" "sample_uuid CHR ''3''" "sample_peer CHR ''3'' (sample_uuid CHR ''2'')"
      60 "\<lambda>r. r"]
  by (auto simp: wf_map_def sample_peer_def)

end
