(* ===== verification/Trust_File.thy ===== *)
theory Trust_File
  imports Prelude
begin

text \<open>
  The file half of \<open>internal/pairing/store.go\<close>: how \<open>saveLocked\<close> replaces \<open>peers.json\<close>.

  The directory is the target file (absent or with a content) and the temporary files, newest
  first. A save is a sequence of system calls, any of which may fail; a fault plan says which,
  and after how many bytes a failing write stops. \<open>save_file\<close> returns the directory after
  every call, so that a crash at any point is one of the states of the trace, and the outcome.
  The \<open>Sync\<close> of the directory after the rename and the second \<open>Close\<close> have no effect here.
\<close>

section \<open>State and operations\<close>

record disk =
  dk_target :: "string option"
  dk_temps :: "string list"

datatype save_error =
    EncodeFailed | CreateTempFailed | ChmodFailed | WriteFailed | SyncFailed | CloseFailed
  | RenameFailed

record save_faults =
  sf_create :: bool
  sf_chmod :: bool
  sf_write :: "nat option"
  sf_sync :: bool
  sf_close :: bool
  sf_rename :: bool
  sf_remove :: bool

definition no_faults :: save_faults where
  "no_faults = \<lparr>sf_create = False, sf_chmod = False, sf_write = None, sf_sync = False,
                sf_close = False, sf_rename = False, sf_remove = False\<rparr>"

definition write_temp :: "string \<Rightarrow> disk \<Rightarrow> disk" where
  "write_temp b d = d\<lparr>dk_temps := b # tl (dk_temps d)\<rparr>"

text \<open>The calls between creating the temporary file and renaming it: the first error, and the
  directory states passed through.\<close>

definition fill_temp :: "save_faults \<Rightarrow> string \<Rightarrow> disk \<Rightarrow> save_error option \<times> disk list" where
  "fill_temp f b d =
     (let (err, ds) =
            (if sf_chmod f then (Some ChmodFailed, [d])
             else (case sf_write f of
                     Some n \<Rightarrow> (Some WriteFailed, [d, write_temp (take n b) d])
                   | None \<Rightarrow> (None, [d, write_temp b d])));
          err = (if err = None then (if sf_sync f then Some SyncFailed else None) else err);
          err = (if err = None then (if sf_close f then Some CloseFailed else None) else err)
      in (err, ds))"

text \<open>The deferred removal of the temporary file, whose own failure is ignored.\<close>

definition remove_temp :: "save_faults \<Rightarrow> disk \<Rightarrow> disk" where
  "remove_temp f d = (if sf_remove f then d else d\<lparr>dk_temps := tl (dk_temps d)\<rparr>)"

definition rename_temp :: "disk \<Rightarrow> disk" where
  "rename_temp d = \<lparr>dk_target = Some (hd (dk_temps d)), dk_temps = tl (dk_temps d)\<rparr>"

definition save_file :: "save_faults \<Rightarrow> string option \<Rightarrow> disk \<Rightarrow> save_error option \<times> disk list" where
  "save_file f content d =
     (case content of
        None \<Rightarrow> (Some EncodeFailed, [d])
      | Some b \<Rightarrow>
          let b = b @ [CHR 0x0A] in
          if sf_create f then (Some CreateTempFailed, [d])
          else
            let (err, ds) = fill_temp f b (d\<lparr>dk_temps := [] # dk_temps d\<rparr>) in
            if err \<noteq> None then (err, d # ds @ [remove_temp f (last ds)])
            else if sf_rename f then (Some RenameFailed, d # ds @ [remove_temp f (last ds)])
            else (None, d # ds @ [rename_temp (last ds)]))"

section \<open>Lemmas\<close>

lemma fill_temp_cases:
  obtains (failed) e ds where "fill_temp f b d = (Some e, ds)" "ds \<noteq> []"
      "\<forall>x \<in> set ds. dk_target x = dk_target d \<and> tl (dk_temps x) = tl (dk_temps d)"
  | (filled) "fill_temp f b d = (None, [d, write_temp b d])"
proof -
  consider "sf_chmod f" | n where "\<not> sf_chmod f" "sf_write f = Some n"
    | "\<not> sf_chmod f" "sf_write f = None" "sf_sync f"
    | "\<not> sf_chmod f" "sf_write f = None" "\<not> sf_sync f" "sf_close f"
    | "\<not> sf_chmod f" "sf_write f = None" "\<not> sf_sync f" "\<not> sf_close f"
    by (cases "sf_write f") auto
  then show thesis
  proof cases
    case 1
    then show thesis by (intro failed [of ChmodFailed "[d]"]) (auto simp: fill_temp_def)
  next
    case (2 n)
    then show thesis
      by (intro failed [of WriteFailed "[d, write_temp (take n b) d]"])
        (auto simp: fill_temp_def write_temp_def)
  next
    case 3
    then show thesis
      by (intro failed [of SyncFailed "[d, write_temp b d]"]) (auto simp: fill_temp_def write_temp_def)
  next
    case 4
    then show thesis
      by (intro failed [of CloseFailed "[d, write_temp b d]"]) (auto simp: fill_temp_def write_temp_def)
  next
    case 5
    then show thesis by (intro filled) (simp add: fill_temp_def)
  qed
qed

lemma save_file_cases:
  obtains (failed) e ds where "save_file f content d = (Some e, ds)" "ds \<noteq> []"
      "\<forall>x \<in> set ds. dk_target x = dk_target d"
      "sf_remove f \<or> dk_temps (last ds) = dk_temps d"
  | (saved) b ds where "content = Some b" "save_file f content d = (None, ds)" "ds \<noteq> []"
      "\<forall>x \<in> set (butlast ds). dk_target x = dk_target d"
      "last ds = d\<lparr>dk_target := Some (b @ [CHR 0x0A])\<rparr>"
proof (cases content)
  case None
  then show thesis by (intro failed) (auto simp: save_file_def)
next
  case (Some b)
  let ?d = "d\<lparr>dk_temps := [] # dk_temps d\<rparr>" and ?b = "b @ [CHR 0x0A]"
  show thesis
  proof (cases "sf_create f")
    case True
    with Some show thesis by (intro failed) (auto simp: save_file_def)
  next
    case create: False
    show thesis
    proof (cases rule: fill_temp_cases [where f = f and b = ?b and d = ?d])
      case (failed e ds)
      then have "last ds \<in> set ds" by simp
      with failed have "dk_target (last ds) = dk_target d" "tl (dk_temps (last ds)) = dk_temps d"
        by auto
      with failed Some create show thesis
        by (intro that(1) [of e "d # ds @ [remove_temp f (last ds)]"])
          (auto simp: save_file_def remove_temp_def)
    next
      case filled
      show thesis
      proof (cases "sf_rename f")
        case True
        with filled Some create show thesis
          by (intro failed [of RenameFailed "[d, ?d, write_temp ?b ?d, remove_temp f (write_temp ?b ?d)]"])
            (auto simp: save_file_def remove_temp_def write_temp_def)
      next
        case False
        with filled Some create show thesis
          by (intro saved [of b]) (auto simp: save_file_def rename_temp_def write_temp_def)
      qed
    qed
  qed
qed

lemma save_file_last:
  "save_file f content d = (r, ds) \<Longrightarrow>
     (r \<noteq> None \<longrightarrow> dk_target (last ds) = dk_target d) \<and>
     (r = None \<longrightarrow> (\<exists>b. content = Some b \<and> dk_target (last ds) = Some (b @ [CHR 0x0A])))"
  by (cases rule: save_file_cases [where f = f and content = content and d = d]) auto

section \<open>Properties\<close>

text \<open>
  C31. Saving the trust store is atomic: at every moment of a save, whichever system calls
  fail and wherever the process dies, the file holds either its old content or the complete
  new one, and the new one only if the save then reports success.
\<close>

theorem save_is_atomic:
  assumes "save_file f (Some b) d = (r, ds)" "x \<in> set ds"
  shows "dk_target x = dk_target d \<or> (dk_target x = Some (b @ [CHR 0x0A]) \<and> r = None \<and> x = last ds)"
proof (cases rule: save_file_cases [where f = f and content = "Some b" and d = d])
  case (failed e ds')
  with assms show ?thesis by auto
next
  case (saved b' ds')
  with assms have "x \<in> set (butlast ds) \<or> x = last ds"
    by (metis UnE append_butlast_last_id empty_iff empty_set set_ConsD set_append snd_conv)
  with saved assms show ?thesis by auto
qed

theorem save_is_atomic_witness:
  "map dk_target (snd (save_file (no_faults\<lparr>sf_write := Some 1\<rparr>) (Some ''new'')
      \<lparr>dk_target = Some ''old'', dk_temps = []\<rparr>)) = replicate 4 (Some ''old'')"
proof -
  let ?d = "\<lparr>dk_target = Some ''old'', dk_temps = []\<rparr>"
  let ?f = "no_faults\<lparr>sf_write := Some 1\<rparr>"
  let ?ds = "[?d, ?d\<lparr>dk_temps := [[]]\<rparr>, ?d\<lparr>dk_temps := [''n'']\<rparr>, ?d]"
  have run: "save_file ?f (Some ''new'') ?d = (Some WriteFailed, ?ds)"
    by (simp add: save_file_def fill_temp_def no_faults_def write_temp_def remove_temp_def)
  have "dk_target x = Some ''old''" if "x \<in> set ?ds" for x
    using save_is_atomic [OF run that] by simp
  then have "map dk_target ?ds = replicate 4 (Some ''old'')"
    by (simp add: numeral_eq_Suc)
  with run show ?thesis by simp
qed

text \<open>
  A save leaves no temporary file behind unless removing it fails: on success it has
  become the target, on every error path the deferred removal deletes it.
\<close>

theorem save_cleans_up:
  assumes "save_file f content d = (r, ds)" "\<not> sf_remove f"
  shows "dk_temps (last ds) = dk_temps d"
  using assms by (cases rule: save_file_cases [where f = f and content = content and d = d]) auto

theorem save_cleans_up_witness:
  "dk_temps (last (snd (save_file (no_faults\<lparr>sf_rename := True\<rparr>) (Some ''x'')
     \<lparr>dk_target = None, dk_temps = []\<rparr>))) = []"
proof -
  obtain r ds where run: "save_file (no_faults\<lparr>sf_rename := True\<rparr>) (Some ''x'')
      \<lparr>dk_target = None, dk_temps = []\<rparr> = (r, ds)" by fastforce
  from save_cleans_up [OF run] run show ?thesis by (simp add: no_faults_def)
qed

end
