(* ===== verification/Pairing_Store.thy ===== *)
theory Pairing_Store
  imports Runes Digest Trust_File
begin

text \<open>
  \<open>internal/pairing/store.go\<close>: the trust store, its pending pairing requests and their life
  cycle (put, approve, reject, unpair, rename, look-ups, loading).

  Every operation of the code holds the store's mutex from start to end, so an operation is a
  function from store to store. Where it reads the clock it takes the reading as an argument,
  once per call of \<open>s.now()\<close>. What the outside contributes is a record \<open>store_env\<close>: the JSON
  encoding of the peer map (\<open>None\<close> for a marshalling error), the fault plan of the save, and the
  case-folding table of \<open>strings.EqualFold\<close>. The file content is \<open>dk_target\<close> of the store's disk.
\<close>

section \<open>State\<close>

definition Pending :: string where
  "Pending = ''pending''"

definition Trusted :: string where
  "Trusted = ''trusted''"

definition Rejected :: string where
  "Rejected = ''rejected''"

record peer =
  p_ID :: string
  p_Name :: string
  p_Fingerprint :: string
  p_State :: string
  p_ComparisonCode :: string
  p_ApprovalToken :: string
  p_UpdatedAt :: time

type_synonym peer_map = "(string, peer) gomap"

record store =
  st_disk :: disk
  st_peers :: peer_map
  st_pending :: peer_map
  st_pendingTTL :: duration
  st_maxPending :: nat

record store_env =
  ev_encode :: "peer_map \<Rightarrow> string option"
  ev_faults :: save_faults
  ev_fold :: "rune \<Rightarrow> rune"

datatype store_error =
    TrustedIdentityChanged | AlreadyTrusted | AlreadyPending | TooManyPending | RandomFailed
  | RequestChangedOrExpired | NameEmpty | PeerNotKnown | NoPendingMatch | NoPeerMatch
  | AmbiguousReference | SaveFailed save_error | ReadFailed string | ParseFailed

definition defaultPendingTTL :: duration where
  "defaultPendingTTL = 5 * minute"

definition defaultMaxPending :: nat where
  "defaultMaxPending = 32"

section \<open>Saving, pruning, resolving\<close>

definition save_locked :: "store_env \<Rightarrow> store \<Rightarrow> store_error option \<times> store" where
  "save_locked ev s =
     (let (err, trace) = save_file (ev_faults ev) (ev_encode ev (st_peers s)) (st_disk s)
      in (map_option SaveFailed err, s\<lparr>st_disk := last trace\<rparr>))"

definition prune_pending :: "time \<Rightarrow> store \<Rightarrow> store" where
  "prune_pending now s =
     s\<lparr>st_pending := filter (\<lambda>(pid, p). \<not> \<not> time_before now (time_add (p_UpdatedAt p) (st_pendingTTL s)))
                      (st_pending s)\<rparr>"

definition state_allowed :: "string list \<Rightarrow> peer \<Rightarrow> bool" where
  "state_allowed states p \<longleftrightarrow> states = [] \<or> p_State p \<in> set states"

definition peer_matches :: "(rune \<Rightarrow> rune) \<Rightarrow> string \<Rightarrow> string list \<Rightarrow> string \<times> peer \<Rightarrow> bool" where
  "peer_matches tab query states = (\<lambda>(pid, p).
     state_allowed states p \<and> (equal_fold tab (p_Name p) query \<or> has_prefix pid query))"

definition exact_match :: "string list \<Rightarrow> string \<Rightarrow> peer_map \<Rightarrow> peer option" where
  "exact_match states query m =
     (case mget m query of Some p \<Rightarrow> if state_allowed states p then Some p else None | None \<Rightarrow> None)"

definition resolve_locked ::
  "(rune \<Rightarrow> rune) \<Rightarrow> string \<Rightarrow> string list \<Rightarrow> store \<Rightarrow> store_error + (string \<times> peer)" where
  "resolve_locked tab query states s =
     (let query = trim_space query
      in case exact_match states query (st_pending s) of
           Some p \<Rightarrow> Inr (query, p)
         | None \<Rightarrow>
       (case exact_match states query (st_peers s) of
           Some p \<Rightarrow> Inr (query, p)
         | None \<Rightarrow>
       (let matches = filter (peer_matches tab query states) (st_peers s)
                      @ filter (peer_matches tab query states) (st_pending s)
        in if length matches = 0 then
             (if length states = 1 \<and> hd states = Pending then Inl NoPendingMatch else Inl NoPeerMatch)
           else if length matches > 1 then Inl AmbiguousReference
           else Inr (hd matches))))"

section \<open>Operations\<close>

definition RandomNonce :: "string option \<Rightarrow> string option" where
  "RandomNonce rnd = map_option hex_encode rnd"

definition PutPending ::
  "time \<Rightarrow> time \<Rightarrow> string option \<Rightarrow> peer \<Rightarrow> store \<Rightarrow> (store_error + peer) \<times> store" where
  "PutPending now now' rnd p s0 =
     (let s = prune_pending now s0;
          known = mget (st_peers s) (p_ID p);
          old = mget (st_pending s) (p_ID p)
      in if (case known of Some q \<Rightarrow> p_State q = Trusted | None \<Rightarrow> False) then
           (if p_Fingerprint (the known) \<noteq> p_Fingerprint p then (Inl TrustedIdentityChanged, s)
            else (Inl AlreadyTrusted, s))
         else if (case old of Some q \<Rightarrow> p_Fingerprint q \<noteq> p_Fingerprint p | None \<Rightarrow> False) then
           (Inl AlreadyPending, s)
         else if old = None \<and> length (st_pending s) \<ge> st_maxPending s then (Inl TooManyPending, s)
         else (case RandomNonce rnd of
             None \<Rightarrow> (Inl RandomFailed, s)
           | Some token \<Rightarrow>
               let p = p\<lparr>p_State := Pending, p_UpdatedAt := now', p_ApprovalToken := token\<rparr>
               in (Inr p, s\<lparr>st_pending := mput (p_ID p) p (st_pending s)\<rparr>)))"

definition restore :: "string \<Rightarrow> peer option \<Rightarrow> peer_map \<Rightarrow> peer_map" where
  "restore pid old m = (case old of Some p \<Rightarrow> mput pid p m | None \<Rightarrow> mdel pid m)"

definition Approve ::
  "store_env \<Rightarrow> time \<Rightarrow> time \<Rightarrow> string \<Rightarrow> string \<Rightarrow> string \<Rightarrow> string \<Rightarrow> store
     \<Rightarrow> store_error option \<times> store" where
  "Approve ev now now' query token fingerprint code s0 =
     (let s = prune_pending now s0 in
      case resolve_locked (ev_fold ev) query [Pending] s of
        Inl e \<Rightarrow> (Some e, s)
      | Inr (pid, p) \<Rightarrow>
          if token = [] \<or> token \<noteq> p_ApprovalToken p \<or> fingerprint \<noteq> p_Fingerprint p
             \<or> code \<noteq> p_ComparisonCode p
          then (Some RequestChangedOrExpired, s)
          else
            let pending = p;
                s1 = s\<lparr>st_pending := mdel pid (st_pending s)\<rparr>;
                old = mget (st_peers s1) pid;
                p = p\<lparr>p_State := Trusted, p_ComparisonCode := [], p_ApprovalToken := [],
                      p_UpdatedAt := now'\<rparr>;
                s2 = s1\<lparr>st_peers := mput pid p (st_peers s1)\<rparr>
            in (case save_locked ev s2 of
                  (Some e, s3) \<Rightarrow>
                    (Some e, s3\<lparr>st_peers := restore pid old (st_peers s3),
                               st_pending := mput pid pending (st_pending s3)\<rparr>)
                | (None, s3) \<Rightarrow> (None, s3)))"

definition Reject :: "store_env \<Rightarrow> time \<Rightarrow> time \<Rightarrow> string \<Rightarrow> store \<Rightarrow> store_error option \<times> store" where
  "Reject ev now now' query s0 =
     (let s = prune_pending now s0 in
      case resolve_locked (ev_fold ev) query [] s of
        Inl e \<Rightarrow> (Some e, s)
      | Inr (pid, p) \<Rightarrow>
          let oldPeer = mget (st_peers s) pid;
              oldPending = mget (st_pending s) pid;
              p = p\<lparr>p_State := Rejected, p_ComparisonCode := [], p_ApprovalToken := [],
                    p_UpdatedAt := now'\<rparr>;
              s1 = s\<lparr>st_pending := mdel pid (st_pending s),
                     st_peers := mput pid p (st_peers s)\<rparr>
          in (case save_locked ev s1 of
                (Some e, s2) \<Rightarrow>
                  (Some e, s2\<lparr>st_peers := restore pid oldPeer (st_peers s2),
                             st_pending := (case oldPending of Some q \<Rightarrow> mput pid q (st_pending s2)
                                            | None \<Rightarrow> st_pending s2)\<rparr>)
              | (None, s2) \<Rightarrow> (None, s2)))"

definition Unpair :: "store_env \<Rightarrow> string \<Rightarrow> store \<Rightarrow> store_error option \<times> store" where
  "Unpair ev query s =
     (case resolve_locked (ev_fold ev) query [] s of
        Inl e \<Rightarrow> (Some e, s)
      | Inr (pid, _) \<Rightarrow>
          let oldPeer = mget (st_peers s) pid;
              oldPending = mget (st_pending s) pid;
              s1 = s\<lparr>st_peers := mdel pid (st_peers s), st_pending := mdel pid (st_pending s)\<rparr>
          in (case save_locked ev s1 of
                (Some e, s2) \<Rightarrow>
                  (Some e, s2\<lparr>st_peers := (case oldPeer of Some q \<Rightarrow> mput pid q (st_peers s2)
                                          | None \<Rightarrow> st_peers s2),
                             st_pending := (case oldPending of Some q \<Rightarrow> mput pid q (st_pending s2)
                                            | None \<Rightarrow> st_pending s2)\<rparr>)
              | (None, s2) \<Rightarrow> (None, s2)))"

definition Resolve ::
  "(rune \<Rightarrow> rune) \<Rightarrow> time \<Rightarrow> string \<Rightarrow> string list \<Rightarrow> store
     \<Rightarrow> (store_error + (string \<times> peer)) \<times> store" where
  "Resolve tab now query states s0 =
     (let s = prune_pending now s0 in (resolve_locked tab query states s, s))"

definition UpdateName ::
  "store_env \<Rightarrow> time \<Rightarrow> string \<Rightarrow> string \<Rightarrow> store \<Rightarrow> store_error option \<times> store" where
  "UpdateName ev now pid name0 s =
     (let name = NormalizeDeviceName name0 in
      if name = [] then (Some NameEmpty, s)
      else (case mget (st_peers s) pid of
          None \<Rightarrow> (Some PeerNotKnown, s)
        | Some p \<Rightarrow>
            if p_Name p = name then (None, s)
            else
              let old = p;
                  p = p\<lparr>p_Name := name, p_UpdatedAt := now\<rparr>;
                  s1 = s\<lparr>st_peers := mput pid p (st_peers s)\<rparr>
              in (case save_locked ev s1 of
                    (Some e, s2) \<Rightarrow> (Some e, s2\<lparr>st_peers := mput pid old (st_peers s2)\<rparr>)
                  | (None, s2) \<Rightarrow> (None, s2))))"

definition Get :: "time \<Rightarrow> string \<Rightarrow> store \<Rightarrow> peer option \<times> store" where
  "Get now pid s0 =
     (let s = prune_pending now s0
      in (case mget (st_pending s) pid of Some p \<Rightarrow> Some p | None \<Rightarrow> mget (st_peers s) pid, s))"

definition TrustedFingerprint :: "string \<Rightarrow> store \<Rightarrow> peer option" where
  "TrustedFingerprint fp s =
     map_option snd (find (\<lambda>(_, p). p_State p = Trusted \<and> p_Fingerprint p = fp) (st_peers s))"

definition ListPeers :: "time \<Rightarrow> store \<Rightarrow> peer list \<times> store" where
  "ListPeers now s0 =
     (let s = prune_pending now s0;
          out = map snd (filter (\<lambda>(pid, p). mget (st_pending s) pid = None) (st_peers s))
                @ map snd (st_pending s)
      in (sort_key p_Name out, s))"

text \<open>
  \<open>Load\<close>: \<open>decode\<close> is \<open>json.Unmarshal\<close> into a peer map (\<open>None\<close> for a parse error); the file is
  the target of the disk, and \<open>read\<close> an error of \<open>os.ReadFile\<close> other than \<open>ErrNotExist\<close>. A missing
  file is created, an old file with pending entries rewritten.
\<close>

definition Load ::
  "store_env \<Rightarrow> (string \<Rightarrow> peer_map option) \<Rightarrow> string option \<Rightarrow> disk \<Rightarrow> store_error + store" where
  "Load ev decode read d =
     (let s = \<lparr>st_disk = d, st_peers = [], st_pending = [], st_pendingTTL = defaultPendingTTL,
               st_maxPending = defaultMaxPending\<rparr>
      in case read of Some e \<Rightarrow> Inl (ReadFailed e) | None \<Rightarrow>
        (case dk_target d of
           None \<Rightarrow> (case save_locked ev s of (Some e, _) \<Rightarrow> Inl e | (None, s) \<Rightarrow> Inr s)
         | Some b \<Rightarrow>
             (case decode b of
                None \<Rightarrow> Inl ParseFailed
              | Some loaded \<Rightarrow>
                  let removedPending = list_ex (\<lambda>(pid, p). p_State p = Pending) loaded;
                      kept = filter (\<lambda>(pid, p). p_State p \<noteq> Pending) loaded;
                      s = s\<lparr>st_peers := foldl (\<lambda>m (pid, p).
                              mput pid (p\<lparr>p_ApprovalToken := [], p_ComparisonCode := []\<rparr>) m) [] kept\<rparr>
                  in if removedPending
                     then (case save_locked ev s of (Some e, _) \<Rightarrow> Inl e | (None, s) \<Rightarrow> Inr s)
                     else Inr s)))"

end
