(* ===== verification/Pairing_Invariant.thy ===== *)
theory Pairing_Invariant
  imports Pairing_Store
begin

text \<open>
  The lemma library of the trust store: what each operation does to the two maps, branch by
  branch (one elimination rule per operation), the store invariant, and its preservation. An
  operation that reports an error is shown to be rolled back: both maps read as they did after
  pruning and the file is untouched.
\<close>

section \<open>Pruning as a bounded table\<close>

definition pending_live :: "store \<Rightarrow> time \<Rightarrow> string \<times> peer \<Rightarrow> bool" where
  "pending_live s now = (\<lambda>(pid, p). now < p_UpdatedAt p + st_pendingTTL s)"

lemma prune_pending_eq:
  "prune_pending now s = s\<lparr>st_pending := filter (pending_live s now) (st_pending s)\<rparr>"
  by (simp add: prune_pending_def pending_live_def time_simps)

lemma prune_pending_fields [simp]:
  "st_peers (prune_pending now s) = st_peers s"
  "st_disk (prune_pending now s) = st_disk s"
  "st_pendingTTL (prune_pending now s) = st_pendingTTL s"
  "st_maxPending (prune_pending now s) = st_maxPending s"
  by (simp_all add: prune_pending_eq)

lemma wf_prune_pending: "wf_map (st_pending s) \<Longrightarrow> wf_map (st_pending (prune_pending now s))"
  by (simp add: prune_pending_eq)

lemma mget_prune_pending:
  "wf_map (st_pending s) \<Longrightarrow>
     mget (st_pending (prune_pending now s)) pid
       = (case mget (st_pending s) pid of None \<Rightarrow> None
          | Some p \<Rightarrow> if now < p_UpdatedAt p + st_pendingTTL s then Some p else None)"
  by (auto simp: prune_pending_eq mget_filter pending_live_def split: option.splits)

lemma PutPending_cases:
  obtains (refused) e where "PutPending now now' rnd p s = (Inl e, prune_pending now s)"
  | (put) token where "RandomNonce rnd = Some token"
      "PutPending now now' rnd p s =
         (Inr (p\<lparr>p_State := Pending, p_UpdatedAt := now', p_ApprovalToken := token\<rparr>),
          (prune_pending now s)\<lparr>st_pending := mput (p_ID p)
             (p\<lparr>p_State := Pending, p_UpdatedAt := now', p_ApprovalToken := token\<rparr>)
             (st_pending (prune_pending now s))\<rparr>)"
      "\<forall>q. mget (st_peers s) (p_ID p) = Some q \<longrightarrow> p_State q \<noteq> Trusted"
      "\<forall>q. mget (st_pending (prune_pending now s)) (p_ID p) = Some q
           \<longrightarrow> p_Fingerprint q = p_Fingerprint p"
      "mget (st_pending (prune_pending now s)) (p_ID p) = None
         \<longrightarrow> length (st_pending (prune_pending now s)) < st_maxPending s"
proof (cases "RandomNonce rnd")
  case None
  then show thesis
    by (cases "fst (PutPending now now' rnd p s)")
      (rule refused, auto simp: PutPending_def Let_def split: if_splits option.splits)+
next
  case (Some token)
  show thesis
  proof (cases "fst (PutPending now now' rnd p s)")
    case (Inl e)
    with Some show thesis
      by (intro refused [of e]) (auto simp: PutPending_def Let_def split: if_splits option.splits)
  next
    case (Inr q)
    with Some show thesis
      by (intro put [of token])
        (auto simp: PutPending_def Let_def split: if_splits option.splits)
  qed
qed

interpretation pend: bounded_table prune_pending st_pending pending_live
    "\<lambda>now (now', rnd, p) s. snd (PutPending now now' rnd p s)" st_maxPending
proof (unfold_locales, goal_cases)
  case (1 now t)
  then show ?case by (simp add: prune_pending_eq)
next
  case (2 now t)
  then show ?case by (simp add: pending_live_def fun_eq_iff)
next
  case (3 now now' t e)
  then show ?case by (cases e) (auto simp: pending_live_def)
next
  case (4 t now x)
  obtain now' rnd p where x: "x = (now', rnd, p)" by (cases x)
  have "length (st_pending (prune_pending now t)) \<le> st_maxPending t"
    using 4 by (simp add: prune_pending_eq order_trans [OF length_filter_le])
  then show ?case
    unfolding x by (cases rule: PutPending_cases [where now = now and now' = now' and rnd = rnd
        and p = p and s = t]) (auto simp: length_mput)
next
  case (5 now x t)
  obtain now' rnd p where x: "x = (now', rnd, p)" by (cases x)
  show ?case
    unfolding x by (cases rule: PutPending_cases [where now = now and now' = now' and rnd = rnd
        and p = p and s = t]) auto
next
  case (6 now t)
  then show ?case by simp
qed

section \<open>Resolution\<close>

definition matches_of ::
  "(rune \<Rightarrow> rune) \<Rightarrow> string \<Rightarrow> string list \<Rightarrow> store \<Rightarrow> (string \<times> peer) list" where
  "matches_of tab query states s =
     filter (peer_matches tab (trim_space query) states) (st_peers s)
     @ filter (peer_matches tab (trim_space query) states) (st_pending s)"

lemma exact_match_SomeD:
  "exact_match states query m = Some p \<Longrightarrow> mget m query = Some p \<and> state_allowed states p"
  by (auto simp: exact_match_def split: option.splits if_splits)

lemma resolve_locked_eq:
  "resolve_locked tab query states s =
     (case exact_match states (trim_space query) (st_pending s) of
        Some p \<Rightarrow> Inr (trim_space query, p)
      | None \<Rightarrow>
     (case exact_match states (trim_space query) (st_peers s) of
        Some p \<Rightarrow> Inr (trim_space query, p)
      | None \<Rightarrow>
     (case matches_of tab query states s of
        [] \<Rightarrow> Inl (if states = [Pending] then NoPendingMatch else NoPeerMatch)
      | [m] \<Rightarrow> Inr m
      | _ \<Rightarrow> Inl AmbiguousReference)))"
proof -
  have "states = [Pending] \<longleftrightarrow> length states = 1 \<and> hd states = Pending" by (cases states) auto
  moreover obtain ms where "matches_of tab query states s = ms" by simp
  ultimately show ?thesis
    unfolding resolve_locked_def Let_def matches_of_def [symmetric]
    by (cases ms rule: remdups_adj.cases) (auto split: option.split)
qed

lemma resolve_locked_InrD:
  assumes "wf_map (st_peers s)" "wf_map (st_pending s)"
    "resolve_locked tab query states s = Inr (pid, p)"
  shows "state_allowed states p \<and> (mget (st_pending s) pid = Some p \<or> mget (st_peers s) pid = Some p)"
proof -
  consider "exact_match states pid (st_pending s) = Some p"
    | "exact_match states pid (st_peers s) = Some p"
    | "matches_of tab query states s = [(pid, p)]"
    using assms(3) unfolding resolve_locked_eq
    by (auto split: option.splits list.splits)
  then show ?thesis
  proof cases
    case 3
    then have "(pid, p) \<in> set (matches_of tab query states s)" by simp
    with assms(1,2) show ?thesis
      by (auto simp: matches_of_def peer_matches_def dest: mem_mget)
  qed (auto dest: exact_match_SomeD)
qed

lemma save_locked_cases:
  obtains (failed) e d where "save_locked ev s = (Some (SaveFailed e), s\<lparr>st_disk := d\<rparr>)"
      "dk_target d = dk_target (st_disk s)"
  | (saved) b d where "save_locked ev s = (None, s\<lparr>st_disk := d\<rparr>)"
      "ev_encode ev (st_peers s) = Some b" "dk_target d = Some (b @ [CHR 0x0A])"
proof -
  obtain r ds where run: "save_file (ev_faults ev) (ev_encode ev (st_peers s)) (st_disk s) = (r, ds)"
    by fastforce
  show thesis
  proof (cases r)
    case None
    with save_file_last [OF run] obtain b where "ev_encode ev (st_peers s) = Some b"
        "dk_target (last ds) = Some (b @ [CHR 0x0A])" by auto
    with run None show thesis by (intro saved [of "last ds" b]) (simp_all add: save_locked_def)
  next
    case (Some e)
    with run save_file_last [OF run] show thesis
      by (intro failed [of e "last ds"]) (simp_all add: save_locked_def)
  qed
qed

section \<open>The invariant\<close>

text \<open>
  The maps have distinct keys equal to the peers' IDs; pending entries are in state pending and
  stored entries are not; no ephemeral pairing material is stored; a trusted device has no
  pending request; and the number of pending requests is within the cap.
\<close>

definition pending_entry_ok :: "string \<times> peer \<Rightarrow> bool" where
  "pending_entry_ok = (\<lambda>(pid, p). p_ID p = pid \<and> p_State p = Pending)"

definition stored_entry_ok :: "string \<times> peer \<Rightarrow> bool" where
  "stored_entry_ok = (\<lambda>(pid, p). p_ID p = pid \<and> p_State p \<noteq> Pending
     \<and> p_ComparisonCode p = [] \<and> p_ApprovalToken p = [])"

definition trusted_at :: "store \<Rightarrow> string \<Rightarrow> peer \<Rightarrow> bool" where
  "trusted_at s pid p \<longleftrightarrow> mget (st_peers s) pid = Some p \<and> p_State p = Trusted"

definition store_inv :: "store \<Rightarrow> bool" where
  "store_inv s \<longleftrightarrow> wf_map (st_peers s) \<and> wf_map (st_pending s)
     \<and> list_all pending_entry_ok (st_pending s) \<and> list_all stored_entry_ok (st_peers s)
     \<and> list_all (\<lambda>(pid, p). p_State p = Trusted \<longrightarrow> mget (st_pending s) pid = None) (st_peers s)
     \<and> length (st_pending s) \<le> st_maxPending s"

lemma store_invD:
  assumes "store_inv s"
  shows "wf_map (st_peers s)" "wf_map (st_pending s)" "length (st_pending s) \<le> st_maxPending s"
    "mget (st_pending s) pid = Some p \<Longrightarrow> p_ID p = pid \<and> p_State p = Pending"
    "mget (st_peers s) pid = Some p \<Longrightarrow> p_ID p = pid \<and> p_State p \<noteq> Pending
       \<and> p_ComparisonCode p = [] \<and> p_ApprovalToken p = []"
    "trusted_at s pid p \<Longrightarrow> mget (st_pending s) pid = None"
  using assms
  by (auto simp: store_inv_def list_all_iff pending_entry_ok_def stored_entry_ok_def trusted_at_def
      dest!: mget_Some_mem)

text \<open>A store that reads the same, with the same file and the same settings.\<close>

definition rolled_back :: "store \<Rightarrow> store \<Rightarrow> bool" where
  "rolled_back s s' \<longleftrightarrow> wf_map (st_peers s') \<and> wf_map (st_pending s')
     \<and> same_map (st_peers s') (st_peers s) \<and> same_map (st_pending s') (st_pending s)
     \<and> dk_target (st_disk s') = dk_target (st_disk s)
     \<and> st_pendingTTL s' = st_pendingTTL s \<and> st_maxPending s' = st_maxPending s"

lemma rolled_back_refl: "store_inv s \<Longrightarrow> rolled_back s s"
  by (simp add: rolled_back_def store_inv_def)

lemma rolled_back_mget:
  "rolled_back s s' \<Longrightarrow> mget (st_peers s') = mget (st_peers s)"
  "rolled_back s s' \<Longrightarrow> mget (st_pending s') = mget (st_pending s)"
  by (simp_all add: rolled_back_def same_map_def)

lemma rolled_back_inv:
  assumes inv: "store_inv s" and rb: "rolled_back s s'"
  shows "store_inv s'"
proof -
  have wf: "wf_map (st_peers s)" "wf_map (st_pending s)" "wf_map (st_peers s')"
      "wf_map (st_pending s')" "same_map (st_peers s') (st_peers s)"
      "same_map (st_pending s') (st_pending s)" "st_maxPending s' = st_maxPending s"
    using inv rb by (auto simp: store_inv_def rolled_back_def)
  have "mset (st_pending s') = mset (st_pending s)" using wf by (intro wf_same_map_mset)
  then have "length (st_pending s') = length (st_pending s)" by (metis size_mset)
  moreover have "set (st_peers s') = set (st_peers s)" "set (st_pending s') = set (st_pending s)"
    by (rule wf_same_map_set [OF wf(3,1,5)], rule wf_same_map_set [OF wf(4,2,6)])
  ultimately show ?thesis
    using inv wf(3,4,7) rolled_back_mget(2) [OF rb] unfolding store_inv_def list_all_iff by metis
qed

lemma prune_inv: "store_inv s \<Longrightarrow> store_inv (prune_pending now s)"
  by (auto simp: store_inv_def list_all_iff prune_pending_eq mget_filter
      intro: order_trans [OF length_filter_le] split: option.splits)

lemma restore_mput:
  "mget m pid = old \<Longrightarrow> mget (restore pid old (mput pid p m)) = mget m"
  by (auto simp: restore_def gomap_simps fun_upd_idem_iff split: option.splits)

lemma restore_mdel:
  "mget m pid = old \<Longrightarrow>
     mget (case old of Some q \<Rightarrow> mput pid q (mdel pid m) | None \<Rightarrow> mdel pid m) = mget m"
  by (auto simp: gomap_simps fun_upd_idem_iff split: option.splits)

lemma wf_restore: "wf_map m \<Longrightarrow> wf_map (restore pid old m)"
  by (simp add: restore_def split: option.splits)

section \<open>The operations, branch by branch\<close>

definition trusted_version :: "time \<Rightarrow> peer \<Rightarrow> peer" where
  "trusted_version now p = p\<lparr>p_State := Trusted, p_ComparisonCode := [], p_ApprovalToken := [],
                             p_UpdatedAt := now\<rparr>"

definition rejected_version :: "time \<Rightarrow> peer \<Rightarrow> peer" where
  "rejected_version now p = p\<lparr>p_State := Rejected, p_ComparisonCode := [], p_ApprovalToken := [],
                              p_UpdatedAt := now\<rparr>"

lemma Approve_cases:
  assumes inv: "store_inv s"
  obtains (refused) e s' where "Approve ev now now' query token fp code s = (Some e, s')"
      "rolled_back (prune_pending now s) s'"
  | (approved) pid p b d where
      "mget (st_pending (prune_pending now s)) pid = Some p"
      "resolve_locked (ev_fold ev) query [Pending] (prune_pending now s) = Inr (pid, p)"
      "token \<noteq> []" "token = p_ApprovalToken p" "fp = p_Fingerprint p" "code = p_ComparisonCode p"
      "Approve ev now now' query token fp code s =
         (None, (prune_pending now s)\<lparr>st_peers := mput pid (trusted_version now' p) (st_peers s),
            st_pending := mdel pid (st_pending (prune_pending now s)), st_disk := d\<rparr>)"
      "ev_encode ev (mput pid (trusted_version now' p) (st_peers s)) = Some b"
      "dk_target d = Some (b @ [CHR 0x0A])"
proof -
  let ?s = "prune_pending now s"
  note inv' = prune_inv [OF inv, of now]
  note wf = store_invD(1,2) [OF inv']
  show thesis
  proof (cases "resolve_locked (ev_fold ev) query [Pending] ?s")
    case (Inl e)
    with inv' show thesis
      by (intro refused [of e ?s]) (simp_all add: Approve_def rolled_back_refl)
  next
    case (Inr r)
    obtain pid p where r: "r = (pid, p)" by fastforce
    from resolve_locked_InrD [OF wf Inr [unfolded r]] store_invD(5) [OF inv', of pid p]
    have pd: "mget (st_pending ?s) pid = Some p" by (auto simp: state_allowed_def)
    show thesis
    proof (cases "token = [] \<or> token \<noteq> p_ApprovalToken p \<or> fp \<noteq> p_Fingerprint p
        \<or> code \<noteq> p_ComparisonCode p")
      case True
      with Inr r inv' show thesis
        by (intro refused [of RequestChangedOrExpired ?s])
          (auto simp: Approve_def rolled_back_refl)
    next
      case False
      let ?s2 = "?s\<lparr>st_pending := mdel pid (st_pending ?s),
                   st_peers := mput pid (trusted_version now' p) (st_peers s)\<rparr>"
      note unfold = Approve_def Let_def Inr r False trusted_version_def
      show thesis
      proof (cases rule: save_locked_cases [where ev = ev and s = ?s2])
        case (failed e d)
        let ?s3 = "?s2\<lparr>st_disk := d, st_peers := restore pid (mget (st_peers s) pid) (st_peers ?s2),
                      st_pending := mput pid p (st_pending ?s2)\<rparr>"
        have "Approve ev now now' query token fp code s = (Some (SaveFailed e), ?s3)"
          using failed False by (simp add: unfold)
        moreover have "rolled_back ?s ?s3"
          using wf failed(2) pd
          by (simp add: rolled_back_def same_map_def restore_mput wf_restore gomap_simps fun_upd_idem)
        ultimately show thesis by (rule refused)
      next
        case (saved b d)
        with Inr r False pd show thesis
          by (intro approved [of pid p d b]) (simp_all add: Approve_def Let_def trusted_version_def)
      qed
    qed
  qed
qed

lemma Reject_cases:
  assumes inv: "store_inv s"
  obtains (refused) e s' where "Reject ev now now' query s = (Some e, s')"
      "rolled_back (prune_pending now s) s'"
  | (rejected) pid p b d where
      "mget (st_pending (prune_pending now s)) pid = Some p \<or> mget (st_peers s) pid = Some p"
      "resolve_locked (ev_fold ev) query [] (prune_pending now s) = Inr (pid, p)"
      "Reject ev now now' query s =
         (None, (prune_pending now s)\<lparr>st_peers := mput pid (rejected_version now' p) (st_peers s),
            st_pending := mdel pid (st_pending (prune_pending now s)), st_disk := d\<rparr>)"
      "ev_encode ev (mput pid (rejected_version now' p) (st_peers s)) = Some b"
      "dk_target d = Some (b @ [CHR 0x0A])"
proof -
  let ?s = "prune_pending now s"
  note inv' = prune_inv [OF inv, of now]
  note wf = store_invD(1,2) [OF inv']
  show thesis
  proof (cases "resolve_locked (ev_fold ev) query [] ?s")
    case (Inl e)
    with inv' show thesis
      by (intro refused [of e ?s]) (simp_all add: Reject_def rolled_back_refl)
  next
    case (Inr r)
    obtain pid p where r: "r = (pid, p)" by fastforce
    from resolve_locked_InrD [OF wf Inr [unfolded r]]
    have found: "mget (st_pending ?s) pid = Some p \<or> mget (st_peers s) pid = Some p" by simp
    let ?s1 = "?s\<lparr>st_pending := mdel pid (st_pending ?s),
                 st_peers := mput pid (rejected_version now' p) (st_peers s)\<rparr>"
    show thesis
    proof (cases rule: save_locked_cases [where ev = ev and s = ?s1])
      case (failed e d)
      let ?s2 = "?s1\<lparr>st_disk := d, st_peers := restore pid (mget (st_peers s) pid) (st_peers ?s1),
          st_pending := (case mget (st_pending ?s) pid of Some q \<Rightarrow> mput pid q (mdel pid (st_pending ?s))
                         | None \<Rightarrow> mdel pid (st_pending ?s))\<rparr>"
      have "Reject ev now now' query s = (Some (SaveFailed e), ?s2)"
        using failed
        by (cases "mget (st_pending ?s) pid") (simp_all add: Reject_def Let_def Inr r rejected_version_def)
      moreover have "rolled_back ?s ?s2"
        using wf failed(2)
        by (auto simp: rolled_back_def same_map_def restore_mput wf_restore restore_mdel
            split: option.splits)
      ultimately show thesis by (rule refused)
    next
      case (saved b d)
      with Inr r found show thesis
        by (intro rejected [of pid p d b]) (simp_all add: Reject_def Let_def rejected_version_def)
    qed
  qed
qed

lemma Unpair_cases:
  assumes inv: "store_inv s"
  obtains (refused) e s' where "Unpair ev query s = (Some e, s')" "rolled_back s s'"
  | (unpaired) pid p b d where
      "mget (st_pending s) pid = Some p \<or> mget (st_peers s) pid = Some p"
      "resolve_locked (ev_fold ev) query [] s = Inr (pid, p)"
      "Unpair ev query s = (None, s\<lparr>st_peers := mdel pid (st_peers s),
          st_pending := mdel pid (st_pending s), st_disk := d\<rparr>)"
      "ev_encode ev (mdel pid (st_peers s)) = Some b" "dk_target d = Some (b @ [CHR 0x0A])"
proof -
  note wf = store_invD(1,2) [OF inv]
  show thesis
  proof (cases "resolve_locked (ev_fold ev) query [] s")
    case (Inl e)
    with inv show thesis by (intro refused [of e s]) (simp_all add: Unpair_def rolled_back_refl)
  next
    case (Inr r)
    obtain pid p where r: "r = (pid, p)" by fastforce
    from resolve_locked_InrD [OF wf Inr [unfolded r]]
    have found: "mget (st_pending s) pid = Some p \<or> mget (st_peers s) pid = Some p" by simp
    let ?undone = "\<lambda>m. case mget m pid of Some q \<Rightarrow> mput pid q (mdel pid m) | None \<Rightarrow> mdel pid m"
    let ?s1 = "s\<lparr>st_peers := mdel pid (st_peers s), st_pending := mdel pid (st_pending s)\<rparr>"
    show thesis
    proof (cases rule: save_locked_cases [where ev = ev and s = ?s1])
      case (failed e d)
      let ?s2 = "?s1\<lparr>st_disk := d, st_peers := ?undone (st_peers s), st_pending := ?undone (st_pending s)\<rparr>"
      have "Unpair ev query s = (Some (SaveFailed e), ?s2)"
        using failed
        by (cases "mget (st_pending s) pid"; cases "mget (st_peers s) pid")
          (simp_all add: Unpair_def Let_def Inr r)
      moreover have "rolled_back s ?s2"
        using wf failed(2) by (auto simp: rolled_back_def same_map_def restore_mdel split: option.splits)
      ultimately show thesis by (rule refused)
    next
      case (saved b d)
      with Inr r found show thesis
        by (intro unpaired [of pid p d b]) (simp_all add: Unpair_def Let_def)
    qed
  qed
qed

lemma UpdateName_cases:
  assumes inv: "store_inv s"
  obtains (refused) e s' where "UpdateName ev now pid name s = (Some e, s')" "rolled_back s s'"
  | (unchanged) p where "UpdateName ev now pid name s = (None, s)"
      "mget (st_peers s) pid = Some p" "p_Name p = NormalizeDeviceName name"
  | (renamed) p p' b d where "mget (st_peers s) pid = Some p"
      "p' = p\<lparr>p_Name := NormalizeDeviceName name, p_UpdatedAt := now\<rparr>"
      "UpdateName ev now pid name s = (None, s\<lparr>st_peers := mput pid p' (st_peers s), st_disk := d\<rparr>)"
      "ev_encode ev (mput pid p' (st_peers s)) = Some b" "dk_target d = Some (b @ [CHR 0x0A])"
proof -
  note wf = store_invD(1,2) [OF inv]
  note triv = refused [OF _ rolled_back_refl [OF inv]]
  let ?name = "NormalizeDeviceName name"
  consider "?name = [] \<or> mget (st_peers s) pid = None"
    | p where "?name \<noteq> []" "mget (st_peers s) pid = Some p" "p_Name p = ?name"
    | p where "?name \<noteq> []" "mget (st_peers s) pid = Some p" "p_Name p \<noteq> ?name"
    by (cases "mget (st_peers s) pid") auto
  then show thesis
  proof cases
    case 1
    then show thesis
      by (intro triv [of "if ?name = [] then NameEmpty else PeerNotKnown"])
        (auto simp: UpdateName_def Let_def)
  next
    case (2 p)
    then show thesis by (intro unchanged [of p]) (simp_all add: UpdateName_def Let_def)
  next
    case (3 p)
    let ?p = "p\<lparr>p_Name := ?name, p_UpdatedAt := now\<rparr>"
    let ?s1 = "s\<lparr>st_peers := mput pid ?p (st_peers s)\<rparr>"
    show thesis
    proof (cases rule: save_locked_cases [where ev = ev and s = ?s1])
      case (failed e d)
      let ?s2 = "?s1\<lparr>st_disk := d, st_peers := mput pid p (st_peers ?s1)\<rparr>"
      have "UpdateName ev now pid name s = (Some (SaveFailed e), ?s2)"
        using failed 3 by (simp add: UpdateName_def Let_def)
      moreover have "rolled_back s ?s2"
        using wf failed(2) 3 by (simp add: rolled_back_def same_map_def gomap_simps fun_upd_idem)
      ultimately show thesis by (rule refused)
    next
      case (saved b d)
      with 3 show thesis by (intro renamed [of p ?p d b]) (simp_all add: UpdateName_def Let_def)
    qed
  qed
qed

end
