(* ===== verification/Pairing_Trust.thy ===== *)
theory Pairing_Trust
  imports Pairing_Invariant
begin

text \<open>
  Histories of the trust store and what they establish: who becomes trusted, what a trusted
  entry pins, what is persisted, what expires, and what a reference resolves to. A history is
  a run of operations in any order, each with its own clock readings, random bytes and save
  faults, interleaved with re-walks of the maps (Go leaves their iteration order open).
\<close>

section \<open>Events and runs\<close>

datatype store_event =
    EvPut time time "string option" peer
  | EvApprove store_env time time string string string string
  | EvReject store_env time time string
  | EvUnpair store_env string
  | EvRename store_env time string string
  | EvLook time

fun store_apply :: "store_event \<Rightarrow> store \<Rightarrow> store" where
  "store_apply (EvPut now now' rnd p) s = snd (PutPending now now' rnd p s)"
| "store_apply (EvApprove ev now now' query token fp code) s =
     snd (Approve ev now now' query token fp code s)"
| "store_apply (EvReject ev now now' query) s = snd (Reject ev now now' query s)"
| "store_apply (EvUnpair ev query) s = snd (Unpair ev query s)"
| "store_apply (EvRename ev now pid name) s = snd (UpdateName ev now pid name s)"
| "store_apply (EvLook now) s = snd (ListPeers now s)"

inductive store_run :: "store_event list \<Rightarrow> store \<Rightarrow> store \<Rightarrow> bool" where
  start: "store_run [] s s"
| event: "store_run es s0 s \<Longrightarrow> store_run (es @ [e]) s0 (store_apply e s)"
| rewalk: "store_run es s0 s \<Longrightarrow> mset ps = mset (st_peers s) \<Longrightarrow> mset qs = mset (st_pending s)
     \<Longrightarrow> store_run es s0 (s\<lparr>st_peers := ps, st_pending := qs\<rparr>)"

section \<open>The invariant is kept\<close>

lemma state_names [simp]:
  "Trusted \<noteq> Pending" "Rejected \<noteq> Pending" "Rejected \<noteq> Trusted"
  "Pending \<noteq> Trusted" "Pending \<noteq> Rejected" "Trusted \<noteq> Rejected"
  by (simp_all add: Trusted_def Pending_def Rejected_def)

lemma trusted_version_simps [simp]:
  "p_ID (trusted_version t p) = p_ID p" "p_State (trusted_version t p) = Trusted"
  "p_Fingerprint (trusted_version t p) = p_Fingerprint p" "p_Name (trusted_version t p) = p_Name p"
  "p_ComparisonCode (trusted_version t p) = []" "p_ApprovalToken (trusted_version t p) = []"
  by (simp_all add: trusted_version_def)

lemma rejected_version_simps [simp]:
  "p_ID (rejected_version t p) = p_ID p" "p_State (rejected_version t p) = Rejected"
  "p_Fingerprint (rejected_version t p) = p_Fingerprint p"
  "p_ComparisonCode (rejected_version t p) = []" "p_ApprovalToken (rejected_version t p) = []"
  by (simp_all add: rejected_version_def)

lemma inv_settle:
  assumes "store_inv s" "stored_entry_ok (pid, p)"
  shows "store_inv (s\<lparr>st_peers := mput pid p (st_peers s),
                     st_pending := mdel pid (st_pending s), st_disk := d\<rparr>)"
  using assms order_trans [OF length_mdel_le [of pid "st_pending s"]]
  by (auto simp: store_inv_def list_all_iff set_mdel gomap_simps dest!: mem_mputD)

lemma inv_forget:
  assumes "store_inv s"
  shows "store_inv (s\<lparr>st_peers := mdel pid (st_peers s),
                     st_pending := mdel pid (st_pending s), st_disk := d\<rparr>)"
  using assms length_mdel_le [of pid "st_pending s"]
  by (auto simp: store_inv_def list_all_iff set_mdel gomap_simps)

lemma inv_rename:
  assumes inv: "store_inv s" and p: "mget (st_peers s) pid = Some p"
    and p': "p' = p\<lparr>p_Name := n, p_UpdatedAt := t\<rparr>"
  shows "store_inv (s\<lparr>st_peers := mput pid p' (st_peers s), st_disk := d\<rparr>)"
proof -
  have "stored_entry_ok (pid, p')" "p_State p' = Trusted \<longrightarrow> mget (st_pending s) pid = None"
    using store_invD(5) [OF inv p] store_invD(6) [OF inv, of pid p] p
    by (auto simp: stored_entry_ok_def p' trusted_at_def)
  with inv show ?thesis by (simp add: store_inv_def list_all_mput)
qed

lemma PutPending_inv:
  assumes inv: "store_inv s"
  shows "store_inv (snd (PutPending now now' rnd p s))"
proof (cases rule: PutPending_cases [where now = now and now' = now' and rnd = rnd and p = p and s = s])
  case (refused e)
  with prune_inv [OF inv] show ?thesis by simp
next
  case (put token)
  let ?p = "p\<lparr>p_State := Pending, p_UpdatedAt := now', p_ApprovalToken := token\<rparr>"
  let ?s = "prune_pending now s"
  have "length (st_pending (snd (PutPending now now' rnd p s))) \<le> st_maxPending s"
    using pend.put_bounded [of s now "(now', rnd, p)"] inv by (simp add: store_inv_def)
  moreover have "list_all pending_entry_ok (mput (p_ID p) ?p (st_pending ?s))"
    using prune_inv [OF inv, of now]
    by (intro list_all_mput) (simp_all add: store_inv_def pending_entry_ok_def)
  moreover have "mget (mput (p_ID p) ?p (st_pending ?s)) a = None"
    if "(a, q) \<in> set (st_peers s)" "p_State q = Trusted" for a q
  proof -
    have a: "mget (st_peers s) a = Some q" using that store_invD(1) [OF inv] by (simp add: mem_mget)
    with put(3) that have "a \<noteq> p_ID p" by auto
    moreover have "mget (st_pending ?s) a = None"
      using store_invD(6) [OF prune_inv [OF inv]] a that by (simp add: trusted_at_def)
    ultimately show ?thesis by (simp add: gomap_simps)
  qed
  ultimately show ?thesis
    using prune_inv [OF inv, of now] put(2) by (auto simp: store_inv_def list_all_iff)
qed

lemma Approve_inv: "store_inv s \<Longrightarrow> store_inv (snd (Approve ev now now' query token fp code s))"
proof -
  assume inv: "store_inv s"
  note inv' = prune_inv [OF inv, of now]
  show ?thesis
  proof (cases rule: Approve_cases [OF inv, of ev now now' query token fp code])
    case (1 e s')
    with inv' show ?thesis by (simp add: rolled_back_inv)
  next
    case (2 pid p b d)
    with store_invD(4) [OF inv', of pid p]
      inv_settle [OF inv', of pid "trusted_version now' p" d]
    show ?thesis by (simp add: stored_entry_ok_def)
  qed
qed

lemma Reject_inv: "store_inv s \<Longrightarrow> store_inv (snd (Reject ev now now' query s))"
proof -
  assume inv: "store_inv s"
  note inv' = prune_inv [OF inv, of now]
  show ?thesis
  proof (cases rule: Reject_cases [OF inv, of ev now now' query])
    case (1 e s')
    with inv' show ?thesis by (simp add: rolled_back_inv)
  next
    case (2 pid p b d)
    then have "p_ID p = pid" using store_invD(4,5) [OF inv', of pid p] by auto
    with 2 inv_settle [OF inv', of pid "rejected_version now' p" d]
    show ?thesis by (simp add: stored_entry_ok_def)
  qed
qed

lemma Unpair_inv: "store_inv s \<Longrightarrow> store_inv (snd (Unpair ev query s))"
  by (rule Unpair_cases [of s ev query]) (simp_all add: inv_forget rolled_back_inv)

lemma UpdateName_inv: "store_inv s \<Longrightarrow> store_inv (snd (UpdateName ev now pid name s))"
  by (rule UpdateName_cases [of s ev now pid name])
    (simp_all add: inv_rename rolled_back_inv)

lemma store_apply_inv: "store_inv s \<Longrightarrow> store_inv (store_apply e s)"
  by (cases e) (simp_all add: PutPending_inv Approve_inv Reject_inv Unpair_inv UpdateName_inv
      ListPeers_def Let_def prune_inv)

lemma rewalk_rolled_back:
  assumes "store_inv s" "mset ps = mset (st_peers s)" "mset qs = mset (st_pending s)"
  shows "rolled_back s (s\<lparr>st_peers := ps, st_pending := qs\<rparr>)"
  using mset_wf_same_map [OF store_invD(1) [OF assms(1)] assms(2) [symmetric]]
    mset_wf_same_map [OF store_invD(2) [OF assms(1)] assms(3) [symmetric]]
  by (simp add: rolled_back_def same_map_def)

lemma store_run_inv: "store_run es s0 s \<Longrightarrow> store_inv s0 \<Longrightarrow> store_inv s"
  by (induction rule: store_run.induct)
    (auto intro: store_apply_inv rolled_back_inv rewalk_rolled_back)

section \<open>Where entries come from\<close>

lemma pruned_pending_SomeD:
  "store_inv s \<Longrightarrow> mget (st_pending (prune_pending now s)) pid = Some p \<Longrightarrow>
     mget (st_pending s) pid = Some p \<and> now < p_UpdatedAt p + st_pendingTTL s"
  by (auto simp: store_invD(2) mget_prune_pending split: option.splits if_splits)

text \<open>The pending entry that a request becomes (the three assignments of \<open>PutPending\<close>).\<close>

definition request_version :: "time \<Rightarrow> string \<Rightarrow> peer \<Rightarrow> peer" where
  "request_version now token q = q\<lparr>p_State := Pending, p_UpdatedAt := now, p_ApprovalToken := token\<rparr>"

lemma request_version_simps [simp]:
  "p_ID (request_version t token q) = p_ID q" "p_Fingerprint (request_version t token q) = p_Fingerprint q"
  "p_ComparisonCode (request_version t token q) = p_ComparisonCode q"
  "p_ApprovalToken (request_version t token q) = token" "p_UpdatedAt (request_version t token q) = t"
  by (simp_all add: request_version_def)

lemma apply_pending_origin:
  assumes inv: "store_inv s" and p: "mget (st_pending (store_apply e s)) pid = Some p"
  shows "mget (st_pending s) pid = Some p
    \<or> (\<exists>now now' rnd q token. e = EvPut now now' rnd q \<and> p_ID q = pid \<and> RandomNonce rnd = Some token
          \<and> p = request_version now' token q)"
proof (cases e)
  case (EvPut now now' rnd q)
  show ?thesis
    by (rule PutPending_cases [of now now' rnd q s])
      (use p inv EvPut in \<open>auto simp: gomap_simps request_version_def dest: pruned_pending_SomeD split: if_splits\<close>)
next
  case (EvApprove ev now now' query token fp code)
  show ?thesis
    by (rule Approve_cases [OF inv, of ev now now' query token fp code])
      (use p inv EvApprove in \<open>auto simp: gomap_simps rolled_back_mget
         dest: pruned_pending_SomeD split: if_splits\<close>)
next
  case (EvReject ev now now' query)
  show ?thesis
    by (rule Reject_cases [OF inv, of ev now now' query])
      (use p inv EvReject in \<open>auto simp: gomap_simps rolled_back_mget
         dest: pruned_pending_SomeD split: if_splits\<close>)
next
  case (EvUnpair ev query)
  show ?thesis
    by (rule Unpair_cases [OF inv, of ev query])
      (use p EvUnpair in \<open>auto simp: gomap_simps rolled_back_mget split: if_splits\<close>)
next
  case (EvRename ev now i name)
  show ?thesis
    by (rule UpdateName_cases [OF inv, of ev now i name])
      (use p EvRename in \<open>auto simp: rolled_back_mget\<close>)
next
  case (EvLook now)
  with p inv show ?thesis by (auto simp: ListPeers_def Let_def dest: pruned_pending_SomeD)
qed

text \<open>
  An approval that went through: its reference resolved to the pending request, which was young
  enough, and its token, fingerprint and code were the request's.
\<close>

definition approves :: "store_event \<Rightarrow> store \<Rightarrow> string \<Rightarrow> peer \<Rightarrow> bool" where
  "approves e s pid r \<longleftrightarrow>
     (\<exists>ev now now' query. e = EvApprove ev now now' query (p_ApprovalToken r) (p_Fingerprint r) (p_ComparisonCode r)
        \<and> p_ApprovalToken r \<noteq> [] \<and> mget (st_pending s) pid = Some r \<and> now < p_UpdatedAt r + st_pendingTTL s
        \<and> resolve_locked (ev_fold ev) query [Pending] (prune_pending now s) = Inr (pid, r)
        \<and> fst (Approve ev now now' query (p_ApprovalToken r) (p_Fingerprint r) (p_ComparisonCode r) s) = None)"

lemma apply_trust_origin:
  assumes inv: "store_inv s" and p: "trusted_at (store_apply e s) pid p"
  shows "(\<exists>q. trusted_at s pid q \<and> p_Fingerprint q = p_Fingerprint p)
    \<or> (\<exists>r. approves e s pid r \<and> p_Fingerprint r = p_Fingerprint p \<and> \<not> (\<exists>q. trusted_at s pid q))"
proof (cases e)
  case (EvPut now now' rnd q)
  show ?thesis
    by (rule PutPending_cases [of now now' rnd q s]) (use p EvPut in \<open>auto simp: trusted_at_def\<close>)
next
  case (EvApprove ev now now' query token fp code)
  show ?thesis
  proof (rule Approve_cases [OF inv, of ev now now' query token fp code])
    fix err s' assume "Approve ev now now' query token fp code s = (Some err, s')"
      "rolled_back (prune_pending now s) s'"
    with p EvApprove show ?thesis by (auto simp: trusted_at_def rolled_back_mget)
  next
    fix i q b d
    assume a: "mget (st_pending (prune_pending now s)) i = Some q"
      "resolve_locked (ev_fold ev) query [Pending] (prune_pending now s) = Inr (i, q)" "token \<noteq> []"
      "token = p_ApprovalToken q" "fp = p_Fingerprint q" "code = p_ComparisonCode q"
      "Approve ev now now' query token fp code s =
         (None, (prune_pending now s)\<lparr>st_peers := mput i (trusted_version now' q) (st_peers s),
            st_pending := mdel i (st_pending (prune_pending now s)), st_disk := d\<rparr>)"
    show ?thesis
    proof (cases "pid = i")
      case True
      with a p EvApprove have fp: "p_Fingerprint p = fp"
        by (auto simp: trusted_at_def gomap_simps)
      from pruned_pending_SomeD [OF inv a(1)] have
        "mget (st_pending s) i = Some q" "now < p_UpdatedAt q + st_pendingTTL s" by auto
      moreover from this(1) have "\<not> trusted_at s i r" for r using store_invD(6) [OF inv] by fastforce
      ultimately show ?thesis using True a EvApprove fp by (auto simp: approves_def)
    next
      case False
      with a p EvApprove show ?thesis by (simp add: trusted_at_def gomap_simps)
    qed
  qed
next
  case (EvReject ev now now' query)
  show ?thesis
    by (rule Reject_cases [OF inv, of ev now now' query])
      (use p EvReject in \<open>auto simp: trusted_at_def gomap_simps rolled_back_mget split: if_splits\<close>)
next
  case (EvUnpair ev query)
  show ?thesis
    by (rule Unpair_cases [OF inv, of ev query])
      (use p EvUnpair in \<open>auto simp: trusted_at_def gomap_simps rolled_back_mget split: if_splits\<close>)
next
  case (EvRename ev now i name)
  show ?thesis
    by (rule UpdateName_cases [OF inv, of ev now i name])
      (use p EvRename in \<open>auto simp: trusted_at_def gomap_simps rolled_back_mget split: if_splits\<close>)
next
  case (EvLook now)
  with p show ?thesis by (auto simp: trusted_at_def ListPeers_def Let_def)
qed

lemma run_pending_origin:
  assumes "store_run es s0 s" "store_inv s0" "st_pending s0 = []" "mget (st_pending s) pid = Some p"
  shows "\<exists>before t t' rnd q token between. es = before @ EvPut t t' rnd q # between \<and> p_ID q = pid
     \<and> RandomNonce rnd = Some token \<and> p = request_version t' token q"
  using assms
proof (induction arbitrary: p rule: store_run.induct)
  case (event es s0 s e)
  from apply_pending_origin [OF store_run_inv [OF event.hyps event.prems(1)] event.prems(3)]
  show ?case
  proof
    assume "mget (st_pending s) pid = Some p"
    from event.IH [OF event.prems(1,2) this] show ?case by (metis append_Cons append_assoc)
  qed blast
next
  case (rewalk es s0 s ps qs)
  have "mget qs = mget (st_pending s)"
    using rolled_back_mget(2) [OF rewalk_rolled_back [OF store_run_inv [OF rewalk.hyps(1)
      rewalk.prems(1)] rewalk.hyps(2,3)]] by simp
  with rewalk.prems rewalk.IH show ?case by simp
qed simp

text \<open>
  A history in which the user approved this device with this fingerprint: a request of the device
  with that fingerprint was put and given a fresh token, and later, within the time limit, an
  approval went through whose reference resolved to exactly that request and which carried its
  token, its fingerprint and its comparison code.
\<close>

definition approved_in :: "store \<Rightarrow> store_event list \<Rightarrow> string \<Rightarrow> string \<Rightarrow> bool" where
  "approved_in s0 es pid fp \<longleftrightarrow> (\<exists>before t t' rnd q token between ev now now' query later s.
     es = before @ EvPut t t' rnd q # between @ EvApprove ev now now' query token fp (p_ComparisonCode q) # later
     \<and> p_ID q = pid \<and> p_Fingerprint q = fp \<and> RandomNonce rnd = Some token \<and> token \<noteq> []
     \<and> store_run (before @ EvPut t t' rnd q # between) s0 s \<and> now < t' + st_pendingTTL s
     \<and> resolve_locked (ev_fold ev) query [Pending] (prune_pending now s) = Inr (pid, request_version t' token q)
     \<and> fst (Approve ev now now' query token fp (p_ComparisonCode q) s) = None)"

lemma approved_in_append:
  assumes "approved_in s0 es pid fp"
  shows "approved_in s0 (es @ [e]) pid fp"
proof -
  from assms obtain before t t' rnd q token between ev now now' query later s where *:
    "es = before @ EvPut t t' rnd q # between @ EvApprove ev now now' query token fp (p_ComparisonCode q) # later"
    "p_ID q = pid" "p_Fingerprint q = fp" "RandomNonce rnd = Some token" "token \<noteq> []"
    "store_run (before @ EvPut t t' rnd q # between) s0 s" "now < t' + st_pendingTTL s"
    "resolve_locked (ev_fold ev) query [Pending] (prune_pending now s) = Inr (pid, request_version t' token q)"
    "fst (Approve ev now now' query token fp (p_ComparisonCode q) s) = None"
    unfolding approved_in_def by blast
  from *(1) have "es @ [e] = before @ EvPut t t' rnd q # between
      @ EvApprove ev now now' query token fp (p_ComparisonCode q) # (later @ [e])" by simp
  with *(2-) show ?thesis unfolding approved_in_def by blast
qed

lemma approves_approved_in:
  assumes run: "store_run es s0 s" "store_inv s0" "st_pending s0 = []" and "approves e s pid r"
  shows "approved_in s0 (es @ [e]) pid (p_Fingerprint r)"
proof -
  from assms(4) obtain ev now now' query where e: "mget (st_pending s) pid = Some r"
      "e = EvApprove ev now now' query (p_ApprovalToken r) (p_Fingerprint r) (p_ComparisonCode r)"
      "p_ApprovalToken r \<noteq> []" "now < p_UpdatedAt r + st_pendingTTL s"
      "resolve_locked (ev_fold ev) query [Pending] (prune_pending now s) = Inr (pid, r)"
      "fst (Approve ev now now' query (p_ApprovalToken r) (p_Fingerprint r) (p_ComparisonCode r) s) = None"
    by (auto simp: approves_def)
  from run_pending_origin [OF run e(1)] obtain before t t' rnd q token between where
    o: "es = before @ EvPut t t' rnd q # between" "p_ID q = pid" "RandomNonce rnd = Some token"
      "r = request_version t' token q" by blast
  show ?thesis
    unfolding approved_in_def
    by (intro exI [of _ before] exI [of _ t] exI [of _ t'] exI [of _ rnd] exI [of _ q] exI [of _ token]
        exI [of _ between] exI [of _ ev] exI [of _ now] exI [of _ now'] exI [of _ query] exI [of _ "[]"]
        exI [of _ s]) (use o e run(1) in simp)
qed

section \<open>Properties\<close>

text \<open>
  C1. Trust comes only from the user's approval. In every history that starts from a store
  without pending requests, a device that is trusted with some fingerprint either was trusted
  with it at the start, or there is, in this order, a pairing request of this device with this
  fingerprint, which was given a fresh token, and an approval that succeeded within the time limit
  of the request: its reference resolved to that very request in the store as it was then, and
  it carried the request's token, its fingerprint and its comparison code.
\<close>

theorem trusted_only_by_approval:
  assumes "store_run es s0 s" "store_inv s0" "st_pending s0 = []" "trusted_at s pid p"
  shows "(\<exists>q. trusted_at s0 pid q \<and> p_Fingerprint q = p_Fingerprint p)
    \<or> approved_in s0 es pid (p_Fingerprint p)"
  using assms
proof (induction arbitrary: p rule: store_run.induct)
  case (event es s0 s e)
  have inv: "store_inv s" by (rule store_run_inv [OF event.hyps event.prems(1)])
  from apply_trust_origin [OF inv event.prems(3)] show ?case
  proof
    assume "\<exists>q. trusted_at s pid q \<and> p_Fingerprint q = p_Fingerprint p"
    then obtain q where q: "trusted_at s pid q" "p_Fingerprint q = p_Fingerprint p" by blast
    from event.IH [OF event.prems(1,2) q(1)] show ?case
      unfolding q(2) by (blast intro: approved_in_append)
  next
    assume "\<exists>r. approves e s pid r \<and> p_Fingerprint r = p_Fingerprint p \<and> \<not> (\<exists>q. trusted_at s pid q)"
    then obtain r where r: "approves e s pid r" "p_Fingerprint r = p_Fingerprint p" by blast
    from approves_approved_in [OF event.hyps event.prems(1,2) r(1)] show ?case by (simp add: r(2))
  qed
next
  case (rewalk es s0 s ps qs)
  have "mget ps = mget (st_peers s)"
    using rolled_back_mget(1) [OF rewalk_rolled_back [OF store_run_inv [OF rewalk.hyps(1)
      rewalk.prems(1)] rewalk.hyps(2,3)]] by simp
  with rewalk.prems have "trusted_at s pid p" by (simp add: trusted_at_def)
  with rewalk.prems rewalk.IH show ?case by blast
qed blast

text \<open>
  C4. Pinning: no operation changes the fingerprint of a device that is trusted before and
  after it. A changed identity is never silently accepted.
\<close>

theorem trusted_fingerprint_is_pinned:
  assumes "store_inv s" "trusted_at s pid p" "trusted_at (store_apply e s) pid p'"
  shows "p_Fingerprint p' = p_Fingerprint p"
  using apply_trust_origin [OF assms(1,3)] assms(2) by (auto simp: trusted_at_def)

fun store_outcome :: "store_event \<Rightarrow> store \<Rightarrow> store_error option" where
  "store_outcome (EvPut now now' rnd p) s =
     (case fst (PutPending now now' rnd p s) of Inl e \<Rightarrow> Some e | Inr _ \<Rightarrow> None)"
| "store_outcome (EvApprove ev now now' query token fp code) s =
     fst (Approve ev now now' query token fp code s)"
| "store_outcome (EvReject ev now now' query) s = fst (Reject ev now now' query s)"
| "store_outcome (EvUnpair ev query) s = fst (Unpair ev query s)"
| "store_outcome (EvRename ev now pid name) s = fst (UpdateName ev now pid name s)"
| "store_outcome (EvLook now) s = None"

text \<open>The store as the operation finds it after its own pruning.\<close>

fun event_view :: "store_event \<Rightarrow> store \<Rightarrow> store" where
  "event_view (EvPut now _ _ _) s = prune_pending now s"
| "event_view (EvApprove _ now _ _ _ _ _) s = prune_pending now s"
| "event_view (EvReject _ now _ _) s = prune_pending now s"
| "event_view (EvLook now) s = prune_pending now s"
| "event_view _ s = s"

lemma failed_rolled_back:
  assumes inv: "store_inv s" and err: "store_outcome e s = Some err"
  shows "rolled_back (event_view e s) (store_apply e s)"
proof (cases e)
  case (EvPut now now' rnd p)
  show ?thesis
    by (rule PutPending_cases [of now now' rnd p s])
      (use err EvPut prune_inv [OF inv] in \<open>auto simp: rolled_back_refl\<close>)
next
  case (EvApprove ev now now' query token fp code)
  show ?thesis
    by (rule Approve_cases [OF inv, of ev now now' query token fp code])
      (use err EvApprove in auto)
next
  case (EvReject ev now now' query)
  show ?thesis
    by (rule Reject_cases [OF inv, of ev now now' query]) (use err EvReject in auto)
next
  case (EvUnpair ev query)
  show ?thesis by (rule Unpair_cases [OF inv, of ev query]) (use err EvUnpair in auto)
next
  case (EvRename ev now pid name)
  show ?thesis by (rule UpdateName_cases [OF inv, of ev now pid name]) (use err EvRename in auto)
next
  case (EvLook now)
  with err show ?thesis by simp
qed

text \<open>
  C15. Errors are rolled back. When an operation reports an error, both maps read as they did
  once expired requests were pruned, and the file on disk has not changed.
\<close>

theorem failed_operation_is_rolled_back:
  assumes "store_inv s" "store_outcome e s = Some err"
  shows "mget (st_peers (store_apply e s)) = mget (st_peers s)
     \<and> mget (st_pending (store_apply e s)) = mget (st_pending (event_view e s))
     \<and> dk_target (st_disk (store_apply e s)) = dk_target (st_disk s)"
  using failed_rolled_back [OF assms] by (cases e) (auto simp: rolled_back_def same_map_def)

lemma apply_disk:
  assumes inv: "store_inv s"
  shows "dk_target (st_disk (store_apply e s)) = dk_target (st_disk s)
    \<or> (\<exists>(ev :: store_env) b. ev_encode ev (st_peers (store_apply e s)) = Some b
         \<and> dk_target (st_disk (store_apply e s)) = Some (b @ [CHR 0x0A]))"
proof (cases e)
  case (EvPut now now' rnd p)
  show ?thesis by (rule PutPending_cases [of now now' rnd p s]) (use EvPut in auto)
next
  case (EvApprove ev now now' query token fp code)
  show ?thesis
    by (rule Approve_cases [OF inv, of ev now now' query token fp code])
      (use EvApprove in \<open>auto simp: rolled_back_def\<close>)
next
  case (EvReject ev now now' query)
  show ?thesis
    by (rule Reject_cases [OF inv, of ev now now' query])
      (use EvReject in \<open>auto simp: rolled_back_def\<close>)
next
  case (EvUnpair ev query)
  show ?thesis
    by (rule Unpair_cases [OF inv, of ev query]) (use EvUnpair in \<open>auto simp: rolled_back_def\<close>)
next
  case (EvRename ev now pid name)
  show ?thesis
    by (rule UpdateName_cases [OF inv, of ev now pid name])
      (use EvRename in \<open>auto simp: rolled_back_def\<close>)
next
  case (EvLook now)
  then show ?thesis by (simp add: ListPeers_def Let_def)
qed

text \<open>
  What reaches the disk. If an operation changes the file, the new content is the encoding
  of the peers it leaves in memory, and none of these carries a pending state, a comparison
  code or an approval token: pending requests and their secrets are never written.
\<close>

theorem pending_is_never_persisted:
  assumes "store_inv s" "dk_target (st_disk (store_apply e s)) \<noteq> dk_target (st_disk s)"
  shows "\<exists>(ev :: store_env) b. ev_encode ev (st_peers (store_apply e s)) = Some b
      \<and> dk_target (st_disk (store_apply e s)) = Some (b @ [CHR 0x0A])
      \<and> list_all (\<lambda>(pid, p). p_State p \<noteq> Pending \<and> p_ComparisonCode p = [] \<and> p_ApprovalToken p = [])
           (st_peers (store_apply e s))"
proof -
  have "list_all stored_entry_ok (st_peers (store_apply e s))"
    using store_apply_inv [OF assms(1)] by (simp add: store_inv_def)
  then have "list_all (\<lambda>(pid, p). p_State p \<noteq> Pending \<and> p_ComparisonCode p = []
      \<and> p_ApprovalToken p = []) (st_peers (store_apply e s))"
    by (auto simp: list_all_iff stored_entry_ok_def)
  with apply_disk [OF assms(1), of e] assms(2) show ?thesis by blast
qed

text \<open>
  What an approval that succeeds has checked and done: the reference resolved to a pending
  request that is younger than the five-minute limit, the caller's token, fingerprint and code
  are exactly that request's, the request is gone, and the device is trusted under the
  request's ID, name and fingerprint. An expired or refreshed request cannot be approved.
\<close>

theorem successful_approval:
  assumes "store_inv s" "fst (Approve ev now now' query token fp code s) = None"
  shows "\<exists>pid p. mget (st_pending s) pid = Some p \<and> now < p_UpdatedAt p + st_pendingTTL s
    \<and> token \<noteq> [] \<and> token = p_ApprovalToken p \<and> fp = p_Fingerprint p \<and> code = p_ComparisonCode p
    \<and> mget (st_pending (snd (Approve ev now now' query token fp code s))) pid = None
    \<and> trusted_at (snd (Approve ev now now' query token fp code s)) pid
        \<lparr>p_ID = pid, p_Name = p_Name p, p_Fingerprint = fp, p_State = Trusted,
         p_ComparisonCode = [], p_ApprovalToken = [], p_UpdatedAt = now'\<rparr>"
proof (rule Approve_cases [OF assms(1), of ev now now' query token fp code])
  fix pid p b d
  assume a: "mget (st_pending (prune_pending now s)) pid = Some p" "token \<noteq> []"
    "token = p_ApprovalToken p" "fp = p_Fingerprint p" "code = p_ComparisonCode p"
    "Approve ev now now' query token fp code s =
       (None, (prune_pending now s)\<lparr>st_peers := mput pid (trusted_version now' p) (st_peers s),
          st_pending := mdel pid (st_pending (prune_pending now s)), st_disk := d\<rparr>)"
  from pruned_pending_SomeD [OF assms(1) a(1)]
  have p: "mget (st_pending s) pid = Some p" "now < p_UpdatedAt p + st_pendingTTL s" by auto
  with store_invD(4) [OF assms(1)] have "p_ID p = pid" by auto
  then have "trusted_version now' p = \<lparr>p_ID = pid, p_Name = p_Name p, p_Fingerprint = fp,
      p_State = Trusted, p_ComparisonCode = [], p_ApprovalToken = [], p_UpdatedAt = now'\<rparr>"
    by (simp add: trusted_version_def a(4))
  with a p show ?thesis by (intro exI [of _ pid] exI [of _ p]) (simp add: trusted_at_def gomap_simps)
qed (use assms(2) in simp)

section \<open>A sample history\<close>

definition sample_env :: store_env where
  "sample_env = \<lparr>ev_encode = \<lambda>m. Some (concat (map fst m)), ev_faults = no_faults, ev_fold = \<lambda>r. r\<rparr>"

definition empty_store :: store where
  "empty_store = \<lparr>st_disk = \<lparr>dk_target = None, dk_temps = []\<rparr>, st_peers = [], st_pending = [],
     st_pendingTTL = defaultPendingTTL, st_maxPending = defaultMaxPending\<rparr>"

definition sample_request :: peer where
  "sample_request = \<lparr>p_ID = ''a'', p_Name = ''A'', p_Fingerprint = ''ff'', p_State = [],
     p_ComparisonCode = ''code'', p_ApprovalToken = [], p_UpdatedAt = 0\<rparr>"

definition sample_put :: store_event where
  "sample_put = EvPut 1 2 (Some ''r'') sample_request"

definition sample_approve :: store_event where
  "sample_approve = EvApprove sample_env 3 4 ''a'' ''72'' ''ff'' ''code''"

definition sample_pending_store :: store where
  "sample_pending_store = empty_store\<lparr>st_pending := [(''a'', sample_request\<lparr>p_State := Pending,
     p_UpdatedAt := 2, p_ApprovalToken := ''72''\<rparr>)]\<rparr>"

definition sample_trusted :: peer where
  "sample_trusted = \<lparr>p_ID = ''a'', p_Name = ''A'', p_Fingerprint = ''ff'', p_State = Trusted,
     p_ComparisonCode = [], p_ApprovalToken = [], p_UpdatedAt = 4\<rparr>"

definition sample_trusted_store :: store where
  "sample_trusted_store = empty_store\<lparr>st_peers := [(''a'', sample_trusted)],
     st_disk := \<lparr>dk_target = Some (''a'' @ [CHR 0x0A]), dk_temps = []\<rparr>\<rparr>"

lemma sample_put_eval: "store_apply sample_put empty_store = sample_pending_store"
  by code_simp

lemmas sample_eval = resolve_locked_def exact_match_def state_allowed_def trim_space_ascii
  save_locked_def save_file_def fill_temp_def write_temp_def rename_temp_def remove_temp_def no_faults_def
  sample_env_def empty_store_def prune_pending_def time_simps Let_def

lemma sample_approve_eval:
  "Approve sample_env 3 4 ''a'' ''72'' ''ff'' ''code'' sample_pending_store = (None, sample_trusted_store)"
  by (simp add: Approve_def sample_eval sample_pending_store_def sample_trusted_store_def
      sample_trusted_def sample_request_def defaultPendingTTL_def)

lemma sample_invs: "store_inv empty_store" "store_inv sample_pending_store" "store_inv sample_trusted_store"
  by code_simp+

lemma sample_run: "store_run [sample_put, sample_approve] empty_store sample_trusted_store"
proof -
  have "store_run ([] @ [sample_put]) empty_store sample_pending_store"
    using store_run.event [OF store_run.start, of sample_put empty_store] by (simp add: sample_put_eval)
  from store_run.event [OF this, of sample_approve] show ?thesis
    by (simp add: sample_approve_def sample_approve_eval)
qed

lemma sample_trusted_at: "trusted_at sample_trusted_store ''a'' sample_trusted"
  by (simp add: trusted_at_def sample_trusted_store_def sample_trusted_def)

theorem trusted_only_by_approval_witness:
  "approved_in empty_store [sample_put, sample_approve] ''a'' ''ff''"
proof -
  have "st_pending empty_store = []" "\<not> trusted_at empty_store ''a'' q" for q
    by (simp_all add: empty_store_def trusted_at_def)
  with trusted_only_by_approval [OF sample_run sample_invs(1) _ sample_trusted_at]
  show ?thesis by (simp add: sample_trusted_def)
qed

theorem trusted_fingerprint_is_pinned_witness:
  "p_Fingerprint sample_trusted = p_Fingerprint (sample_trusted\<lparr>p_Name := ''B'', p_UpdatedAt := 5\<rparr>)"
proof -
  have "trusted_at (store_apply (EvRename sample_env 5 ''a'' ''B'') sample_trusted_store) ''a''
      (sample_trusted\<lparr>p_Name := ''B'', p_UpdatedAt := 5\<rparr>)"
    by (simp add: UpdateName_def normalize_B save_locked_def save_file_def fill_temp_def
        write_temp_def rename_temp_def no_faults_def sample_env_def sample_trusted_store_def
        sample_trusted_def empty_store_def trusted_at_def Let_def)
  from trusted_fingerprint_is_pinned [OF sample_invs(3) sample_trusted_at this] show ?thesis by simp
qed

theorem failed_operation_is_rolled_back_witness:
  "mget (st_peers (snd (Unpair (sample_env\<lparr>ev_faults := no_faults\<lparr>sf_rename := True\<rparr>\<rparr>) ''a''
     sample_trusted_store))) = mget (st_peers sample_trusted_store)"
proof -
  let ?e = "EvUnpair (sample_env\<lparr>ev_faults := no_faults\<lparr>sf_rename := True\<rparr>\<rparr>) ''a''"
  have "store_outcome ?e sample_trusted_store = Some (SaveFailed RenameFailed)"
    by (simp add: Unpair_def sample_eval sample_trusted_store_def)
  from failed_operation_is_rolled_back [OF sample_invs(3) this] show ?thesis by simp
qed

theorem pending_is_never_persisted_witness:
  "\<exists>(ev :: store_env) b. ev_encode ev (st_peers sample_trusted_store) = Some b
     \<and> dk_target (st_disk sample_trusted_store) = Some (b @ [CHR 0x0A])"
proof -
  have eval: "store_apply sample_approve sample_pending_store = sample_trusted_store"
    by (simp add: sample_approve_def sample_approve_eval)
  have "dk_target (st_disk sample_trusted_store) \<noteq> dk_target (st_disk sample_pending_store)"
    by (simp add: sample_trusted_store_def sample_pending_store_def empty_store_def)
  with pending_is_never_persisted [OF sample_invs(2), of sample_approve] eval show ?thesis by auto
qed

theorem successful_approval_witness:
  "\<exists>p. mget (st_pending sample_pending_store) ''a'' = Some p \<and> p_ApprovalToken p = ''72''
     \<and> fst (Approve sample_env 3 4 ''a'' ''72'' ''ff'' ''code'' sample_pending_store) = None"
proof -
  have ok: "fst (Approve sample_env 3 4 ''a'' ''72'' ''ff'' ''code'' sample_pending_store) = None"
    by (simp add: sample_approve_eval)
  from successful_approval [OF sample_invs(2) ok] obtain pid p where
    "mget (st_pending sample_pending_store) pid = Some p" "''72'' = p_ApprovalToken p" by blast
  with ok show ?thesis
    by (auto simp: sample_pending_store_def split: if_splits)
qed

end
