(* ===== verification/Transport.thy ===== *)
theory Transport
  imports Identity Pairing_Trust
begin

text \<open>
  \<open>internal/transport/tls.go\<close>: the verification callbacks that replace the standard chain
  verification. TLS itself (that the handshake proves possession of the certificate's key and
  then calls \<open>VerifyConnection\<close>) is the standard library's; the callbacks are functions of the
  connection state, the trust store and the clock reading of \<open>verifySelfSigned\<close>.
\<close>

definition ALPNSync :: string where
  "ALPNSync = ''lanclip-sync/1''"

definition ALPNPair :: string where
  "ALPNPair = ''lanclip-pair/1''"

record connection_state =
  cs_PeerCertificates :: "certificate list"
  cs_NegotiatedProtocol :: string

datatype verify_error =
    OneCertificateRequired | CertMustUseEd25519 | CertOutsideValidity | InvalidSelfSigned
  | UnsupportedALPN | UntrustedIdentity string | IdentityMismatch string | PeerNotTrusted

definition verifySelfSigned :: "time \<Rightarrow> certificate \<Rightarrow> verify_error option" where
  "verifySelfSigned now c =
     (if (case cert_key c of Ed25519_Public _ \<Rightarrow> False | Other_Public \<Rightarrow> True) then Some CertMustUseEd25519
      else if time_before now (cert_not_before c) \<or> time_after now (cert_not_after c)
      then Some CertOutsideValidity
      else if \<not> cert_sig_ok c then Some InvalidSelfSigned
      else None)"

definition server_verify :: "time \<Rightarrow> store \<Rightarrow> connection_state \<Rightarrow> verify_error option" where
  "server_verify now s cs =
     (if length (cs_PeerCertificates cs) \<noteq> 1 then Some OneCertificateRequired
      else
        let c = hd (cs_PeerCertificates cs)
        in case verifySelfSigned now c of
             Some e \<Rightarrow> Some e
           | None \<Rightarrow>
               if cs_NegotiatedProtocol cs = ALPNPair then None
               else if cs_NegotiatedProtocol cs \<noteq> ALPNSync then Some UnsupportedALPN
               else
                 let fp = cert_fingerprint (cert_raw c)
                 in if TrustedFingerprint fp s = None then Some (UntrustedIdentity (take 16 fp))
                    else None)"

definition client_verify ::
  "time \<Rightarrow> store \<Rightarrow> string \<Rightarrow> string \<Rightarrow> connection_state \<Rightarrow> verify_error option" where
  "client_verify now s proto expected cs =
     (if length (cs_PeerCertificates cs) \<noteq> 1 then Some OneCertificateRequired
      else
        let c = hd (cs_PeerCertificates cs)
        in case verifySelfSigned now c of
             Some e \<Rightarrow> Some e
           | None \<Rightarrow>
               let fp = cert_fingerprint (cert_raw c)
               in if expected \<noteq> [] \<and> (length expected < 12 \<or> \<not> has_prefix fp expected)
                  then Some (IdentityMismatch (take 16 fp))
                  else if proto = ALPNSync \<and> TrustedFingerprint fp s = None then Some PeerNotTrusted
                  else None)"

section \<open>Properties\<close>

lemma TrustedFingerprint_Some:
  "TrustedFingerprint fp s \<noteq> None \<Longrightarrow> wf_map (st_peers s) \<Longrightarrow>
     \<exists>pid p. trusted_at s pid p \<and> p_Fingerprint p = fp"
proof -
  assume found: "TrustedFingerprint fp s \<noteq> None" and wf: "wf_map (st_peers s)"
  then obtain pid p where "(pid, p) \<in> set (st_peers s)" "p_State p = Trusted" "p_Fingerprint p = fp"
    by (auto simp: TrustedFingerprint_def find_None_iff)
  with wf show ?thesis by (auto simp: trusted_at_def dest: mem_mget)
qed

lemma verifySelfSigned_None:
  "verifySelfSigned now c = None \<longleftrightarrow> (\<exists>k. cert_key c = Ed25519_Public k) \<and> cert_not_before c \<le> now
     \<and> now \<le> cert_not_after c \<and> cert_sig_ok c"
  by (auto simp: verifySelfSigned_def time_simps split: public_key.splits)

text \<open>
  C9. No connection without a verified identity. If either side's callback accepts, the peer
  presented exactly one certificate, with an Ed25519 key, inside its validity period and
  correctly signed by its own key; and if the protocol is sync, the certificate's full
  SHA-256 fingerprint is that of a device the user approved (a stored entry in state trusted).
  On the client the fingerprint also extends the expected one, which is never shorter than 12
  hexadecimal digits.
\<close>

theorem accepted_connections_are_verified:
  assumes "wf_map (st_peers s)"
  shows "(server_verify now s cs = None \<longrightarrow>
      (\<exists>c k. cs_PeerCertificates cs = [c] \<and> cert_key c = Ed25519_Public k
        \<and> cert_not_before c \<le> now \<and> now \<le> cert_not_after c \<and> cert_sig_ok c
        \<and> (cs_NegotiatedProtocol cs = ALPNPair
           \<or> cs_NegotiatedProtocol cs = ALPNSync
             \<and> (\<exists>pid p. trusted_at s pid p \<and> p_Fingerprint p = cert_fingerprint (cert_raw c)))))
    \<and> (client_verify now s proto expected cs = None \<longrightarrow>
      (\<exists>c k. cs_PeerCertificates cs = [c] \<and> cert_key c = Ed25519_Public k
        \<and> cert_not_before c \<le> now \<and> now \<le> cert_not_after c \<and> cert_sig_ok c
        \<and> (expected = [] \<or> 12 \<le> length expected \<and> has_prefix (cert_fingerprint (cert_raw c)) expected)
        \<and> (proto = ALPNSync \<longrightarrow>
             (\<exists>pid p. trusted_at s pid p \<and> p_Fingerprint p = cert_fingerprint (cert_raw c)))))"
proof -
  have one: "length xs \<noteq> 1 \<or> (\<exists>c. xs = [c])" for xs :: "certificate list"
    by (cases xs rule: remdups_adj.cases) auto
  show ?thesis
    using one [of "cs_PeerCertificates cs"] TrustedFingerprint_Some [OF _ assms]
    by (auto simp: server_verify_def client_verify_def Let_def verifySelfSigned_None split: if_splits option.splits)
qed

theorem accepted_connections_are_verified_witness:
  "\<exists>pid p. trusted_at (sample_trusted_store\<lparr>st_peers := [(''a'', sample_trusted\<lparr>p_Fingerprint :=
      cert_fingerprint ''der''\<rparr>)]\<rparr>) pid p \<and> p_Fingerprint p = cert_fingerprint ''der''"
proof -
  let ?c = "\<lparr>cert_raw = ''der'', cert_cn = ''lanclip:a'', cert_key = Ed25519_Public ''k'',
     cert_not_before = 0, cert_not_after = 9, cert_sig_ok = True\<rparr>"
  let ?s = "sample_trusted_store\<lparr>st_peers := [(''a'', sample_trusted\<lparr>p_Fingerprint :=
      cert_fingerprint ''der''\<rparr>)]\<rparr>"
  let ?cs = "\<lparr>cs_PeerCertificates = [?c], cs_NegotiatedProtocol = ALPNSync\<rparr>"
  have "wf_map (st_peers ?s)" by (simp add: wf_map_def)
  moreover have "server_verify 5 ?s ?cs = None"
    by (simp add: server_verify_def verifySelfSigned_def time_simps ALPNSync_def ALPNPair_def
        TrustedFingerprint_def sample_trusted_def)
  ultimately show ?thesis
    using accepted_connections_are_verified [of ?s 5 ?cs "[]" "[]"]
    by (auto simp: ALPNSync_def ALPNPair_def)
qed

end
