(* ===== verification/Protocol.thy ===== *)
theory Protocol
  imports Runes "HOL-Library.Word"
begin

text \<open>
  \<open>internal/protocol/protocol.go\<close>: length-prefixed frames of JSON messages.

  A reader is the list of chunks its successive \<open>Read\<close> calls deliver (how the network cut the
  stream), ending in EOF; \<open>io.ReadFull\<close> is written over it. A writer is a state with a step
  function that answers each \<open>Write\<close> call with a byte count and possibly an error. The JSON
  encoder and decoder of \<open>encoding/json\<close> are the arguments \<open>marshal\<close> and \<open>unmarshal\<close>.
\<close>

section \<open>Messages\<close>

record message =
  m_Type :: string
  m_Protocol :: int
  m_DeviceID :: string
  m_Name :: string
  m_EventID :: string
  m_MIME :: string
  m_Text :: string
  m_Nonce :: string
  m_Code :: string
  m_Fingerprint :: string
  m_ErrorCode :: string

definition Version :: int where
  "Version = 1"

definition DefaultMaxFrame :: nat where
  "DefaultMaxFrame = 7 * 2 ^ 20"

definition empty_message :: message where
  "empty_message = \<lparr>m_Type = [], m_Protocol = 0, m_DeviceID = [], m_Name = [], m_EventID = [],
     m_MIME = [], m_Text = [], m_Nonce = [], m_Code = [], m_Fingerprint = [], m_ErrorCode = []\<rparr>"

datatype write_error = MarshalError | FrameExceeds | WriteFailed string | ShortWrite

datatype read_error =
    EOF | UnexpectedEOF | InvalidFrameLength nat | NotUTF8 | MalformedJSON
  | UnsupportedProtocol int | TypeRequired

section \<open>Big-endian lengths\<close>

definition put_uint32 :: "32 word \<Rightarrow> string" where
  "put_uint32 n = [char_of (unat (drop_bit 24 n) mod 256), char_of (unat (drop_bit 16 n) mod 256),
     char_of (unat (drop_bit 8 n) mod 256), char_of (unat n mod 256)]"

definition get_uint32 :: "string \<Rightarrow> 32 word" where
  "get_uint32 h = word_of_nat (of_char (h ! 0) * 2 ^ 24 + of_char (h ! 1) * 2 ^ 16
     + of_char (h ! 2) * 2 ^ 8 + of_char (h ! 3))"

section \<open>Writing\<close>

text \<open>A writer answers a call with the number of bytes taken and an error, if any.\<close>

type_synonym 'w writer = "'w \<Rightarrow> string \<Rightarrow> (int \<times> string option) \<times> 'w"

function writeAll :: "'w writer \<Rightarrow> 'w \<Rightarrow> string \<Rightarrow> write_error option \<times> 'w" where
  "writeAll step w b =
     (if length b > 0 then
        (case step w b of
           ((n, Some err), w') \<Rightarrow> (Some (WriteFailed err), w')
         | ((n, None), w') \<Rightarrow>
             if n \<le> 0 \<or> n > int (length b) then (Some ShortWrite, w')
             else writeAll step w' (drop (nat n) b))
      else (None, w))"
  by pat_completeness auto

termination
  by (relation "measure (\<lambda>(step, w, b). length b)") auto

declare writeAll.simps [simp del]

definition frame :: "string \<Rightarrow> string" where
  "frame b = put_uint32 (word_of_nat (length b)) @ b"

definition Write ::
  "(message \<Rightarrow> string option) \<Rightarrow> 'w writer \<Rightarrow> 'w \<Rightarrow> message \<Rightarrow> nat \<Rightarrow> write_error option \<times> 'w" where
  "Write marshal step w m maxlen =
     (let m = (if m_Protocol m = 0 then m\<lparr>m_Protocol := Version\<rparr> else m)
      in case marshal m of
           None \<Rightarrow> (Some MarshalError, w)
         | Some b \<Rightarrow>
             if length b > maxlen then (Some FrameExceeds, w)
             else
               let hdr = put_uint32 (word_of_nat (length b))
               in (case writeAll step w hdr of
                     (Some err, w') \<Rightarrow> (Some err, w')
                   | (None, w') \<Rightarrow> writeAll step w' b))"

section \<open>Reading\<close>

fun read_full :: "nat \<Rightarrow> string list \<Rightarrow> read_error + (string \<times> string list)" where
  "read_full n [] = (if n = 0 then Inr ([], []) else Inl EOF)"
| "read_full n (c # cs) =
     (if n = 0 then Inr ([], c # cs)
      else if c = [] then read_full n cs
      else if length c \<le> n then
        (case read_full (n - length c) cs of
           Inl _ \<Rightarrow> Inl UnexpectedEOF
         | Inr (b, r) \<Rightarrow> Inr (c @ b, r))
      else Inr (take n c, drop n c # cs))"

definition Read ::
  "(string \<Rightarrow> message option) \<Rightarrow> string list \<Rightarrow> nat \<Rightarrow> read_error + (message \<times> string list)" where
  "Read unmarshal r maxlen =
     (case read_full 4 r of
        Inl e \<Rightarrow> Inl e
      | Inr (hdr, r) \<Rightarrow>
          let n = unat (get_uint32 hdr)
          in if n = 0 \<or> n > maxlen then Inl (InvalidFrameLength n)
             else (case read_full n r of
                 Inl e \<Rightarrow> Inl e
               | Inr (b, r) \<Rightarrow>
                   if \<not> utf8_valid b then Inl NotUTF8
                   else (case unmarshal b of
                       None \<Rightarrow> Inl MalformedJSON
                     | Some m \<Rightarrow>
                         if m_Protocol m \<noteq> Version then Inl (UnsupportedProtocol (m_Protocol m))
                         else if m_Type m = [] then Inl TypeRequired
                         else Inr (m, r))))"

text \<open>The messages a read loop gets from a connection, and the error that ends it.\<close>

function read_messages ::
  "(string \<Rightarrow> message option) \<Rightarrow> nat \<Rightarrow> string list \<Rightarrow> message list \<times> read_error" where
  "read_messages unmarshal maxlen r =
     (case Read unmarshal r maxlen of
        Inl e \<Rightarrow> ([], e)
      | Inr (m, r') \<Rightarrow> let (ms, e) = read_messages unmarshal maxlen r' in (m # ms, e))"
  by pat_completeness auto

lemma read_full_InrD:
  "read_full n cs = Inr (b, r) \<Longrightarrow> length b = n \<and> concat cs = b @ concat r"
proof (induction n cs arbitrary: b r rule: read_full.induct)
  case (1 n)
  then show ?case by (cases "n = 0") simp_all
next
  case (2 n c cs)
  consider "n = 0" | "n > 0" "c = []" | "n > 0" "c \<noteq> []" "length c \<le> n" | "n > 0" "c \<noteq> []" "n < length c"
    by linarith
  then show ?case
  proof cases
    case 3
    with 2(3) obtain b' where "read_full (n - length c) cs = Inr (b', r)" "b = c @ b'"
      by (auto split: sum.splits)
    with 2(2) [of b' r] 3 show ?thesis by simp
  next
    case 2
    with "2.IH"(1) "2.prems" show ?thesis by simp
  qed (use 2(3) in auto)
qed

lemma Read_shrinks:
  assumes "Read unmarshal r maxlen = Inr (m, r')"
  shows "length (concat r') < length (concat r)"
proof -
  obtain hdr r1 where hdr: "read_full 4 r = Inr (hdr, r1)"
    using assms by (auto simp: Read_def split: sum.splits)
  with assms obtain b where b: "read_full (unat (get_uint32 hdr)) r1 = Inr (b, r')"
    by (auto simp: Read_def Let_def split: sum.splits if_splits option.splits)
  show ?thesis
    using read_full_InrD [OF hdr] read_full_InrD [OF b] by auto
qed

termination read_messages
  by (relation "measure (\<lambda>(unmarshal, maxlen, r). length (concat r))") (auto simp: Read_shrinks)

declare read_messages.simps [simp del]

section \<open>Length prefixes\<close>

lemma recompose32:
  fixes n :: nat
  assumes "n < 4294967296"
  shows "n div 16777216 mod 256 * 16777216 + n div 65536 mod 256 * 65536 + n div 256 mod 256 * 256
      + n mod 256 = n"
proof -
  have "n = n div 256 * 256 + n mod 256" by simp
  moreover have "n div 256 = n div 65536 * 256 + n div 256 mod 256"
    using div_mult_mod_eq [of "n div 256" 256] by (simp add: div_mult2_eq [symmetric])
  moreover have "n div 65536 = n div 16777216 * 256 + n div 65536 mod 256"
    using div_mult_mod_eq [of "n div 65536" 256] by (simp add: div_mult2_eq [symmetric])
  moreover have "n div 16777216 mod 256 = n div 16777216" using assms by simp
  ultimately show ?thesis by linarith
qed

lemma get_put_uint32: "get_uint32 (put_uint32 n) = n"
proof -
  have "unat n < 4294967296" using unsigned_less [of n] by simp
  note sum = recompose32 [OF this]
  have "take_bit 32 (unat n) = unat n"
    using \<open>unat n < 4294967296\<close> by (simp add: take_bit_nat_eq_self)
  then have shift: "unat (drop_bit k n) = unat n div 2 ^ k" for k
    unfolding unsigned_drop_bit_eq by (simp add: drop_bit_eq_div)
  have "of_char (put_uint32 n ! 0) * 2 ^ 24 + of_char (put_uint32 n ! 1) * 2 ^ 16
      + of_char (put_uint32 n ! 2) * 2 ^ 8 + of_char (put_uint32 n ! 3) = unat n"
    unfolding put_uint32_def shift by (simp add: sum)
  then have "get_uint32 (put_uint32 n) = word_of_nat (unat n)"
    unfolding get_uint32_def by (rule arg_cong)
  then show ?thesis by simp
qed

lemma length_put_uint32 [simp]: "length (put_uint32 n) = 4"
  by (simp add: put_uint32_def)

lemma length_frame [simp]: "length (frame b) = 4 + length b"
  by (simp add: frame_def)

section \<open>Reading across chunk boundaries\<close>

lemma read_full_some:
  "n \<le> length (concat cs) \<Longrightarrow>
     \<exists>r. read_full n cs = Inr (take n (concat cs), r) \<and> concat r = drop n (concat cs)"
proof (induction n cs rule: read_full.induct)
  case (2 n c cs)
  consider "n = 0" | "n > 0" "c = []" | "n > 0" "c \<noteq> []" "length c \<le> n" | "n > 0" "c \<noteq> []" "n < length c"
    by linarith
  then show ?case
  proof cases
    case 2
    with "2.IH"(1) "2.prems" show ?thesis by simp
  next
    case 3
    with "2.prems" have "n - length c \<le> length (concat cs)" by simp
    with "2.IH"(2) 3 obtain r where "read_full (n - length c) cs = Inr (take (n - length c) (concat cs), r)"
        "concat r = drop (n - length c) (concat cs)" by auto
    with 3 show ?thesis by simp
  qed auto
qed simp

lemma read_full_short: "length (concat cs) < n \<Longrightarrow> \<exists>e. read_full n cs = Inl e"
proof (cases "read_full n cs")
  case (Inr x)
  then obtain b r where "read_full n cs = Inr (b, r)" by (cases x) auto
  from read_full_InrD [OF this] show "length (concat cs) < n \<Longrightarrow> ?thesis" by simp
qed auto

text \<open>A frame that a message was written in.\<close>

definition framed :: "(message \<Rightarrow> string option) \<Rightarrow> (string \<Rightarrow> message option) \<Rightarrow> nat \<Rightarrow> message \<Rightarrow> bool" where
  "framed marshal unmarshal maxlen m \<longleftrightarrow> (\<exists>b. marshal m = Some b \<and> b \<noteq> [] \<and> length b \<le> maxlen
     \<and> utf8_valid b \<and> unmarshal b = Some m \<and> m_Protocol m = Version \<and> m_Type m \<noteq> [])"

lemma Read_frame:
  assumes "maxlen < 2 ^ 32" "concat cs = frame b @ rest" "b \<noteq> []" "length b \<le> maxlen" "utf8_valid b"
    "unmarshal b = Some m" "m_Protocol m = Version" "m_Type m \<noteq> []"
  shows "\<exists>r. Read unmarshal cs maxlen = Inr (m, r) \<and> concat r = rest"
proof -
  have len: "unat (word_of_nat (length b) :: 32 word) = length b"
    using assms(1,4) by (simp add: unsigned_of_nat take_bit_nat_eq_self)
  obtain r1 where r1: "read_full 4 cs = Inr (take 4 (concat cs), r1)" "concat r1 = drop 4 (concat cs)"
    using read_full_some [of 4 cs] assms(2) by auto
  then have hdr: "read_full 4 cs = Inr (put_uint32 (word_of_nat (length b)), r1)" "concat r1 = b @ rest"
    by (simp_all add: assms(2) frame_def)
  obtain r2 where r2: "read_full (length b) r1 = Inr (b, r2)" "concat r2 = rest"
    using read_full_some [of "length b" r1] hdr(2) by auto
  show ?thesis
    using assms(3-8) by (simp add: Read_def hdr(1) get_put_uint32 len r2)
qed

lemma Write_frame:
  assumes "marshal m = Some b" "m_Protocol m \<noteq> 0" "length b \<le> maxlen"
  shows "Write marshal step w m maxlen =
    (case writeAll step w (put_uint32 (word_of_nat (length b))) of
       (Some err, w') \<Rightarrow> (Some err, w') | (None, w') \<Rightarrow> writeAll step w' b)"
  using assms by (simp add: Write_def)

text \<open>A writer that records what it takes: each answer is scripted, the log keeps the bytes.\<close>

definition logs :: "'w writer \<Rightarrow> ('w \<Rightarrow> string) \<Rightarrow> bool" where
  "logs step log \<longleftrightarrow> (\<forall>w b. case step w b of ((n, err), w') \<Rightarrow>
     log w' = log w @ take (nat n) b)"

lemma writeAll_log:
  assumes "logs step log"
  shows "writeAll step w b = (err, w') \<Longrightarrow>
    (\<exists>k \<le> length b. log w' = log w @ take k b) \<and> (err = None \<longrightarrow> log w' = log w @ b)"
proof (induction "length b" arbitrary: w b rule: less_induct)
  case less
  show ?case
  proof (cases "b = []")
    case True
    with less.prems show ?thesis by (simp add: writeAll.simps [of step w "[]"])
  next
    case False
    obtain n e w1 where step: "step w b = ((n, e), w1)" by (metis prod.collapse)
    from assms step have log: "log w1 = log w @ take (nat n) b"
      unfolding logs_def by (metis (mono_tags, lifting) case_prod_conv)
    show ?thesis
    proof (cases "e = None \<and> 0 < n \<and> n \<le> int (length b)")
      case True
      then have rec: "writeAll step w1 (drop (nat n) b) = (err, w')"
        using less.prems False step by (simp add: writeAll.simps [of step w b])
      have "length (drop (nat n) b) < length b" using True False by simp
      from less.hyps [OF this rec] obtain k where
        k: "k \<le> length (drop (nat n) b)" "log w' = log w1 @ take k (drop (nat n) b)"
        and all: "err = None \<longrightarrow> log w' = log w1 @ drop (nat n) b" by blast
      have "log w' = log w @ take (nat n + k) b"
        using k(2) log by (simp add: take_add)
      moreover have "nat n + k \<le> length b"
        using k(1) True by (simp add: nat_le_iff le_diff_conv2)
      ultimately show ?thesis using all log by auto
    next
      case stop: False
      then have "w' = w1" "err \<noteq> None"
        using less.prems False step
        by (auto simp: writeAll.simps [of step w b] split: option.splits if_splits)
      moreover have "log w1 = log w @ take (min (nat n) (length b)) b"
        using log by (simp add: min_def)
      ultimately show ?thesis by (metis min.cobounded2)
    qed
  qed
qed

section \<open>Properties\<close>

lemma read_messages_frames:
  assumes "maxlen < 2 ^ 32" "list_all (framed marshal unmarshal maxlen) ms"
    "concat cs = concat (map (\<lambda>m. frame (the (marshal m))) ms)"
  shows "read_messages unmarshal maxlen cs = (ms, EOF)"
  using assms(2,3)
proof (induction ms arbitrary: cs)
  case Nil
  have "read_full 4 cs = Inl EOF"
    using Nil(2) by (induction cs) auto
  then show ?case by (simp add: read_messages.simps [of _ _ cs] Read_def)
next
  case (Cons m ms)
  from Cons.prems(1) obtain b where b: "marshal m = Some b" "b \<noteq> []" "length b \<le> maxlen" "utf8_valid b"
      "unmarshal b = Some m" "m_Protocol m = Version" "m_Type m \<noteq> []"
    by (auto simp: framed_def)
  have "concat cs = frame b @ concat (map (\<lambda>m. frame (the (marshal m))) ms)"
    using Cons.prems(2) b(1) by simp
  from Read_frame [of maxlen cs b _ unmarshal m, OF assms(1) this b(2-7)] obtain r where
    r: "Read unmarshal cs maxlen = Inr (m, r)" "concat r = concat (map (\<lambda>m. frame (the (marshal m))) ms)"
    by blast
  from Cons.IH [OF _ r(2)] Cons.prems(1) r(1) show ?case
    by (simp add: read_messages.simps [of _ _ cs])
qed

text \<open>
  C18. Framing is lossless however the network cuts the stream: whatever chunks a reader gets, if
  they concatenate to the frames of a list of messages, it reads exactly those messages, in
  order, and then the clean end of the stream. The JSON codec's law is that decoding an
  encoded message gives the message back.
\<close>

theorem frames_read_back:
  assumes "maxlen < 2 ^ 32" "list_all (framed marshal unmarshal maxlen) ms"
    "concat cs = concat (map (\<lambda>m. frame (the (marshal m))) ms)"
  shows "read_messages unmarshal maxlen cs = (ms, EOF)"
  using assms by (rule read_messages_frames)

text \<open>
  What is written is a frame, or an honest error. Over any writer that records the bytes it
  takes, however short its individual writes: if \<open>Write\<close> succeeds, exactly the length prefix and
  the encoding (protocol version filled in) have been written; if it fails, only a prefix of
  them; and a message over the limit writes nothing.
\<close>

theorem write_is_a_frame_or_an_error:
  assumes "logs step log" "marshal (if m_Protocol m = 0 then m\<lparr>m_Protocol := Version\<rparr> else m) = Some b"
    "Write marshal step w m maxlen = (err, w')"
  shows "(err = None \<longrightarrow> length b \<le> maxlen \<and> log w' = log w @ frame b)
    \<and> (\<exists>k. log w' = log w @ take k (frame b))
    \<and> (maxlen < length b \<longrightarrow> err = Some FrameExceeds \<and> w' = w)"
proof (cases "maxlen < length b")
  case True
  with assms(2,3) show ?thesis
    by (auto simp: Write_def intro: exI [of _ "0::nat"])
next
  case False
  let ?hdr = "put_uint32 (word_of_nat (length b))"
  obtain e1 w1 where hdr: "writeAll step w ?hdr = (e1, w1)" by fastforce
  note log1 = writeAll_log [OF assms(1) hdr]
  show ?thesis
  proof (cases e1)
    case None
    with hdr assms(2,3) False have body: "writeAll step w1 b = (err, w')"
      by (simp add: Write_def)
    from log1 None have "log w1 = log w @ ?hdr" by simp
    with writeAll_log [OF assms(1) body] obtain k where
      "log w' = (log w @ ?hdr) @ take k b" "err = None \<longrightarrow> log w' = (log w @ ?hdr) @ b" by metis
    then show ?thesis
      using False by (auto simp: frame_def intro!: exI [of _ "4 + k"])
  next
    case (Some e)
    with hdr assms(2,3) False have "err = Some e" "w' = w1" by (simp_all add: Write_def)
    moreover from log1 obtain k where "k \<le> 4" "log w1 = log w @ take k ?hdr" by auto
    ultimately show ?thesis
      using False by (auto simp: frame_def intro!: exI [of _ k])
  qed
qed

text \<open>
  A declared length is checked before anything is allocated for it: a frame whose length
  prefix is zero or above the limit is refused whatever follows, and a message is only ever
  returned with the supported protocol version and a type, from well-formed UTF-8 of at most
  the limit.
\<close>

theorem read_checks_before_accepting:
  "(\<forall>hdr rest n. length hdr = 4 \<and> unat (get_uint32 hdr) = n \<and> (n = 0 \<or> maxlen < n) \<longrightarrow>
      Read unmarshal ((hdr @ rest) # cs) maxlen = Inl (InvalidFrameLength n))
   \<and> (\<forall>m r. Read unmarshal cs maxlen = Inr (m, r) \<longrightarrow> m_Protocol m = Version \<and> m_Type m \<noteq> []
      \<and> (\<exists>hdr b. concat cs = hdr @ b @ concat r \<and> length hdr = 4 \<and> length b = unat (get_uint32 hdr)
          \<and> b \<noteq> [] \<and> length b \<le> maxlen \<and> utf8_valid b \<and> unmarshal b = Some m))"
proof (intro conjI allI impI)
  fix hdr rest :: string and n
  assume a: "length hdr = 4 \<and> unat (get_uint32 hdr) = n \<and> (n = 0 \<or> maxlen < n)"
  have "\<exists>r. read_full 4 ((hdr @ rest) # cs) = Inr (hdr, r)"
    using read_full_some [of 4 "(hdr @ rest) # cs"] a by auto
  with a show "Read unmarshal ((hdr @ rest) # cs) maxlen = Inl (InvalidFrameLength n)"
    by (auto simp: Read_def)
next
  fix m r
  assume read: "Read unmarshal cs maxlen = Inr (m, r)"
  then obtain hdr r1 where hdr: "read_full 4 cs = Inr (hdr, r1)"
    by (auto simp: Read_def split: sum.splits)
  with read obtain b where b: "read_full (unat (get_uint32 hdr)) r1 = Inr (b, r)"
      "unat (get_uint32 hdr) \<noteq> 0" "unat (get_uint32 hdr) \<le> maxlen" "utf8_valid b" "unmarshal b = Some m"
    and m: "m_Protocol m = Version" "m_Type m \<noteq> []"
    by (auto simp: Read_def Let_def split: sum.splits if_splits option.splits)
  from m show "m_Protocol m = Version" "m_Type m \<noteq> []" .
  from read_full_InrD [OF hdr] read_full_InrD [OF b(1)] b(2-5)
  show "\<exists>hdr b. concat cs = hdr @ b @ concat r \<and> length hdr = 4 \<and> length b = unat (get_uint32 hdr)
          \<and> b \<noteq> [] \<and> length b \<le> maxlen \<and> utf8_valid b \<and> unmarshal b = Some m"
    by (intro exI [of _ hdr] exI [of _ b]) auto
qed

section \<open>Witnesses\<close>

definition sample_ping :: message where
  "sample_ping = empty_message\<lparr>m_Type := ''ping'', m_Protocol := 1\<rparr>"

definition sample_marshal :: "message \<Rightarrow> string option" where
  "sample_marshal m = (if m = sample_ping then Some ''B'' else None)"

definition sample_unmarshal :: "string \<Rightarrow> message option" where
  "sample_unmarshal b = (if b = ''B'' then Some sample_ping else None)"

lemma sample_framed: "framed sample_marshal sample_unmarshal 16 sample_ping"
proof -
  have "from_runes [66] = ''B''" by code_simp
  then have "utf8_valid ''B''" using utf8_valid_from_runes [of "[66]"] by (simp add: scalar_def)
  then show ?thesis
    by (simp add: framed_def sample_marshal_def sample_unmarshal_def sample_ping_def Version_def)
qed

theorem frames_read_back_witness:
  "read_messages sample_unmarshal 16 [[CHR 0x00], [CHR 0x00, CHR 0x00], [CHR 0x01, CHR ''B'']]
     = ([sample_ping], EOF)"
proof (rule frames_read_back)
  have "frame ''B'' = [CHR 0x00, CHR 0x00, CHR 0x00, CHR 0x01, CHR ''B'']"
    by code_simp
  then show "concat [[CHR 0x00], [CHR 0x00, CHR 0x00], [CHR 0x01, CHR ''B'']]
      = concat (map (\<lambda>m. frame (the (sample_marshal m))) [sample_ping])"
    by (simp add: sample_marshal_def)
qed (use sample_framed in simp_all)

text \<open>A writer that takes one byte of each call.\<close>

definition one_byte :: "string writer" where
  "one_byte w b = ((int (length (take 1 b)), None), w @ take 1 b)"

theorem write_is_a_frame_or_an_error_witness:
  "fst (Write sample_marshal one_byte [] sample_ping 16) = None
   \<and> snd (Write sample_marshal one_byte [] sample_ping 16) = frame ''B''"
proof -
  have log: "logs one_byte (\<lambda>w. w)" by (auto simp: logs_def one_byte_def min_def)
  have marshal: "sample_marshal (if m_Protocol sample_ping = 0 then sample_ping\<lparr>m_Protocol := Version\<rparr>
      else sample_ping) = Some ''B''"
    by (simp add: sample_marshal_def sample_ping_def)
  have ok: "fst (Write sample_marshal one_byte [] sample_ping 16) = None"
    by (simp add: Write_def sample_marshal_def sample_ping_def put_uint32_def one_byte_def
        writeAll.simps)
  obtain err w' where wr: "Write sample_marshal one_byte [] sample_ping 16 = (err, w')" by fastforce
  from write_is_a_frame_or_an_error [where log = "\<lambda>w. w", OF log marshal wr] ok wr
  show ?thesis by simp
qed

theorem read_checks_before_accepting_witness:
  "Read sample_unmarshal [[CHR 0x00, CHR 0x00, CHR 0x01, CHR 0x00] @ ''junk''] 16 = Inl (InvalidFrameLength 256)"
proof -
  have "length [CHR 0x00, CHR 0x00, CHR 0x01, CHR 0x00] = 4
      \<and> unat (get_uint32 [CHR 0x00, CHR 0x00, CHR 0x01, CHR 0x00]) = 256"
    by (simp add: get_uint32_def)
  with conjunct1 [OF read_checks_before_accepting [of 16 sample_unmarshal "[]"], rule_format,
      of "[CHR 0x00, CHR 0x00, CHR 0x01, CHR 0x00]" 256 "''junk''"]
  show ?thesis by simp
qed

end
