(* ===== verification/Pairing_Code.thy ===== *)
theory Pairing_Code
  imports Digest
begin

text \<open>
  The six-word comparison code (\<open>internal/pairing/store.go\<close>, \<open>ComparisonCode\<close>): the two parties'
  IDs, fingerprints and nonces are joined with NUL bytes, the smaller side first, hashed, and
  the first six digest bytes select words. The words are those of the source, in its order.
\<close>

definition code_words :: "string list" where
  "code_words = [''amber'', ''apple'', ''atlas'', ''birch'', ''blue'', ''bravo'', ''cedar'',
     ''coral'', ''delta'', ''ember'', ''falcon'', ''fern'', ''fjord'', ''gold'', ''harbor'',
     ''hazel'', ''indigo'', ''jade'', ''kiwi'', ''lake'', ''lemon'', ''lunar'', ''maple'',
     ''mesa'', ''navy'', ''olive'', ''onyx'', ''pearl'', ''pine'', ''quartz'', ''river'',
     ''robin'', ''sage'', ''silver'', ''solar'', ''stone'', ''tango'', ''terra'', ''tiger'',
     ''ultra'', ''violet'', ''willow'', ''winter'', ''xenon'', ''yellow'', ''zebra'']"

definition NUL :: string where
  "NUL = [CHR 0x00]"

definition pair_transcript ::
  "string \<Rightarrow> string \<Rightarrow> string \<Rightarrow> string \<Rightarrow> string \<Rightarrow> string \<Rightarrow> string" where
  "pair_transcript localID localFP localNonce remoteID remoteFP remoteNonce =
     (let a = [localID, localFP, localNonce];
          b = [remoteID, remoteFP, remoteNonce];
          (a, b) = (if join_with NUL b < join_with NUL a then (b, a) else (a, b))
      in join_with NUL (a @ b))"

definition ComparisonCode ::
  "string \<Rightarrow> string \<Rightarrow> string \<Rightarrow> string \<Rightarrow> string \<Rightarrow> string \<Rightarrow> string" where
  "ComparisonCode localID localFP localNonce remoteID remoteFP remoteNonce =
     (let h = sha256 (pair_transcript localID localFP localNonce remoteID remoteFP remoteNonce)
      in join_with '' ''
           (map (\<lambda>i. code_words ! (nat (of_char (h ! i)) mod length code_words)) [0..<6]))"

section \<open>The transcript\<close>

definition nul_free :: "string \<Rightarrow> bool" where
  "nul_free s \<longleftrightarrow> CHR 0x00 \<notin> set s"

lemma nul_split:
  "nul_free x \<Longrightarrow> nul_free y \<Longrightarrow> x @ NUL @ r = y @ NUL @ r' \<longleftrightarrow> x = y \<and> r = r'"
proof (induction x arbitrary: y)
  case Nil
  then show ?case by (cases y) (auto simp: NUL_def nul_free_def)
next
  case (Cons c x)
  then show ?case by (cases y) (auto simp: NUL_def nul_free_def)
qed

lemma join_nul_inj:
  assumes "length xs = length ys" "list_all nul_free xs" "list_all nul_free ys"
    "join_with NUL xs = join_with NUL ys"
  shows "xs = ys"
  using assms
proof (induction xs ys rule: list_induct2)
  case (Cons x xs y ys)
  show ?case
  proof (cases xs)
    case Nil
    with Cons show ?thesis by (cases ys) auto
  next
    case (Cons x' xs')
    then obtain y' ys' where ys: "ys = y' # ys'" using Cons.hyps by (cases ys) auto
    with Cons Cons.prems have "x @ NUL @ join_with NUL xs = y @ NUL @ join_with NUL ys" by simp
    with Cons.prems have "x = y" "join_with NUL xs = join_with NUL ys"
      using nul_split [of x y "join_with NUL xs" "join_with NUL ys"] by auto
    with Cons.IH Cons.prems show ?thesis by simp
  qed
qed simp

lemma pair_transcript_sorted:
  "pair_transcript a1 a2 a3 b1 b2 b3 =
     (let a = join_with NUL [a1, a2, a3]; b = join_with NUL [b1, b2, b3]
      in min a b @ NUL @ max a b)"
  by (auto simp: pair_transcript_def Let_def min_def max_def)

lemma comparison_code_commute:
  "ComparisonCode localID localFP localNonce remoteID remoteFP remoteNonce
     = ComparisonCode remoteID remoteFP remoteNonce localID localFP localNonce"
  by (simp only: ComparisonCode_def pair_transcript_sorted Let_def min.commute max.commute)

text \<open>
  Both machines show the same code: it does not matter which side computes it. The code is
  six words of the list, separated by single spaces.
\<close>

theorem comparison_code_symmetric:
  "ComparisonCode localID localFP localNonce remoteID remoteFP remoteNonce
     = ComparisonCode remoteID remoteFP remoteNonce localID localFP localNonce
   \<and> (\<exists>ws. length ws = 6 \<and> set ws \<subseteq> set code_words
        \<and> ComparisonCode localID localFP localNonce remoteID remoteFP remoteNonce = join_with '' '' ws)"
proof -
  have "code_words ! (n mod length code_words) \<in> set code_words" for n
    by (rule nth_mem) (simp add: code_words_def)
  then have "\<exists>ws. length ws = 6 \<and> set ws \<subseteq> set code_words
        \<and> ComparisonCode localID localFP localNonce remoteID remoteFP remoteNonce = join_with '' '' ws"
    unfolding ComparisonCode_def Let_def
    by (intro conjI exI [of _ "map (\<lambda>i. code_words ! _ i) _"] exI conjI refl)
      (simp_all add: image_subset_iff)
  with comparison_code_commute show ?thesis by blast
qed

text \<open>
  The code binds the whole transcript: if no part contains a NUL byte (IDs, fingerprints and
  honest nonces are hexadecimal text), two exchanges hash the same bytes only if they are the
  same two parties with the same IDs, fingerprints and nonces. So the bytes hashed separate any
  two exchanges that differ in an identity, a key or a nonce.
\<close>

theorem transcript_binds_both_parties:
  assumes "list_all nul_free [a1, a2, a3, b1, b2, b3]" "list_all nul_free [c1, c2, c3, d1, d2, d3]"
    "pair_transcript a1 a2 a3 b1 b2 b3 = pair_transcript c1 c2 c3 d1 d2 d3"
  shows "{(a1, a2, a3), (b1, b2, b3)} = {(c1, c2, c3), (d1, d2, d3)}"
proof -
  define ab where "ab = (if join_with NUL [b1, b2, b3] < join_with NUL [a1, a2, a3]
      then [b1, b2, b3, a1, a2, a3] else [a1, a2, a3, b1, b2, b3])"
  define cd where "cd = (if join_with NUL [d1, d2, d3] < join_with NUL [c1, c2, c3]
      then [d1, d2, d3, c1, c2, c3] else [c1, c2, c3, d1, d2, d3])"
  have "pair_transcript a1 a2 a3 b1 b2 b3 = join_with NUL ab"
      "pair_transcript c1 c2 c3 d1 d2 d3 = join_with NUL cd"
    by (simp_all add: pair_transcript_def ab_def cd_def Let_def)
  with assms have "ab = cd"
    by (intro join_nul_inj) (auto simp: ab_def cd_def)
  then show ?thesis
    by (auto simp: ab_def cd_def split: if_splits)
qed

theorem transcript_binds_both_parties_witness:
  "pair_transcript ''a'' ''f'' ''n'' ''b'' ''g'' ''m'' \<noteq> pair_transcript ''a'' ''f'' ''n'' ''b'' ''h'' ''m''"
proof
  assume "pair_transcript ''a'' ''f'' ''n'' ''b'' ''g'' ''m'' = pair_transcript ''a'' ''f'' ''n'' ''b'' ''h'' ''m''"
  from transcript_binds_both_parties [OF _ _ this] show False
    by (simp add: nul_free_def doubleton_eq_iff)
qed

end
