(* ===== verification/Pair_Session.thy ===== *)
theory Pair_Session
  imports Rate_Limit Discovery_Props Transport Protocol Pairing_Code
begin

text \<open>
  The pairing exchange of \<open>internal/daemon/daemon.go\<close>: \<open>handleIncomingPair\<close> on the side that is
  asked, \<open>pair\<close> on the side that asks, and \<open>ValidateCertificateIdentity\<close>.

  Each handler is a function of what it reads from outside: the clock, the random source, the
  outcome of dialling (the endpoint's TLS connection state, on which the client's verification
  callback then runs) and of the message exchange. A handler returns the message it sends, if
  any, and the new state of the components it calls.
\<close>

definition ValidateCertificateIdentity :: "certificate \<Rightarrow> string \<Rightarrow> bool" where
  "ValidateCertificateIdentity cert pid \<longleftrightarrow> cert_cn cert = ''lanclip:'' @ pid"

definition pair_message :: "string \<Rightarrow> identity \<Rightarrow> string \<Rightarrow> string \<Rightarrow> message" where
  "pair_message typ own name nonce = empty_message\<lparr>m_Type := typ, m_DeviceID := id_ID own,
     m_Name := name, m_Nonce := nonce, m_Fingerprint := identity_fingerprint own\<rparr>"

definition new_pending :: "string \<Rightarrow> string \<Rightarrow> string \<Rightarrow> string \<Rightarrow> peer" where
  "new_pending pid name fp code = \<lparr>p_ID = pid, p_Name = name, p_Fingerprint = fp, p_State = [],
     p_ComparisonCode = code, p_ApprovalToken = [], p_UpdatedAt = zero_time\<rparr>"

section \<open>The side that is asked\<close>

text \<open>
  \<open>offer\<close> is what \<open>protocol.Read\<close> returns, \<open>peerCert\<close> the certificate of the TLS connection;
  \<open>rnd\<close> feeds the nonce, \<open>now\<close>, \<open>now'\<close> and \<open>token\<close> are the store's. The answer is written when
  the request has been stored; the write's own error is ignored by the code.
\<close>

definition handleIncomingPair ::
  "identity \<Rightarrow> string \<Rightarrow> time \<Rightarrow> string \<Rightarrow> (read_error + message) \<Rightarrow> certificate \<Rightarrow> string option
     \<Rightarrow> time \<Rightarrow> time \<Rightarrow> string option \<Rightarrow> rate_limiter \<Rightarrow> store
     \<Rightarrow> message option \<times> rate_limiter \<times> store" where
  "handleIncomingPair own cfgName nowRate addr offer peerCert rnd now now' token l s =
     (let (allowed, l) = allowPairAttempt nowRate addr l
      in if \<not> allowed then (None, l, s)
         else case offer of
           Inl _ \<Rightarrow> (None, l, s)
         | Inr m \<Rightarrow>
             if m_Type m \<noteq> ''pair_offer'' then (None, l, s)
             else
               let actual = cert_fingerprint (cert_raw peerCert);
                   name = NormalizeDeviceName (m_Name m)
               in if \<not> ValidUUID (m_DeviceID m) \<or> name = [] \<or> m_Nonce m = []
                     \<or> m_Fingerprint m \<noteq> actual
                     \<or> \<not> ValidateCertificateIdentity peerCert (m_DeviceID m)
                  then (None, l, s)
                  else case RandomNonce rnd of
                    None \<Rightarrow> (None, l, s)
                  | Some nonce \<Rightarrow>
                      let code = ComparisonCode (id_ID own) (identity_fingerprint own) nonce
                                   (m_DeviceID m) actual (m_Nonce m)
                      in case PutPending now now' token (new_pending (m_DeviceID m) name actual code) s of
                           (Inl _, s) \<Rightarrow> (None, l, s)
                         | (Inr _, s) \<Rightarrow> (Some (pair_message ''pair_answer'' own cfgName nonce), l, s))"

section \<open>The side that asks\<close>

datatype pair_error =
    NotDiscovered string | PairEndpoint endpoint_error | PairCertificate | DialFailed string
  | PairVerify verify_error | PairRandom | ExchangeFailed string | InvalidPairingResponse
  | PairStore store_error

text \<open>
  \<open>certOK\<close> says whether the device's own key pair loads (\<open>transport.Certificate\<close>), \<open>dial\<close> gives the
  TLS connection state of an endpoint, \<open>exchange\<close> writes the offer and reads the answer.
\<close>

definition pair ::
  "identity \<Rightarrow> string \<Rightarrow> (rune \<Rightarrow> rune) \<Rightarrow> (string + net_interface list) \<Rightarrow> time \<Rightarrow> string \<Rightarrow> bool
     \<Rightarrow> (string \<Rightarrow> string + connection_state) \<Rightarrow> time \<Rightarrow> string option
     \<Rightarrow> (message \<Rightarrow> string + message) \<Rightarrow> time \<Rightarrow> time \<Rightarrow> string option \<Rightarrow> disc_service \<Rightarrow> store
     \<Rightarrow> (pair_error + peer) \<times> disc_service \<times> store" where
  "pair own cfgName tab ifaces nowFind query certOK dial nowVerify rnd exchange now now' token d s =
     (let (found, d) = Find tab nowFind query d
      in case found of
           None \<Rightarrow> (Inl (NotDiscovered query), d, s)
         | Some p \<Rightarrow>
      (case Endpoint tab ifaces p of
           Inl e \<Rightarrow> (Inl (PairEndpoint e), d, s)
         | Inr endpoint \<Rightarrow>
       if \<not> certOK then (Inl PairCertificate, d, s)
       else case dial endpoint of
           Inl e \<Rightarrow> (Inl (DialFailed e), d, s)
         | Inr cs \<Rightarrow>
      (case client_verify nowVerify s ALPNPair (dp_Fingerprint p) cs of
           Some e \<Rightarrow> (Inl (PairVerify e), d, s)
         | None \<Rightarrow>
      (case RandomNonce rnd of
           None \<Rightarrow> (Inl PairRandom, d, s)
         | Some nonce \<Rightarrow>
      (case exchange (pair_message ''pair_offer'' own cfgName nonce) of
           Inl e \<Rightarrow> (Inl (ExchangeFailed e), d, s)
         | Inr m \<Rightarrow>
      (let peerCert = hd (cs_PeerCertificates cs);
           actual = cert_fingerprint (cert_raw peerCert);
           name = NormalizeDeviceName (m_Name m)
       in if m_Type m \<noteq> ''pair_answer'' \<or> \<not> ValidUUID (m_DeviceID m) \<or> m_DeviceID m \<noteq> dp_ID p
             \<or> m_Fingerprint m \<noteq> actual \<or> \<not> has_prefix actual (dp_Fingerprint p)
             \<or> name = [] \<or> m_Nonce m = [] \<or> \<not> ValidateCertificateIdentity peerCert (m_DeviceID m)
          then (Inl InvalidPairingResponse, d, s)
          else
            let code = ComparisonCode (id_ID own) (identity_fingerprint own) nonce
                         (m_DeviceID m) (m_Fingerprint m) (m_Nonce m)
            in case PutPending now now' token (new_pending (m_DeviceID m) name actual code) s of
                 (Inl e, s) \<Rightarrow> (Inl (PairStore e), d, s)
               | (Inr q, s) \<Rightarrow> (Inr q, d, s)))))))"

section \<open>What the handlers guarantee\<close>

lemma handleIncomingPair_cases:
  obtains (nothing) l' where "handleIncomingPair own cfgName nowRate addr offer cert rnd now now' token l s = (None, l', s)"
  | (refused) l' where "handleIncomingPair own cfgName nowRate addr offer cert rnd now now' token l s
        = (None, l', prune_pending now s)"
  | (stored) l' m nonce tok q where "offer = Inr m" "fst (allowPairAttempt nowRate addr l)"
      "m_Type m = ''pair_offer''" "ValidUUID (m_DeviceID m)" "NormalizeDeviceName (m_Name m) \<noteq> []"
      "m_Nonce m \<noteq> []" "m_Fingerprint m = cert_fingerprint (cert_raw cert)"
      "ValidateCertificateIdentity cert (m_DeviceID m)" "RandomNonce rnd = Some nonce"
      "RandomNonce token = Some tok"
      "q = new_pending (m_DeviceID m) (NormalizeDeviceName (m_Name m)) (cert_fingerprint (cert_raw cert))
         (ComparisonCode (id_ID own) (identity_fingerprint own) nonce (m_DeviceID m)
            (cert_fingerprint (cert_raw cert)) (m_Nonce m))
         \<lparr>p_State := Pending, p_UpdatedAt := now', p_ApprovalToken := tok\<rparr>"
      "handleIncomingPair own cfgName nowRate addr offer cert rnd now now' token l s =
         (Some (pair_message ''pair_answer'' own cfgName nonce), l',
          (prune_pending now s)\<lparr>st_pending := mput (m_DeviceID m) q (st_pending (prune_pending now s))\<rparr>)"
proof -
  let ?h = "handleIncomingPair own cfgName nowRate addr offer cert rnd now now' token l s"
  obtain allowed l' where allow: "allowPairAttempt nowRate addr l = (allowed, l')" by fastforce
  show thesis
  proof (cases "\<exists>l'. ?h = (None, l', s)")
    case True
    then obtain l'' where "?h = (None, l'', s)" by blast
    then show thesis by (rule nothing)
  next
    case moved: False
    then obtain m where m: "offer = Inr m" and allowed: allowed
      by (cases offer) (auto simp: handleIncomingPair_def allow split: if_splits)
    let ?actual = "cert_fingerprint (cert_raw cert)" and ?name = "NormalizeDeviceName (m_Name m)"
    have ok: "m_Type m = ''pair_offer''" "ValidUUID (m_DeviceID m)" "?name \<noteq> []" "m_Nonce m \<noteq> []"
        "m_Fingerprint m = ?actual" "ValidateCertificateIdentity cert (m_DeviceID m)"
      using moved allowed by (auto simp: handleIncomingPair_def allow m Let_def split: if_splits)
    then obtain nonce where nonce: "RandomNonce rnd = Some nonce"
      using moved allowed
      by (cases "RandomNonce rnd") (auto simp: handleIncomingPair_def allow m Let_def)
    let ?code = "ComparisonCode (id_ID own) (identity_fingerprint own) nonce (m_DeviceID m) ?actual (m_Nonce m)"
    let ?p = "new_pending (m_DeviceID m) ?name ?actual ?code"
    have h: "?h = (case PutPending now now' token ?p s of (Inl _, s) \<Rightarrow> (None, l', s)
        | (Inr _, s) \<Rightarrow> (Some (pair_message ''pair_answer'' own cfgName nonce), l', s))"
      using ok nonce allowed by (simp add: handleIncomingPair_def allow m Let_def)
    show thesis
    proof (rule PutPending_cases [of now now' token ?p s])
      fix e assume "PutPending now now' token ?p s = (Inl e, prune_pending now s)"
      with h refused show thesis by simp
    next
      fix tok
      assume "RandomNonce token = Some tok"
        "PutPending now now' token ?p s = (Inr (?p\<lparr>p_State := Pending, p_UpdatedAt := now', p_ApprovalToken := tok\<rparr>),
          (prune_pending now s)\<lparr>st_pending := mput (p_ID ?p) (?p\<lparr>p_State := Pending, p_UpdatedAt := now',
             p_ApprovalToken := tok\<rparr>) (st_pending (prune_pending now s))\<rparr>)"
      with h show thesis
        using m ok nonce allowed allow by (intro stored) (auto simp: new_pending_def)
    qed
  qed
qed

lemma pair_InrE:
  assumes "pair own cfgName tab ifaces nowFind query certOK dial nowVerify rnd exchange now now' token d s = (Inr q, d', s')"
  obtains p endpoint cs nonce m tok where
    "fst (Find tab nowFind query d) = Some p" "Endpoint tab ifaces p = Inr endpoint" "dial endpoint = Inr cs"
    "client_verify nowVerify s ALPNPair (dp_Fingerprint p) cs = None" "RandomNonce rnd = Some nonce"
    "exchange (pair_message ''pair_offer'' own cfgName nonce) = Inr m" "m_Type m = ''pair_answer''"
    "ValidUUID (m_DeviceID m)" "m_DeviceID m = dp_ID p"
    "m_Fingerprint m = cert_fingerprint (cert_raw (hd (cs_PeerCertificates cs)))"
    "has_prefix (m_Fingerprint m) (dp_Fingerprint p)" "NormalizeDeviceName (m_Name m) \<noteq> []" "m_Nonce m \<noteq> []"
    "ValidateCertificateIdentity (hd (cs_PeerCertificates cs)) (m_DeviceID m)" "RandomNonce token = Some tok"
    "q = new_pending (m_DeviceID m) (NormalizeDeviceName (m_Name m)) (m_Fingerprint m)
       (ComparisonCode (id_ID own) (identity_fingerprint own) nonce (m_DeviceID m) (m_Fingerprint m) (m_Nonce m))
       \<lparr>p_State := Pending, p_UpdatedAt := now', p_ApprovalToken := tok\<rparr>"
    "s' = (prune_pending now s)\<lparr>st_pending := mput (m_DeviceID m) q (st_pending (prune_pending now s))\<rparr>"
proof -
  obtain found d1 where find: "Find tab nowFind query d = (found, d1)" by fastforce
  from assms obtain p where p: "found = Some p"
    by (cases found) (simp_all add: pair_def find)
  from assms obtain endpoint where e: "Endpoint tab ifaces p = Inr endpoint"
    by (cases "Endpoint tab ifaces p") (simp_all add: pair_def find p)
  from assms have certOK by (cases certOK) (simp_all add: pair_def find p e)
  with assms obtain cs where cs: "dial endpoint = Inr cs"
    by (cases "dial endpoint") (simp_all add: pair_def find p e)
  from assms \<open>certOK\<close> have v: "client_verify nowVerify s ALPNPair (dp_Fingerprint p) cs = None"
    by (cases "client_verify nowVerify s ALPNPair (dp_Fingerprint p) cs")
      (simp_all add: pair_def find p e cs)
  from assms \<open>certOK\<close> obtain nonce where n: "RandomNonce rnd = Some nonce"
    by (cases "RandomNonce rnd") (simp_all add: pair_def find p e cs v)
  from assms \<open>certOK\<close> obtain m where m: "exchange (pair_message ''pair_offer'' own cfgName nonce) = Inr m"
    by (cases "exchange (pair_message ''pair_offer'' own cfgName nonce)")
      (simp_all add: pair_def find p e cs v n)
  let ?actual = "cert_fingerprint (cert_raw (hd (cs_PeerCertificates cs)))"
  let ?p = "new_pending (m_DeviceID m) (NormalizeDeviceName (m_Name m)) ?actual
       (ComparisonCode (id_ID own) (identity_fingerprint own) nonce (m_DeviceID m) (m_Fingerprint m) (m_Nonce m))"
  from assms \<open>certOK\<close> have ok: "m_Type m = ''pair_answer''" "ValidUUID (m_DeviceID m)" "m_DeviceID m = dp_ID p"
      "m_Fingerprint m = ?actual" "has_prefix ?actual (dp_Fingerprint p)" "NormalizeDeviceName (m_Name m) \<noteq> []"
      "m_Nonce m \<noteq> []" "ValidateCertificateIdentity (hd (cs_PeerCertificates cs)) (m_DeviceID m)"
    by (simp_all add: pair_def find p e cs v n m Let_def split: if_splits)
  have put: "(case PutPending now now' token ?p s of (Inl e, s) \<Rightarrow> (Inl (PairStore e), d1, s)
      | (Inr q, s) \<Rightarrow> (Inr q, d1, s)) = (Inr q, d', s')"
    using assms \<open>certOK\<close> ok by (simp add: pair_def find p e cs v n m Let_def)
  show thesis
    by (rule PutPending_cases [of now now' token ?p s])
      (use put ok find p e cs v n m in \<open>auto intro!: that [of p endpoint cs nonce m] simp: new_pending_def\<close>)
qed

section \<open>Two sample devices\<close>

definition sample_identity :: "char \<Rightarrow> string \<Rightarrow> identity" where
  "sample_identity c der = \<lparr>id_ID = sample_uuid c, id_Certificate = der,
     id_PrivateKey = Ed25519_Private ''seed'' ''k'', id_TLSCert = []\<rparr>"

definition sample_peer_cert :: "char \<Rightarrow> string \<Rightarrow> certificate" where
  "sample_peer_cert c der = \<lparr>cert_raw = der, cert_cn = ''lanclip:'' @ sample_uuid c,
     cert_key = Ed25519_Public ''k'', cert_not_before = 0, cert_not_after = 99, cert_sig_ok = True\<rparr>"

definition sample_answering :: "message \<Rightarrow> message option \<times> rate_limiter \<times> store" where
  "sample_answering offer = handleIncomingPair (sample_identity CHR ''2'' ''derB'') ''B'' 1 ''x'' (Inr offer)
     (sample_peer_cert CHR ''1'' ''derA'') (Some ''s'') 1 1 (Some ''t'') new_limiter empty_store"

definition sample_found :: disc_service where
  "sample_found = sample_service\<lparr>ds_peers := [(sample_uuid CHR ''2'', (sample_peer CHR ''2'' ''B'')
     \<lparr>dp_Fingerprint := take 16 (cert_fingerprint ''derB'')\<rparr>)]\<rparr>"

definition sample_asking :: "(pair_error + peer) \<times> disc_service \<times> store" where
  "sample_asking = pair (sample_identity CHR ''1'' ''derA'') ''B'' (\<lambda>r. r) (Inr [sample_iface]) 60 (sample_uuid CHR ''2'')
     True (\<lambda>_. Inr \<lparr>cs_PeerCertificates = [sample_peer_cert CHR ''2'' ''derB''], cs_NegotiatedProtocol = ALPNPair\<rparr>)
     5 (Some ''r'')
     (\<lambda>offer. case fst (sample_answering offer) of Some ans \<Rightarrow> Inr ans | None \<Rightarrow> Inl ''closed'')
     1 1 (Some ''u'') sample_found empty_store"

lemma length_cert_fingerprint [simp]: "length (cert_fingerprint der) = 64"
  by (simp add: cert_fingerprint_def)

lemma sample_first_attempt: "0 < now \<Longrightarrow> fst (allowPairAttempt now addr new_limiter)"
proof -
  assume "0 < now"
  note eq = allow_key_eq [OF new_limiter_ok this, of "source_of addr"]
  show ?thesis
    unfolding allowPairAttempt_eq eq
    by (simp add: Let_def rate_at_def live_rates_def current_global_def new_limiter_def zero_time_def)
qed

lemma put_empty_store:
  "PutPending now now' (Some t) p empty_store =
     (Inr (p\<lparr>p_State := Pending, p_UpdatedAt := now', p_ApprovalToken := hex_encode t\<rparr>),
      empty_store\<lparr>st_pending := [(p_ID p, p\<lparr>p_State := Pending, p_UpdatedAt := now',
        p_ApprovalToken := hex_encode t\<rparr>)]\<rparr>)"
  by (simp add: PutPending_def prune_pending_def empty_store_def defaultMaxPending_def
      RandomNonce_def Let_def)

lemma sample_answer:
  "nonce \<noteq> [] \<Longrightarrow> fst (sample_answering (pair_message ''pair_offer'' (sample_identity CHR ''1'' ''derA'') ''B'' nonce))
     = Some (pair_message ''pair_answer'' (sample_identity CHR ''2'' ''derB'') ''B'' (hex_encode ''s''))"
  using sample_valid(1) normalize_B sample_first_attempt [of 1 "''x''"]
  by (cases "allowPairAttempt 1 ''x'' new_limiter")
    (simp add: sample_answering_def handleIncomingPair_def Let_def pair_message_def empty_message_def
      sample_identity_def sample_peer_cert_def identity_fingerprint_def ValidateCertificateIdentity_def
      RandomNonce_def put_empty_store)

lemma sample_endpoint:
  "Endpoint (\<lambda>r. r) (Inr [sample_iface]) ((sample_peer CHR ''2'' ''B'')\<lparr>dp_Fingerprint := fp\<rparr>)
     = Inr ''192.168.1.20:9''"
  using sample_direct by (simp add: Endpoint_def sample_peer_def)

lemma sample_asks: "\<exists>q d' s'. sample_asking = (Inr q, d', s')"
proof -
  let ?p = "(sample_peer CHR ''2'' ''B'')\<lparr>dp_Fingerprint := take 16 (cert_fingerprint ''derB'')\<rparr>"
  have find: "Find (\<lambda>r. r) 60 (sample_uuid CHR ''2'') sample_found = (Some ?p, prune_peers 60 sample_found)"
    by (simp add: Find_def Let_def sample_found_def prune_peers_eq peer_live_def sample_peer_def)
  have "client_verify 5 empty_store ALPNPair (take 16 (cert_fingerprint ''derB''))
      \<lparr>cs_PeerCertificates = [sample_peer_cert CHR ''2'' ''derB''], cs_NegotiatedProtocol = ALPNPair\<rparr> = None"
    by (simp add: client_verify_def verifySelfSigned_def sample_peer_cert_def time_simps has_prefix_def
        ALPNPair_def ALPNSync_def)
  moreover have "hex_encode ''r'' \<noteq> []" "hex_encode ''s'' \<noteq> []" by code_simp+
  moreover have "dp_Fingerprint ?p = take 16 (cert_fingerprint ''derB'')" "dp_ID ?p = sample_uuid CHR ''2''"
    by (simp_all add: sample_peer_def)
  moreover have "hd (cs_PeerCertificates \<lparr>cs_PeerCertificates = [sample_peer_cert CHR ''2'' ''derB''],
      cs_NegotiatedProtocol = ALPNPair\<rparr>) = sample_peer_cert CHR ''2'' ''derB''"
      "cert_raw (sample_peer_cert CHR ''2'' ''derB'') = ''derB''"
      "ValidateCertificateIdentity (sample_peer_cert CHR ''2'' ''derB'') (sample_uuid CHR ''2'')"
      "id_ID (sample_identity c der) = sample_uuid c" "identity_fingerprint (sample_identity c der) = cert_fingerprint der"
      for c der
    by (simp_all add: sample_peer_cert_def ValidateCertificateIdentity_def sample_identity_def
        identity_fingerprint_def)
  ultimately show ?thesis
    using sample_valid(2) normalize_B sample_answer [of "hex_encode ''r''"]
    by (simp add: sample_asking_def pair_def find sample_endpoint RandomNonce_def pair_message_def
        empty_message_def put_empty_store has_prefix_def Let_def)
qed

section \<open>Properties\<close>

text \<open>
  C7. Both devices show the same thing. If a pairing request succeeds on the asking side, and the
  messages between the two reached the other side's handler unchanged, then each side holds a
  pending request for the other with the other's ID and true certificate fingerprint, and the
  two comparison codes are equal.
\<close>

theorem pairing_sides_agree:
  assumes dialled: "\<And>endpoint cs. dial endpoint = Inr cs \<Longrightarrow> cs_PeerCertificates cs = [certB]"
    and exchanged: "\<And>offer ans. exchange offer = Inr ans \<Longrightarrow>
      fst (handleIncomingPair b nameB nowRate addr (Inr offer) certA rndB nowB nowB' tokB lB sB) = Some ans"
    and run: "pair a nameA tab ifaces nowFind query certOK dial nowVerify rndA exchange nowA nowA' tokA d sA = (Inr q, d', sA')"
  shows "\<exists>nonce p. RandomNonce rndA = Some nonce
    \<and> mget (st_pending (snd (snd (handleIncomingPair b nameB nowRate addr
          (Inr (pair_message ''pair_offer'' a nameA nonce)) certA rndB nowB nowB' tokB lB sB)))) (id_ID a) = Some p
    \<and> mget (st_pending sA') (id_ID b) = Some q
    \<and> p_ComparisonCode p = p_ComparisonCode q
    \<and> p_ID q = id_ID b \<and> p_Fingerprint q = identity_fingerprint b
    \<and> identity_fingerprint b = cert_fingerprint (cert_raw certB)
    \<and> p_ID p = id_ID a \<and> p_Fingerprint p = identity_fingerprint a
    \<and> identity_fingerprint a = cert_fingerprint (cert_raw certA)"
proof -
  from run obtain dp endpoint cs nonce m tok where a: "dial endpoint = Inr cs" "RandomNonce rndA = Some nonce"
      "exchange (pair_message ''pair_offer'' a nameA nonce) = Inr m"
      "m_Fingerprint m = cert_fingerprint (cert_raw (hd (cs_PeerCertificates cs)))"
    and q: "q = new_pending (m_DeviceID m) (NormalizeDeviceName (m_Name m)) (m_Fingerprint m)
       (ComparisonCode (id_ID a) (identity_fingerprint a) nonce (m_DeviceID m) (m_Fingerprint m) (m_Nonce m))
       \<lparr>p_State := Pending, p_UpdatedAt := nowA', p_ApprovalToken := tok\<rparr>"
      "sA' = (prune_pending nowA sA)\<lparr>st_pending := mput (m_DeviceID m) q (st_pending (prune_pending nowA sA))\<rparr>"
    by (rule pair_InrE)
  let ?offer = "pair_message ''pair_offer'' a nameA nonce"
  let ?h = "handleIncomingPair b nameB nowRate addr (Inr ?offer) certA rndB nowB nowB' tokB lB sB"
  have ans: "fst ?h = Some m" by (rule exchanged [OF a(3)])
  have certB: "cs_PeerCertificates cs = [certB]" by (rule dialled [OF a(1)])
  show ?thesis
  proof (rule handleIncomingPair_cases [of b nameB nowRate addr "Inr ?offer" certA rndB nowB nowB' tokB lB sB])
    fix l' mo nb tb p
    assume b: "(Inr ?offer :: read_error + message) = Inr mo" "m_Fingerprint mo = cert_fingerprint (cert_raw certA)"
      "p = new_pending (m_DeviceID mo) (NormalizeDeviceName (m_Name mo)) (cert_fingerprint (cert_raw certA))
         (ComparisonCode (id_ID b) (identity_fingerprint b) nb (m_DeviceID mo)
            (cert_fingerprint (cert_raw certA)) (m_Nonce mo))
         \<lparr>p_State := Pending, p_UpdatedAt := nowB', p_ApprovalToken := tb\<rparr>"
      "?h = (Some (pair_message ''pair_answer'' b nameB nb), l',
          (prune_pending nowB sB)\<lparr>st_pending := mput (m_DeviceID mo) p (st_pending (prune_pending nowB sB))\<rparr>)"
    from ans b(4) have m: "m = pair_message ''pair_answer'' b nameB nb" by simp
    have mo: "mo = ?offer" using b(1) by simp
    have fields: "m_DeviceID m = id_ID b" "m_Nonce m = nb" "m_Fingerprint m = identity_fingerprint b"
        "m_DeviceID mo = id_ID a" "m_Nonce mo = nonce" "m_Fingerprint mo = identity_fingerprint a"
      by (simp_all add: m mo pair_message_def)
    have "p_ComparisonCode p = p_ComparisonCode q"
      using comparison_code_commute [of "id_ID a" "identity_fingerprint a" nonce "id_ID b" "identity_fingerprint b" nb]
        b(2) by (simp add: b(3) q(1) new_pending_def fields)
    moreover have "identity_fingerprint b = cert_fingerprint (cert_raw certB)"
      using a(4) by (simp add: certB fields)
    moreover have "identity_fingerprint a = cert_fingerprint (cert_raw certA)"
      using b(2) by (simp add: fields)
    moreover have "p_ID p = id_ID a" "p_Fingerprint p = cert_fingerprint (cert_raw certA)"
        "p_ID q = id_ID b" "p_Fingerprint q = identity_fingerprint b"
      by (simp_all add: b(3) q(1) new_pending_def fields)
    moreover have "mget (st_pending (snd (snd ?h))) (id_ID a) = Some p" "mget (st_pending sA') (id_ID b) = Some q"
      by (simp_all add: b(4) q(2) fields gomap_simps)
    ultimately show ?thesis using a(2) by auto
  qed (use ans in auto)
qed

theorem pairing_sides_agree_witness:
  "\<exists>nonce p q. mget (st_pending (snd (snd (sample_answering
       (pair_message ''pair_offer'' (sample_identity CHR ''1'' ''derA'') ''B'' nonce))))) (sample_uuid CHR ''1'') = Some p
     \<and> fst sample_asking = Inr q \<and> p_ComparisonCode p = p_ComparisonCode q"
proof -
  from sample_asks obtain q d' s' where asks: "sample_asking = (Inr q, d', s')" by blast
  have exchanged: "fst (sample_answering offer) = Some ans"
    if "(case fst (sample_answering offer) of Some ans \<Rightarrow> Inr ans | None \<Rightarrow> Inl ''closed'') = Inr ans" for offer ans
    using that by (cases "fst (sample_answering offer)") simp_all
  have "\<exists>nonce p. RandomNonce (Some ''r'') = Some nonce
    \<and> mget (st_pending (snd (snd (sample_answering
          (pair_message ''pair_offer'' (sample_identity CHR ''1'' ''derA'') ''B'' nonce)))))
        (id_ID (sample_identity CHR ''1'' ''derA'')) = Some p
    \<and> mget (st_pending s') (id_ID (sample_identity CHR ''2'' ''derB'')) = Some q
    \<and> p_ComparisonCode p = p_ComparisonCode q
    \<and> p_ID q = id_ID (sample_identity CHR ''2'' ''derB'')
    \<and> p_Fingerprint q = identity_fingerprint (sample_identity CHR ''2'' ''derB'')
    \<and> identity_fingerprint (sample_identity CHR ''2'' ''derB'')
        = cert_fingerprint (cert_raw (sample_peer_cert CHR ''2'' ''derB''))
    \<and> p_ID p = id_ID (sample_identity CHR ''1'' ''derA'')
    \<and> p_Fingerprint p = identity_fingerprint (sample_identity CHR ''1'' ''derA'')
    \<and> identity_fingerprint (sample_identity CHR ''1'' ''derA'')
        = cert_fingerprint (cert_raw (sample_peer_cert CHR ''1'' ''derA''))"
    unfolding sample_answering_def
    by (rule pairing_sides_agree [OF _ _ asks [unfolded sample_asking_def]])
      (use exchanged in \<open>auto simp: sample_answering_def\<close>)
  moreover have "id_ID (sample_identity CHR ''1'' ''derA'') = sample_uuid CHR ''1''"
    by (simp add: sample_identity_def)
  ultimately show ?thesis using asks by (metis fst_conv)
qed

text \<open>
  What an unauthenticated request can do. Handling one never touches the stored peers or the
  file; and a pending entry that was not there before is answered, has a valid UUID that is
  the certificate's name, the certificate's own fingerprint, a safe display name, and state
  pending. Without an answer nothing has been added.
\<close>

theorem incoming_request_only_pends:
  assumes "wf_map (st_pending s)"
    "handleIncomingPair own cfgName nowRate addr offer cert rnd now now' token l s = (ans, l', s')"
  shows "st_peers s' = st_peers s \<and> st_disk s' = st_disk s
    \<and> (\<forall>pid p. mget (st_pending s') pid = Some p \<and> mget (st_pending s) pid \<noteq> Some p \<longrightarrow>
         ans \<noteq> None \<and> ValidUUID pid \<and> cert_cn cert = ''lanclip:'' @ pid \<and> p_ID p = pid
         \<and> p_Fingerprint p = cert_fingerprint (cert_raw cert) \<and> p_State p = Pending
         \<and> safe_name (p_Name p))"
proof -
  have old: "mget (st_pending s) pid = Some p" if "mget (st_pending (prune_pending now s)) pid = Some p" for pid p
    using that assms(1) by (auto simp: mget_prune_pending split: option.splits if_splits)
  show ?thesis
    by (rule handleIncomingPair_cases [of own cfgName nowRate addr offer cert rnd now now' token l s])
      (use assms(2) old in \<open>auto simp: gomap_simps new_pending_def ValidateCertificateIdentity_def
          safe_name_normalized split: if_splits\<close>)
qed

theorem incoming_request_only_pends_witness:
  "st_peers (snd (snd (sample_answering sample_ping))) = []"
proof -
  obtain ans l' s' where h: "sample_answering sample_ping = (ans, l', s')" by (metis prod.collapse)
  have "wf_map (st_pending empty_store)" by (simp add: empty_store_def)
  from incoming_request_only_pends [OF this h [unfolded sample_answering_def]] h show ?thesis
    by (simp add: empty_store_def)
qed

end
