(* ===== verification/Registry.thy ===== *)
theory Registry
  imports Pair_Session
begin

text \<open>
  The connection registry of \<open>internal/daemon/daemon.go\<close>: which peer has a live connection, the
  statistics shown for it, and which peers are being dialled. Each operation holds the daemon's
  \<open>mu\<close>, so it is a function of the registry.

  A \<open>peerConn\<close> is a Go pointer: \<open>pc_ref\<close> is its identity, compared where the code compares
  pointers, \<open>pc_conn\<close> the socket behind its \<open>tls.Conn\<close>. The sockets that \<open>Close\<close> was called on
  and the \<open>done\<close> channels that were closed are logged in the state. The mailbox \<open>out\<close> of a
  connection is modelled apart, in \<open>Mailbox\<close>.
\<close>

section \<open>State\<close>

record stats =
  sx_Connected :: bool
  sx_Address :: string
  sx_LastSent :: time
  sx_SentBytes :: nat
  sx_LastReceived :: time
  sx_ReceivedBytes :: nat
  sx_Reconnects :: int
  sx_LastError :: string

record peer_conn =
  pc_ref :: nat
  pc_id :: string
  pc_conn :: nat
  pc_addr :: string
  pc_outbound :: bool

record registry =
  rg_conns :: "(string, peer_conn) gomap"
  rg_stats :: "(string, stats) gomap"
  rg_connecting :: "(string, bool) gomap"
  rg_closed :: "nat list"
  rg_done :: "nat list"

definition zero_stats :: stats where
  "zero_stats = \<lparr>sx_Connected = False, sx_Address = [], sx_LastSent = zero_time, sx_SentBytes = 0,
     sx_LastReceived = zero_time, sx_ReceivedBytes = 0, sx_Reconnects = 0, sx_LastError = []\<rparr>"

definition new_registry :: registry where
  "new_registry = \<lparr>rg_conns = [], rg_stats = [], rg_connecting = [], rg_closed = [], rg_done = []\<rparr>"

text \<open>Reading a missing entry of \<open>d.stats\<close> gives the zero value.\<close>

definition stats_of :: "registry \<Rightarrow> string \<Rightarrow> stats" where
  "stats_of r pid = (case mget (rg_stats r) pid of Some s \<Rightarrow> s | None \<Rightarrow> zero_stats)"

definition update_stats :: "string \<Rightarrow> (stats \<Rightarrow> stats) \<Rightarrow> registry \<Rightarrow> registry" where
  "update_stats pid f r = r\<lparr>rg_stats := mput pid (f (stats_of r pid)) (rg_stats r)\<rparr>"

definition close_socket :: "nat \<Rightarrow> registry \<Rightarrow> registry" where
  "close_socket c r = r\<lparr>rg_closed := c # rg_closed r\<rparr>"

section \<open>Operations\<close>

definition safeError :: "string option \<Rightarrow> string" where
  "safeError err = (case err of None \<Rightarrow> []
     | Some s \<Rightarrow> if length s > 300 then take 300 s else s)"

definition short :: "string \<Rightarrow> string" where
  "short s = (if length s > 8 then take 8 s else s)"

text \<open>
  The locked part of \<open>register\<close> answers whether the connection was installed and which
  connection it replaced; the replaced socket is closed after the lock is released.
\<close>

definition register_locked :: "peer_conn \<Rightarrow> registry \<Rightarrow> (bool \<times> peer_conn option) \<times> registry" where
  "register_locked pc r =
     (let old = mget (rg_conns r) (pc_id pc)
      in if (case old of Some c \<Rightarrow> pc_ref c = pc_ref pc | None \<Rightarrow> False) then ((False, None), r)
         else
           let r = r\<lparr>rg_conns := mput (pc_id pc) pc (rg_conns r)\<rparr>;
               r = update_stats (pc_id pc) (\<lambda>s. s\<lparr>sx_Connected := True, sx_Address := pc_addr pc,
                     sx_Reconnects := wrap64 (sx_Reconnects s + 1), sx_LastError := []\<rparr>) r
           in ((True, old), r))"

definition register :: "peer_conn \<Rightarrow> registry \<Rightarrow> bool \<times> registry" where
  "register pc r =
     (let ((ok, old), r) = register_locked pc r
      in if \<not> ok then (False, r)
         else (True, case old of Some c \<Rightarrow> close_socket (pc_conn c) r | None \<Rightarrow> r))"

definition unregister :: "peer_conn \<Rightarrow> registry \<Rightarrow> registry" where
  "unregister pc r =
     (let r = (if pc_ref pc \<in> set (rg_done r) then r else r\<lparr>rg_done := pc_ref pc # rg_done r\<rparr>)
      in if (case mget (rg_conns r) (pc_id pc) of Some c \<Rightarrow> pc_ref c = pc_ref pc | None \<Rightarrow> False)
         then update_stats (pc_id pc) (\<lambda>s. s\<lparr>sx_Connected := False\<rparr>)
                (r\<lparr>rg_conns := mdel (pc_id pc) (rg_conns r)\<rparr>)
         else r)"

definition getConn :: "string \<Rightarrow> registry \<Rightarrow> peer_conn option" where
  "getConn pid r = mget (rg_conns r) pid"

definition connected :: "string \<Rightarrow> registry \<Rightarrow> bool" where
  "connected pid r \<longleftrightarrow> mget (rg_conns r) pid \<noteq> None"

definition beginConnect :: "string \<Rightarrow> registry \<Rightarrow> bool \<times> registry" where
  "beginConnect pid r =
     (if mget (rg_connecting r) pid = Some True then (False, r)
      else (True, r\<lparr>rg_connecting := mput pid True (rg_connecting r)\<rparr>))"

definition endConnect :: "string \<Rightarrow> registry \<Rightarrow> registry" where
  "endConnect pid r = r\<lparr>rg_connecting := mdel pid (rg_connecting r)\<rparr>"

definition recordError :: "string \<Rightarrow> string option \<Rightarrow> registry \<Rightarrow> registry" where
  "recordError pid err = update_stats pid (\<lambda>s. s\<lparr>sx_LastError := safeError err\<rparr>)"

text \<open>The bookkeeping of \<open>writeLoop\<close> after a message and of \<open>clipboardWriteLoop\<close> after a write.\<close>

definition recordSent :: "string \<Rightarrow> time \<Rightarrow> nat \<Rightarrow> registry \<Rightarrow> registry" where
  "recordSent pid now n = update_stats pid (\<lambda>s. s\<lparr>sx_LastSent := now, sx_SentBytes := n\<rparr>)"

definition recordReceived :: "string \<Rightarrow> time \<Rightarrow> nat \<Rightarrow> registry \<Rightarrow> registry" where
  "recordReceived pid now n = update_stats pid (\<lambda>s. s\<lparr>sx_LastReceived := now, sx_ReceivedBytes := n\<rparr>)"

text \<open>The last part of \<open>Daemon.close\<close>: every connection is closed and forgotten.\<close>

definition close_all :: "registry \<Rightarrow> registry" where
  "close_all r = (foldl (\<lambda>r (_, c). close_socket (pc_conn c) r) r (rg_conns r))\<lparr>rg_conns := []\<rparr>"

section \<open>Reading the registry after an operation\<close>

lemma mget_update_stats:
  "mget (rg_stats (update_stats pid f r)) q
     = (if q = pid then Some (f (stats_of r pid)) else mget (rg_stats r) q)"
  by (simp add: update_stats_def gomap_simps)

lemma stats_of_update [simp]:
  "stats_of (update_stats pid f r) q = (if q = pid then f (stats_of r pid) else stats_of r q)"
  by (simp add: stats_of_def mget_update_stats)

lemma update_stats_fields [simp]:
  "rg_conns (update_stats pid f r) = rg_conns r"
  "rg_connecting (update_stats pid f r) = rg_connecting r"
  "rg_closed (update_stats pid f r) = rg_closed r"
  "rg_done (update_stats pid f r) = rg_done r"
  by (simp_all add: update_stats_def)

lemma stats_of_cong: "rg_stats r = rg_stats r' \<Longrightarrow> stats_of r = stats_of r'"
  by (simp add: stats_of_def fun_eq_iff)

lemma stats_of_fields [simp]:
  "stats_of (r\<lparr>rg_conns := cs\<rparr>) = stats_of r" "stats_of (r\<lparr>rg_closed := xs\<rparr>) = stats_of r"
  "stats_of (r\<lparr>rg_done := xs\<rparr>) = stats_of r" "stats_of (r\<lparr>rg_connecting := bs\<rparr>) = stats_of r"
  by (simp_all add: stats_of_def fun_eq_iff)

lemma close_socket_fields [simp]:
  "rg_conns (close_socket c r) = rg_conns r" "rg_stats (close_socket c r) = rg_stats r"
  "rg_connecting (close_socket c r) = rg_connecting r" "rg_done (close_socket c r) = rg_done r"
  "rg_closed (close_socket c r) = c # rg_closed r" "stats_of (close_socket c r) = stats_of r"
  by (simp_all add: close_socket_def)

lemma register_locked_cases:
  obtains (same) c where "mget (rg_conns r) (pc_id pc) = Some c" "pc_ref c = pc_ref pc"
      "register_locked pc r = ((False, None), r)"
  | (new) r' where "register_locked pc r = ((True, mget (rg_conns r) (pc_id pc)), r')"
      "\<forall>c. mget (rg_conns r) (pc_id pc) = Some c \<longrightarrow> pc_ref c \<noteq> pc_ref pc"
      "rg_conns r' = mput (pc_id pc) pc (rg_conns r)"
      "\<forall>q. stats_of r' q = (if q = pc_id pc then (stats_of r q)\<lparr>sx_Connected := True,
          sx_Address := pc_addr pc, sx_Reconnects := wrap64 (sx_Reconnects (stats_of r q) + 1),
          sx_LastError := []\<rparr> else stats_of r q)"
      "rg_connecting r' = rg_connecting r" "rg_closed r' = rg_closed r" "rg_done r' = rg_done r"
proof (cases "\<exists>c. mget (rg_conns r) (pc_id pc) = Some c \<and> pc_ref c = pc_ref pc")
  case True
  then show thesis by (auto intro!: same simp: register_locked_def)
next
  case False
  show thesis
    by (rule new [of "snd (register_locked pc r)"])
      (use False in \<open>auto simp: register_locked_def Let_def split: option.splits\<close>)
qed

lemma unregister_conns:
  "rg_conns (unregister pc r) =
     (if \<exists>c. mget (rg_conns r) (pc_id pc) = Some c \<and> pc_ref c = pc_ref pc
      then mdel (pc_id pc) (rg_conns r) else rg_conns r)"
  by (auto simp: unregister_def Let_def split: option.splits)

lemma unregister_stats:
  "stats_of (unregister pc r) q =
     (if q = pc_id pc \<and> (\<exists>c. mget (rg_conns r) (pc_id pc) = Some c \<and> pc_ref c = pc_ref pc)
      then (stats_of r q)\<lparr>sx_Connected := False\<rparr> else stats_of r q)"
  by (auto simp: unregister_def Let_def split: option.splits)

lemma unregister_fields [simp]:
  "rg_connecting (unregister pc r) = rg_connecting r" "rg_closed (unregister pc r) = rg_closed r"
  by (auto simp: unregister_def Let_def split: option.splits)

lemma close_all_closes:
  "rg_conns (close_all r) = [] \<and> set (rg_closed (close_all r))
     = set (rg_closed r) \<union> pc_conn ` snd ` set (rg_conns r)"
proof -
  have "set (rg_closed (foldl (\<lambda>r (_, c). close_socket (pc_conn c) r) r cs))
      = set (rg_closed r) \<union> pc_conn ` snd ` set cs" for cs :: "(string \<times> peer_conn) list"
    by (induction cs arbitrary: r) auto
  then show ?thesis by (simp add: close_all_def)
qed

section \<open>The registry and its statistics agree\<close>

text \<open>What every operation keeps: \<open>Connected\<close> is shown exactly for the registered peers.\<close>

definition registry_ok :: "registry \<Rightarrow> bool" where
  "registry_ok r \<longleftrightarrow> (\<forall>pid. sx_Connected (stats_of r pid) \<longleftrightarrow> connected pid r)
     \<and> (\<forall>pid c. mget (rg_conns r) pid = Some c \<longrightarrow> pc_id c = pid)"

named_theorems registry_kept \<open>operations that keep the registry and its statistics in agreement\<close>

lemma new_registry_ok [registry_kept]: "registry_ok new_registry"
  by (simp add: registry_ok_def new_registry_def connected_def stats_of_def zero_stats_def)

lemma register_locked_ok [registry_kept]:
  assumes "registry_ok r"
  shows "registry_ok (snd (register_locked pc r))"
proof (cases rule: register_locked_cases [of r pc])
  case (same c)
  with assms show ?thesis by simp
next
  case (new r')
  from new(3,4) assms show ?thesis
    by (auto simp: new(1) registry_ok_def connected_def gomap_simps)
qed

lemma unregister_ok [registry_kept]: "registry_ok r \<Longrightarrow> registry_ok (unregister pc r)"
  by (auto simp: registry_ok_def unregister_stats unregister_conns connected_def gomap_simps
      split: if_splits)

lemma close_socket_ok [registry_kept]: "registry_ok r \<Longrightarrow> registry_ok (close_socket c r)"
  by (simp add: registry_ok_def connected_def)

lemma update_stats_ok:
  "registry_ok r \<Longrightarrow> (\<And>s. sx_Connected (f s) = sx_Connected s) \<Longrightarrow> registry_ok (update_stats pid f r)"
  by (simp add: registry_ok_def connected_def)

lemma record_ok [registry_kept]:
  "registry_ok r \<Longrightarrow> registry_ok (recordError pid err r)"
  "registry_ok r \<Longrightarrow> registry_ok (recordSent pid now n r)"
  "registry_ok r \<Longrightarrow> registry_ok (recordReceived pid now n r)"
  by (simp_all add: recordError_def recordSent_def recordReceived_def update_stats_ok)

lemma connecting_ok [registry_kept]:
  "registry_ok r \<Longrightarrow> registry_ok (snd (beginConnect pid r))"
  "registry_ok r \<Longrightarrow> registry_ok (endConnect pid r)"
  by (simp_all add: registry_ok_def connected_def beginConnect_def endConnect_def)

lemma length_safeError: "length (safeError err) \<le> 300"
  by (simp add: safeError_def split: option.split)

lemma beginConnect_excludes:
  "fst (beginConnect pid (snd (beginConnect pid r))) = False"
  by (simp add: beginConnect_def gomap_simps)

end
