(* ===== verification/Sync_Session.thy ===== *)
theory Sync_Session
  imports Registry
begin

text \<open>
  The sync connection of \<open>internal/daemon/daemon.go\<close>: \<open>handleSync\<close>, run on both sides of a
  connection after the TLS handshake, and the machine of all concurrent sessions.

  As in \<open>Pair_Session\<close>, what a handler reads from outside is an argument: \<open>wrote\<close> is the outcome
  of its one \<open>protocol.Write\<close> (\<open>None\<close> for success), \<open>got\<close> the outcome of its one
  \<open>protocol.Read\<close>. The last part of \<open>handleSync\<close> (\<open>writeLoop\<close>, \<open>readLoop\<close>) is in
  \<open>Clipboard_Flow\<close>; \<open>finishSync\<close> is what its deferred calls do when the loops end.
\<close>

section \<open>One session\<close>

definition hello_message :: "identity \<Rightarrow> string \<Rightarrow> message" where
  "hello_message own cfgName =
     empty_message\<lparr>m_Type := ''hello'', m_DeviceID := id_ID own, m_Name := cfgName\<rparr>"

text \<open>
  From the trust check to the ownership rule: the hello sent (if \<open>Write\<close> was called), whether
  the session goes on to register, and the store with the peer's name brought up to date.
\<close>

definition sync_greet ::
  "identity \<Rightarrow> string \<Rightarrow> bool \<Rightarrow> peer \<Rightarrow> string option \<Rightarrow> (read_error + message) \<Rightarrow> store_env
     \<Rightarrow> time \<Rightarrow> store \<Rightarrow> message option \<times> bool \<times> store" where
  "sync_greet own cfgName outbound trusted wrote got ev now s =
     (let hello = hello_message own cfgName;
          sent = (if outbound then Some hello else None)
      in if outbound \<and> wrote \<noteq> None then (sent, False, s)
         else case got of
           Inl _ \<Rightarrow> (sent, False, s)
         | Inr m \<Rightarrow>
             if m_Type m \<noteq> ''hello'' \<or> m_DeviceID m \<noteq> p_ID trusted then (sent, False, s)
             else
               let peerName = NormalizeDeviceName (m_Name m);
                   s = (if peerName \<noteq> [] \<and> peerName \<noteq> p_Name trusted
                        then snd (UpdateName ev now (p_ID trusted) peerName s) else s);
                   sent = Some hello
               in if \<not> outbound \<and> wrote \<noteq> None then (sent, False, s)
                  else if outbound \<noteq> (id_ID own < p_ID trusted) then (sent, False, s)
                  else (sent, True, s))"

definition handleSync ::
  "identity \<Rightarrow> string \<Rightarrow> bool \<Rightarrow> certificate \<Rightarrow> string option \<Rightarrow> (read_error + message) \<Rightarrow> store_env
     \<Rightarrow> time \<Rightarrow> nat \<Rightarrow> string \<Rightarrow> store \<Rightarrow> registry
     \<Rightarrow> message option \<times> peer_conn option \<times> store \<times> registry" where
  "handleSync own cfgName outbound peerCert wrote got ev now c addr s r =
     (let fp = cert_fingerprint (cert_raw peerCert)
      in case TrustedFingerprint fp s of
           None \<Rightarrow> (None, None, s, close_socket c r)
         | Some trusted \<Rightarrow>
             let (sent, ok, s) = sync_greet own cfgName outbound trusted wrote got ev now s
             in if \<not> ok then (sent, None, s, close_socket c r)
                else
                  let pc = \<lparr>pc_ref = c, pc_id = p_ID trusted, pc_conn = c, pc_addr = addr,
                            pc_outbound = outbound\<rparr>;
                      (ok, r) = register pc r
                  in if \<not> ok then (sent, None, s, close_socket c r) else (sent, Some pc, s, r))"

definition finishSync :: "peer_conn \<Rightarrow> registry \<Rightarrow> registry" where
  "finishSync pc r = close_socket (pc_conn pc) (unregister pc r)"

section \<open>What a session guarantees\<close>

lemma sync_greet_ok:
  assumes "sync_greet own cfgName outbound trusted wrote got ev now s = (sent, True, s')"
  obtains m where "got = Inr m" "m_Type m = ''hello''" "m_DeviceID m = p_ID trusted" "wrote = None"
    "sent = Some (hello_message own cfgName)" "outbound = (id_ID own < p_ID trusted)"
    "s' = (if NormalizeDeviceName (m_Name m) \<noteq> [] \<and> NormalizeDeviceName (m_Name m) \<noteq> p_Name trusted
           then snd (UpdateName ev now (p_ID trusted) (NormalizeDeviceName (m_Name m)) s) else s)"
  using assms
  by (cases got) (auto simp: sync_greet_def Let_def intro: that split: if_splits)

lemma sync_greet_store:
  "snd (snd (sync_greet own cfgName outbound trusted wrote got ev now s))
     \<in> {s} \<union> {snd (UpdateName ev now (p_ID trusted) n s) | n. True}"
  by (cases got) (auto simp: sync_greet_def Let_def)

lemma sync_greet_register:
  "got = Inr m \<Longrightarrow> m_Type m = ''hello'' \<Longrightarrow> m_DeviceID m = p_ID trusted \<Longrightarrow> wrote = None
     \<Longrightarrow> \<exists>s'. sync_greet own cfgName outbound trusted wrote got ev now s =
           (Some (hello_message own cfgName), outbound = (id_ID own < p_ID trusted), s')"
  by (auto simp: sync_greet_def Let_def)

lemma handleSync_Some:
  assumes "handleSync own cfgName outbound cert wrote got ev now c addr s r = (sent, Some pc, s', r')"
  obtains trusted m where "TrustedFingerprint (cert_fingerprint (cert_raw cert)) s = Some trusted"
    "pc = \<lparr>pc_ref = c, pc_id = p_ID trusted, pc_conn = c, pc_addr = addr, pc_outbound = outbound\<rparr>"
    "got = Inr m" "m_Type m = ''hello''" "m_DeviceID m = p_ID trusted" "wrote = None"
    "outbound = (id_ID own < p_ID trusted)" "register pc r = (True, r')"
  using assms
  by (auto simp: handleSync_def Let_def split: option.splits prod.splits if_splits
      elim!: sync_greet_ok)

text \<open>Registering succeeds for every connection the registry does not hold already.\<close>

lemma register_fresh:
  "c \<notin> pc_ref ` snd ` set (rg_conns r) \<Longrightarrow> pc_ref pc = c \<Longrightarrow> fst (register pc r)"
  by (cases rule: register_locked_cases [of r pc])
    (auto simp: register_def Let_def image_iff dest!: mget_Some_mem split: option.splits)

lemma handleSync_hello:
  assumes "TrustedFingerprint (cert_fingerprint (cert_raw cert)) s = Some trusted"
    "got = Inr m" "m_Type m = ''hello''" "m_DeviceID m = p_ID trusted"
    "c \<notin> pc_ref ` snd ` set (rg_conns r)"
  shows "\<exists>s' r'. handleSync own cfgName outbound cert None got ev now c addr s r =
      (Some (hello_message own cfgName),
       if outbound = (id_ID own < p_ID trusted)
       then Some \<lparr>pc_ref = c, pc_id = p_ID trusted, pc_conn = c, pc_addr = addr, pc_outbound = outbound\<rparr>
       else None, s', r')"
proof -
  obtain s1 where g: "sync_greet own cfgName outbound trusted None got ev now s =
      (Some (hello_message own cfgName), outbound = (id_ID own < p_ID trusted), s1)"
    using sync_greet_register [OF assms(2-4), of None] by blast
  let ?pc = "\<lparr>pc_ref = c, pc_id = p_ID trusted, pc_conn = c, pc_addr = addr, pc_outbound = outbound\<rparr>"
  have "fst (register ?pc r)" using register_fresh [OF assms(5)] by simp
  then obtain r1 where "register ?pc r = (True, r1)" by (cases "register ?pc r") auto
  with assms(1) g show ?thesis by (auto simp: handleSync_def Let_def)
qed

lemma TrustedFingerprint_entry:
  assumes "store_inv s" "TrustedFingerprint fp s = Some p"
  shows "trusted_at s (p_ID p) p \<and> p_Fingerprint p = fp"
proof -
  from assms(2) obtain pid where "(pid, p) \<in> set (st_peers s)" "p_State p = Trusted" "p_Fingerprint p = fp"
    by (fastforce simp: TrustedFingerprint_def find_Some_iff dest: nth_mem)
  moreover from this(1) assms(1) have "mget (st_peers s) pid = Some p"
    by (intro mem_mget) (simp add: store_inv_def)
  ultimately show ?thesis
    using store_invD(5) [OF assms(1)] by (auto simp: trusted_at_def)
qed

section \<open>Properties of one connection\<close>

text \<open>
  C6. Both ends of a connection decide alike. When a dials b, each holds the other among its
  trusted devices under the fingerprint of the certificate presented, and the hellos arrive, both
  ends register the connection if a's ID is the smaller and neither does otherwise: of the two
  connections a pair of devices can open at the same time exactly the one dialled by the smaller
  ID stays, and it is registered under the other's ID at both ends.
\<close>

theorem sync_sides_agree:
  assumes "TrustedFingerprint (cert_fingerprint (cert_raw cert_b)) sa = Some tb" "p_ID tb = id_ID b"
    and "TrustedFingerprint (cert_fingerprint (cert_raw cert_a)) sb = Some ta" "p_ID ta = id_ID a"
    and "ca \<notin> pc_ref ` snd ` set (rg_conns ra)" "cb \<notin> pc_ref ` snd ` set (rg_conns rb)"
    and "id_ID a \<noteq> id_ID b"
  shows "\<exists>pa pb sa' sb' ra' rb'.
      handleSync a name_a True cert_b None (Inr (hello_message b name_b)) ev now ca addr_b sa ra =
        (Some (hello_message a name_a), pa, sa', ra')
    \<and> handleSync b name_b False cert_a None (Inr (hello_message a name_a)) ev' now' cb addr_a sb rb =
        (Some (hello_message b name_b), pb, sb', rb')
    \<and> (pa \<noteq> None \<longleftrightarrow> id_ID a < id_ID b) \<and> (pb \<noteq> None \<longleftrightarrow> id_ID a < id_ID b)
    \<and> (\<forall>p. pa = Some p \<longrightarrow> pc_id p = id_ID b) \<and> (\<forall>p. pb = Some p \<longrightarrow> pc_id p = id_ID a)"
proof -
  have hello: "m_Type (hello_message i n) = ''hello''" "m_DeviceID (hello_message i n) = id_ID i" for i n
    by (simp_all add: hello_message_def empty_message_def)
  from handleSync_hello [OF assms(1) refl hello(1) _ assms(5), of b name_b a name_a True ev now addr_b]
  obtain sa' ra' where "handleSync a name_a True cert_b None (Inr (hello_message b name_b)) ev now ca addr_b sa ra =
      (Some (hello_message a name_a), if id_ID a < id_ID b then Some \<lparr>pc_ref = ca, pc_id = id_ID b,
         pc_conn = ca, pc_addr = addr_b, pc_outbound = True\<rparr> else None, sa', ra')"
    by (auto simp: hello assms(2))
  moreover from handleSync_hello [OF assms(3) refl hello(1) _ assms(6), of a name_a b name_b False ev' now' addr_a]
  obtain sb' rb' where "handleSync b name_b False cert_a None (Inr (hello_message a name_a)) ev' now' cb addr_a sb rb =
      (Some (hello_message b name_b), if \<not> id_ID b < id_ID a then Some \<lparr>pc_ref = cb, pc_id = id_ID a,
         pc_conn = cb, pc_addr = addr_a, pc_outbound = False\<rparr> else None, sb', rb')"
    by (auto simp: hello assms(4))
  ultimately show ?thesis using assms(7) by auto
qed

definition sample_link_store :: "string \<Rightarrow> string \<Rightarrow> store" where
  "sample_link_store pid der = sample_trusted_store\<lparr>st_peers := [(pid, sample_trusted\<lparr>p_ID := pid,
     p_Fingerprint := cert_fingerprint der\<rparr>)]\<rparr>"

definition sample_device :: "string \<Rightarrow> string \<Rightarrow> identity" where
  "sample_device pid der = \<lparr>id_ID = pid, id_Certificate = der, id_PrivateKey = Ed25519_Private [] [],
     id_TLSCert = []\<rparr>"

definition sample_device_cert :: "string \<Rightarrow> string \<Rightarrow> certificate" where
  "sample_device_cert pid der = \<lparr>cert_raw = der, cert_cn = ''lanclip:'' @ pid,
     cert_key = Ed25519_Public [], cert_not_before = 0, cert_not_after = 9, cert_sig_ok = True\<rparr>"

lemma sample_link_trust:
  "TrustedFingerprint (cert_fingerprint (cert_raw (sample_device_cert pid der))) (sample_link_store pid der)
     = Some (sample_trusted\<lparr>p_ID := pid, p_Fingerprint := cert_fingerprint der\<rparr>)"
  by (simp add: TrustedFingerprint_def sample_link_store_def sample_device_cert_def sample_trusted_def)

theorem sync_sides_agree_witness:
  "\<exists>pa pb sa' sb' ra' rb'.
      handleSync (sample_device ''a'' ''A'') ''A'' True (sample_device_cert ''b'' ''B'') None
        (Inr (hello_message (sample_device ''b'' ''B'') ''B'')) sample_env 5 1 ''b:1''
        (sample_link_store ''b'' ''B'') new_registry
        = (Some (hello_message (sample_device ''a'' ''A'') ''A''), Some pa, sa', ra')
    \<and> handleSync (sample_device ''b'' ''B'') ''B'' False (sample_device_cert ''a'' ''A'') None
        (Inr (hello_message (sample_device ''a'' ''A'') ''A'')) sample_env 5 1 ''a:1''
        (sample_link_store ''a'' ''A'') new_registry
        = (Some (hello_message (sample_device ''b'' ''B'') ''B''), Some pb, sb', rb')
    \<and> pc_id pa = ''b'' \<and> pc_id pb = ''a''"
  using sync_sides_agree [OF sample_link_trust [of "''b''" "''B''"] _ sample_link_trust [of "''a''" "''A''"], of
      "sample_device ''b'' ''B''" "sample_device ''a'' ''A''" 1 new_registry 1 new_registry
      "''A''" "''B''" sample_env 5 "''b:1''" sample_env 5 "''a:1''"]
  by (fastforce simp: sample_device_def new_registry_def)

end
