(* ===== verification/Backoff.thy ===== *)
theory Backoff
  imports Prelude
begin

text \<open>
  \<open>internal/transport/backoff.go\<close>: the reconnect delay. Durations are \<open>int64\<close> nanoseconds whose
  doubling wraps around (\<open>wrap64\<close>) and whose division truncates towards zero (\<open>go_div\<close>). The
  draw \<open>rand.Int63n(n)\<close> is the argument \<open>draw\<close>: it panics on \<open>n \<le> 0\<close> (the result \<open>None\<close>) and
  otherwise returns an integer of \<open>{0..<n}\<close>.
\<close>

section \<open>State and operations\<close>

record backoff =
  bo_Attempt :: int
  bo_Min :: duration
  bo_Max :: duration

definition go_div :: "int \<Rightarrow> int \<Rightarrow> int" where
  "go_div a b = sgn a * sgn b * (\<bar>a\<bar> div \<bar>b\<bar>)"

lemma go_div_nonneg [simp]: "0 \<le> a \<Longrightarrow> 0 < b \<Longrightarrow> go_div a b = a div b"
  by (cases "a = 0") (auto simp: go_div_def sgn_if)

text \<open>The loop \<open>for i := 0; i < b.Attempt && d < max; i++ { d *= 2 }\<close>.\<close>

function backoff_double :: "int \<Rightarrow> int \<Rightarrow> duration \<Rightarrow> duration \<Rightarrow> duration" where
  "backoff_double i attempt d mx =
     (if i < attempt \<and> d < mx then backoff_double (i + 1) attempt (wrap64 (d * 2)) mx else d)"
  by pat_completeness auto
termination
  by (relation "measure (\<lambda>(i, attempt, d, mx). nat (attempt - i))") auto

declare backoff_double.simps [simp del]

definition backoff_base :: "backoff \<Rightarrow> duration" where
  "backoff_base b =
     (let mn = bo_Min b; mx = bo_Max b;
          mn = (if mn = 0 then 250 * millisecond else mn);
          mx = (if mx = 0 then 10 * second else mx);
          d = backoff_double 0 (bo_Attempt b) mn mx
      in if d > mx then mx else d)"

definition backoff_next :: "(int \<Rightarrow> int) \<Rightarrow> backoff \<Rightarrow> duration option \<times> backoff" where
  "backoff_next draw b =
     (let d = backoff_base b;
          b = b\<lparr>bo_Attempt := wrap64 (bo_Attempt b + 1)\<rparr>;
          n = wrap64 (go_div d 4 + 1)
      in if n \<le> 0 then (None, b)
         else (Some (wrap64 (d - go_div d 8 + draw n)), b))"

definition backoff_reset :: "backoff \<Rightarrow> backoff" where
  "backoff_reset b = b\<lparr>bo_Attempt := 0\<rparr>"

text \<open>What \<open>rand.Int63n\<close> documents.\<close>

definition int63n_ok :: "(int \<Rightarrow> int) \<Rightarrow> bool" where
  "int63n_ok draw \<longleftrightarrow> (\<forall>n > 0. 0 \<le> draw n \<and> draw n < n)"

text \<open>Consecutive calls with no reset between them, each with its own draw.\<close>

fun backoff_delays :: "(int \<Rightarrow> int) list \<Rightarrow> backoff \<Rightarrow> duration option list" where
  "backoff_delays [] b = []"
| "backoff_delays (draw # draws) b =
     (let (d, b) = backoff_next draw b in d # backoff_delays draws b)"

section \<open>The loop in closed form\<close>

lemma backoff_double_small:
  assumes "0 \<le> d" "mx \<le> 2 ^ 62" "d < mx"
  shows "wrap64 (d * 2) = d * 2"
  using assms by (intro wrap64_id) (auto simp: min_int64_def max_int64_def)

lemma backoff_double_closed:
  assumes "0 < d" "mx \<le> 2 ^ 62" "0 \<le> i"
  shows "min (backoff_double i attempt d mx) mx = min (d * 2 ^ nat (attempt - i)) mx"
  using assms
proof (induction i attempt d mx rule: backoff_double.induct)
  case (1 i attempt d mx)
  show ?case
  proof (cases "i < attempt \<and> d < mx")
    case True
    then have w: "wrap64 (d * 2) = d * 2"
      using "1.prems" by (intro backoff_double_small) auto
    have "nat (attempt - i) = Suc (nat (attempt - (i + 1)))" using True by auto
    then have "d * 2 ^ nat (attempt - i) = d * 2 * 2 ^ nat (attempt - (i + 1))" by simp
    moreover have "min (backoff_double (i + 1) attempt (d * 2) mx) mx
        = min (d * 2 * 2 ^ nat (attempt - (i + 1))) mx"
      using "1.IH" True "1.prems" by (simp add: w)
    ultimately show ?thesis
      using True by (simp only: backoff_double.simps [of i attempt d mx] w if_True simp_thms)
  next
    case False
    show ?thesis
    proof (cases "i < attempt")
      case True
      with False have "mx \<le> d" by auto
      moreover have "d \<le> d * 2 ^ nat (attempt - i)"
        using "1.prems"(1) by (simp add: mult_le_cancel_left1)
      ultimately show ?thesis using False by (simp add: backoff_double.simps [of i attempt d mx])
    next
      case le: False
      then show ?thesis by (simp add: backoff_double.simps [of i attempt d mx])
    qed
  qed
qed

lemma backoff_base_eq:
  assumes "0 \<le> bo_Min b" "0 \<le> bo_Max b" "bo_Max b \<le> 2 ^ 62"
  shows "backoff_base b =
     min ((if bo_Min b = 0 then 250000000 else bo_Min b) * 2 ^ nat (bo_Attempt b))
         (if bo_Max b = 0 then 10000000000 else bo_Max b)"
proof -
  let ?mn = "if bo_Min b = 0 then 250000000 else bo_Min b"
  let ?mx = "if bo_Max b = 0 then 10000000000 else bo_Max b"
  have "backoff_base b = min (backoff_double 0 (bo_Attempt b) ?mn ?mx) ?mx"
    by (auto simp: backoff_base_def Let_def time_simps min_def)
  also have "\<dots> = min (?mn * 2 ^ nat (bo_Attempt b - 0)) ?mx"
    using assms by (intro backoff_double_closed) auto
  finally show ?thesis by simp
qed

lemma backoff_next_within:
  assumes base: "0 \<le> backoff_base b" "backoff_base b \<le> 2 ^ 62" and draw: "int63n_ok draw"
  obtains j where "0 \<le> j" "j \<le> backoff_base b div 4"
    "backoff_next draw b = (Some (backoff_base b - backoff_base b div 8 + j),
                            b\<lparr>bo_Attempt := wrap64 (bo_Attempt b + 1)\<rparr>)"
proof -
  let ?d = "backoff_base b"
  have n: "wrap64 (go_div ?d 4 + 1) = ?d div 4 + 1"
    using base by (subst wrap64_id) (auto simp: min_int64_def max_int64_def)
  have j: "0 \<le> draw (?d div 4 + 1)" "draw (?d div 4 + 1) \<le> ?d div 4"
    using draw [unfolded int63n_ok_def, rule_format, of "?d div 4 + 1"] base by linarith+
  then have "wrap64 (?d - ?d div 8 + draw (?d div 4 + 1)) = ?d - ?d div 8 + draw (?d div 4 + 1)"
    using base by (intro wrap64_id) (auto simp: min_int64_def max_int64_def)
  with base n j show thesis
    by (intro that [of "draw (?d div 4 + 1)"]) (auto simp: backoff_next_def Let_def)
qed

section \<open>Properties\<close>

text \<open>
  The base delay is \<open>min (Min * 2 ^ Attempt) Max\<close>, with 250 ms and 10 s where a field is
  zero: the capped loop computes the exact exponential, without overflow, for every maximum
  up to \<open>2 ^ 62\<close> ns.
\<close>

theorem backoff_base_closed_form:
  assumes "0 \<le> bo_Min b" "0 \<le> bo_Max b" "bo_Max b \<le> 2 ^ 62"
  shows "backoff_base b =
     min ((if bo_Min b = 0 then 250000000 else bo_Min b) * 2 ^ nat (bo_Attempt b))
         (if bo_Max b = 0 then 10000000000 else bo_Max b)"
  using assms by (rule backoff_base_eq)

theorem backoff_base_closed_form_witness:
  "backoff_base \<lparr>bo_Attempt = 3, bo_Min = 0, bo_Max = 0\<rparr> = 2000000000"
  using backoff_base_closed_form [of "\<lparr>bo_Attempt = 3, bo_Min = 0, bo_Max = 0\<rparr>"] by simp

text \<open>
  Every delay of the zero \<open>Backoff\<close> the daemon uses lies between 218.75 ms and 11.25 s,
  whatever the draws and however often it has failed, and no call panics.
\<close>

theorem backoff_delays_bounded:
  assumes "\<forall>draw \<in> set draws. int63n_ok draw"
  shows "list_all (\<lambda>d. \<exists>ns. d = Some ns \<and> 218750000 \<le> ns \<and> ns \<le> 11250000000)
     (backoff_delays draws \<lparr>bo_Attempt = 0, bo_Min = 0, bo_Max = 0\<rparr>)"
proof -
  have "list_all (\<lambda>d. \<exists>ns. d = Some ns \<and> 218750000 \<le> ns \<and> ns \<le> 11250000000)
      (backoff_delays draws b)" if "bo_Min b = 0" "bo_Max b = 0" for b
    using that assms
  proof (induction draws arbitrary: b)
    case (Cons draw draws)
    have base: "backoff_base b = min (250000000 * 2 ^ nat (bo_Attempt b)) 10000000000"
      using Cons.prems by (simp add: backoff_base_eq)
    have "(250000000::int) * 1 \<le> 250000000 * 2 ^ nat (bo_Attempt b)"
      by (intro mult_left_mono) auto
    with base have b: "250000000 \<le> backoff_base b" "backoff_base b \<le> 10000000000" by auto
    then obtain j where j: "0 \<le> j" "j \<le> backoff_base b div 4"
      "backoff_next draw b = (Some (backoff_base b - backoff_base b div 8 + j),
                              b\<lparr>bo_Attempt := wrap64 (bo_Attempt b + 1)\<rparr>)"
      using Cons.prems by (auto intro: backoff_next_within [of b draw])
    with b have "218750000 \<le> backoff_base b - backoff_base b div 8 + j"
      "backoff_base b - backoff_base b div 8 + j \<le> 11250000000" by linarith+
    with j Cons.IH [of "b\<lparr>bo_Attempt := wrap64 (bo_Attempt b + 1)\<rparr>"] Cons.prems
    show ?case by simp
  qed simp
  then show ?thesis by simp
qed

theorem backoff_delays_bounded_witness:
  "list_all (\<lambda>d. \<exists>ns. d = Some ns \<and> 218750000 \<le> ns \<and> ns \<le> 11250000000)
     (backoff_delays [\<lambda>n. n - 1, \<lambda>_. 0] \<lparr>bo_Attempt = 0, bo_Min = 0, bo_Max = 0\<rparr>)"
  by (rule backoff_delays_bounded) (auto simp: int63n_ok_def)

end
