(* ===== verification/Dialing.thy ===== *)
theory Dialing
  imports Sync_Session Backoff
begin

text \<open>
  Who is dialled, where and when (\<open>internal/daemon/daemon.go\<close>): one tick of \<open>connectLoop\<close>, the
  goroutines it starts, \<open>dialSync\<close>, and the manual addresses (\<open>manualEndpoints\<close>,
  \<open>ResolveManualPeer\<close>).

  Name resolution (\<open>net.LookupIP\<close>) and the interfaces of the machine are arguments. The port of
  a manual address is read by \<open>fmt.Sscan\<close> into an \<open>int\<close>, written out here as \<open>Sscan_int\<close>.
\<close>

section \<open>fmt.Sscan into an int\<close>

definition digit_in :: "nat \<Rightarrow> char \<Rightarrow> bool" where
  "digit_in base c = (case hex_value c of Some v \<Rightarrow> v < base | None \<Rightarrow> False)"

text \<open>\<open>scanBasePrefix\<close>: the digits the scanner goes on to accept, and the prefix it took.\<close>

definition scan_base_prefix :: "string \<Rightarrow> nat \<times> string \<times> string" where
  "scan_base_prefix s =
     (case s of
        c # r \<Rightarrow>
          if c \<noteq> CHR ''0'' then (10, [], s)
          else (case r of
              b # r' \<Rightarrow>
                if b \<in> set ''bB'' then (2, [c, b], r')
                else if b \<in> set ''oO'' then (8, [c, b], r')
                else if b \<in> set ''xX'' then (16, [c, b], r')
                else (8, [c], r)
            | [] \<Rightarrow> (8, [c], r))
      | [] \<Rightarrow> (10, [], s))"

text \<open>\<open>strconv.ParseInt(tok, 0, 64)\<close> without its sign: underscores may only separate digits.\<close>

fun underscore_ok :: "bool \<Rightarrow> char \<Rightarrow> string \<Rightarrow> bool" where
  "underscore_ok hex saw [] = (saw \<noteq> CHR ''_'')"
| "underscore_ok hex saw (c # cs) =
     (if digit_in 10 c \<or> hex \<and> digit_in 16 c then underscore_ok hex (CHR ''0'') cs
      else if c = CHR ''_'' then (if saw \<noteq> CHR ''0'' then False else underscore_ok hex c cs)
      else if saw = CHR ''_'' then False
      else underscore_ok hex (CHR ''!'') cs)"

fun parse_digits :: "nat \<Rightarrow> nat \<Rightarrow> string \<Rightarrow> nat option" where
  "parse_digits base n [] = Some n"
| "parse_digits base n (c # cs) =
     (if c = CHR ''_'' then parse_digits base n cs
      else case hex_value c of
        None \<Rightarrow> None
      | Some v \<Rightarrow> if v \<ge> base then None else parse_digits base (n * base + v) cs)"

definition parse_uint :: "string \<Rightarrow> nat option" where
  "parse_uint s =
     (let has_prefix_of = (\<lambda>ls. length s \<ge> 2 \<and> s ! 0 = CHR ''0'' \<and> s ! 1 \<in> set ls);
          (base, digits) =
            (if length s \<ge> 3 \<and> has_prefix_of ''bB'' then (2, drop 2 s)
             else if length s \<ge> 3 \<and> has_prefix_of ''oO'' then (8, drop 2 s)
             else if length s \<ge> 3 \<and> has_prefix_of ''xX'' then (16, drop 2 s)
             else if s \<noteq> [] \<and> s ! 0 = CHR ''0'' then (8, drop 1 s)
             else (10, s));
          separated =
            (if has_prefix_of ''bBoOxX''
             then underscore_ok (has_prefix_of ''xX'') (CHR ''0'') (drop 2 s)
             else underscore_ok False (CHR ''^'') s)
      in if s = [] then None
         else case parse_digits base 0 digits of
           None \<Rightarrow> None
         | Some n \<Rightarrow> if CHR ''_'' \<in> set s \<and> \<not> separated then None else Some n)"

definition Sscan_int :: "string \<Rightarrow> int option" where
  "Sscan_int str =
     (let s = concat (map snd (dropWhile (\<lambda>(r, _). is_space r) (rune_chunks str)));
          (neg, s) = (case s of c # r \<Rightarrow> if c = CHR ''-'' then (True, r)
                                        else if c = CHR ''+'' then (False, r) else (False, s)
                      | [] \<Rightarrow> (False, s));
          (base, pre, s) = scan_base_prefix s;
          digits = takeWhile (\<lambda>c. digit_in base c \<or> c = CHR ''_'') s
      in if pre = [] \<and> digits = [] then None
         else case parse_uint (pre @ digits) of
           None \<Rightarrow> None
         | Some n \<Rightarrow>
             if \<not> neg \<and> n \<ge> 2 ^ 63 \<or> neg \<and> n > 2 ^ 63 then None
             else Some (if neg then - int n else int n))"

section \<open>Manual addresses\<close>

datatype manual_error = LookupFailed string | NoLANAddress string

definition ResolveManualPeer ::
  "(rune \<Rightarrow> rune) \<Rightarrow> (string + net_interface list) \<Rightarrow> (string \<Rightarrow> string + ip list)
     \<Rightarrow> string \<Rightarrow> int \<Rightarrow> manual_error + string list" where
  "ResolveManualPeer tab ifaces lookup host port =
     (case lookup (trim_space host) of
        Inl e \<Rightarrow> Inl (LookupFailed e)
      | Inr ips \<Rightarrow>
          let out = map (\<lambda>ip. JoinHostPort (ip_string ip) (Itoa port))
                      (filter (\<lambda>ip. IsDirectLANIP tab ifaces (Some ip)) ips)
          in if length out = 0 then Inl (NoLANAddress host) else Inr (sort out))"

definition manual_endpoint ::
  "(rune \<Rightarrow> rune) \<Rightarrow> (string + net_interface list) \<Rightarrow> (string \<Rightarrow> string + ip list) \<Rightarrow> int
     \<Rightarrow> string \<Rightarrow> string list" where
  "manual_endpoint tab ifaces lookup listenPort host =
     (let target =
        (case SplitHostPort host of
           Some (parsedHost, parsedPort) \<Rightarrow>
             (case Sscan_int parsedPort of
                None \<Rightarrow> None
              | Some port \<Rightarrow> if port < 1 \<or> port > 65535 then None else Some (parsedHost, port))
         | None \<Rightarrow> Some (host, listenPort))
      in case target of
           None \<Rightarrow> []
         | Some (host, port) \<Rightarrow>
             (case ResolveManualPeer tab ifaces lookup host port of Inr resolved \<Rightarrow> resolved | Inl _ \<Rightarrow> []))"

definition manualEndpoints ::
  "(rune \<Rightarrow> rune) \<Rightarrow> (string + net_interface list) \<Rightarrow> (string \<Rightarrow> string + ip list) \<Rightarrow> int
     \<Rightarrow> string list \<Rightarrow> string list" where
  "manualEndpoints tab ifaces lookup listenPort manualPeers =
     concat (map (manual_endpoint tab ifaces lookup listenPort) manualPeers)"

section \<open>One tick of the connect loop\<close>

record dial_job =
  dj_id :: string
  dj_peer :: peer
  dj_endpoints :: "string list"

text \<open>
  The guards of both loops: \<open>beginConnect\<close> is the last of them, so it marks the peer only when
  the others passed.
\<close>

definition try_begin :: "identity \<Rightarrow> string \<Rightarrow> peer option \<Rightarrow> bool \<Rightarrow> registry \<Rightarrow> bool \<times> registry" where
  "try_begin own pid tp skip r =
     (if (case tp of None \<Rightarrow> True | Some p \<Rightarrow> p_State p \<noteq> Trusted) \<or> \<not> id_ID own < pid \<or> skip \<or> connected pid r
      then (False, r) else beginConnect pid r)"

fun tick_discovered ::
  "(rune \<Rightarrow> rune) \<Rightarrow> (string + net_interface list) \<Rightarrow> identity \<Rightarrow> time \<Rightarrow> disc_peer list \<Rightarrow> store
     \<Rightarrow> registry \<Rightarrow> dial_job list \<times> store \<times> registry" where
  "tick_discovered tab ifaces own now [] s r = ([], s, r)"
| "tick_discovered tab ifaces own now (dp # ds) s r =
     (let (tp, s) = Get now (dp_ID dp) s;
          (ok, r) = try_begin own (dp_ID dp) tp False r
      in if \<not> ok then tick_discovered tab ifaces own now ds s r
         else case Endpoint tab ifaces dp of
           Inl _ \<Rightarrow> tick_discovered tab ifaces own now ds s (endConnect (dp_ID dp) r)
         | Inr endpoint \<Rightarrow>
             let (jobs, s, r) = tick_discovered tab ifaces own now ds s r
             in (\<lparr>dj_id = dp_ID dp, dj_peer = the tp, dj_endpoints = [endpoint]\<rparr> # jobs, s, r))"

fun tick_manual ::
  "(string \<Rightarrow> string list) \<Rightarrow> string list \<Rightarrow> identity \<Rightarrow> peer list \<Rightarrow> registry \<Rightarrow> dial_job list \<times> registry" where
  "tick_manual endpoints seen own [] r = ([], r)"
| "tick_manual endpoints seen own (tp # ts) r =
     (let (ok, r) = try_begin own (p_ID tp) (Some tp) (p_ID tp \<in> set seen) r
      in if \<not> ok then tick_manual endpoints seen own ts r
         else if length (endpoints (p_ID tp)) = 0 then tick_manual endpoints seen own ts (endConnect (p_ID tp) r)
         else
           let (jobs, r) = tick_manual endpoints seen own ts r
           in (\<lparr>dj_id = p_ID tp, dj_peer = tp, dj_endpoints = endpoints (p_ID tp)\<rparr> # jobs, r))"

text \<open>
  The tick: \<open>eps\<close> is what \<open>manualEndpoints\<close> gives when it is asked for a peer. The clock readings are
  those of \<open>disc.Peers\<close>, \<open>store.Get\<close> and \<open>store.List\<close>.
\<close>

definition connect_tick ::
  "(rune \<Rightarrow> rune) \<Rightarrow> (string + net_interface list) \<Rightarrow> (string \<Rightarrow> string list) \<Rightarrow> identity \<Rightarrow> time \<Rightarrow> time \<Rightarrow> time
     \<Rightarrow> disc_service \<Rightarrow> store \<Rightarrow> registry \<Rightarrow> dial_job list \<times> disc_service \<times> store \<times> registry" where
  "connect_tick tab ifaces eps own nowPeers nowGet nowList d s r =
     (let (ps, d) = Peers nowPeers d;
          (jobs, s, r) = tick_discovered tab ifaces own nowGet ps s r;
          (ts, s) = ListPeers nowList s;
          (jobs', r) = tick_manual eps (map dp_ID ps) own ts r
      in (jobs @ jobs', d, s, r))"

section \<open>Dialling\<close>

datatype dial_error = DialCertificate | DialError string | DialVerify verify_error

text \<open>
  \<open>dialSync\<close> to the point where \<open>handleTLS\<close> takes the connection over: its TLS state, or the
  error. The expected fingerprint is the stored one.
\<close>

definition dialSync ::
  "bool \<Rightarrow> (string \<Rightarrow> string + connection_state) \<Rightarrow> time \<Rightarrow> store \<Rightarrow> peer \<Rightarrow> string
     \<Rightarrow> dial_error + connection_state" where
  "dialSync certOK dial now s tp endpoint =
     (if \<not> certOK then Inl DialCertificate
      else case dial endpoint of
        Inl e \<Rightarrow> Inl (DialError e)
      | Inr cs \<Rightarrow>
          (case client_verify now s ALPNSync (p_Fingerprint tp) cs of
             Some e \<Rightarrow> Inl (DialVerify e)
           | None \<Rightarrow> Inr cs))"

text \<open>
  The goroutine of a job, on the outcomes of its \<open>dialSync\<close> calls: the endpoints are tried until
  one succeeds; the backoff is reset or advanced; the dialling mark is always removed. The result
  is how long it sleeps (\<open>None\<close> if it does not).
\<close>

fun first_success :: "string option list \<Rightarrow> string option option" where
  "first_success [] = Some None"
| "first_success [e] = (case e of None \<Rightarrow> None | Some err \<Rightarrow> Some (Some err))"
| "first_success (e # es) = (case e of None \<Rightarrow> None | Some _ \<Rightarrow> first_success es)"

definition backoff_for :: "string \<Rightarrow> (string, backoff) gomap \<Rightarrow> backoff" where
  "backoff_for pid bs = (case mget bs pid of Some b \<Rightarrow> b | None \<Rightarrow> \<lparr>bo_Attempt = 0, bo_Min = 0, bo_Max = 0\<rparr>)"

definition run_job ::
  "(int \<Rightarrow> int) \<Rightarrow> string option list \<Rightarrow> dial_job \<Rightarrow> registry \<Rightarrow> (string, backoff) gomap
     \<Rightarrow> duration option \<times> registry \<times> (string, backoff) gomap" where
  "run_job draw outcomes job r bs =
     (let pid = dj_id job; b = backoff_for pid bs
      in case first_success outcomes of
           None \<Rightarrow> (None, endConnect pid r, mput pid (backoff_reset b) bs)
         | Some lastErr \<Rightarrow>
             let r = recordError pid lastErr r;
                 (d, b) = backoff_next draw b
             in (d, endConnect pid r, mput pid b bs))"

section \<open>What a tick starts\<close>

definition dialling :: "string \<Rightarrow> registry \<Rightarrow> bool" where
  "dialling pid r \<longleftrightarrow> mget (rg_connecting r) pid = Some True"

lemma dialling_simps [simp]:
  "dialling q (r\<lparr>rg_connecting := mput pid True (rg_connecting r)\<rparr>) \<longleftrightarrow> q = pid \<or> dialling q r"
  "dialling q (endConnect pid r) \<longleftrightarrow> q \<noteq> pid \<and> dialling q r"
  by (simp_all add: dialling_def endConnect_def gomap_simps)

lemma endConnect_conns [simp]: "rg_conns (endConnect pid r) = rg_conns r"
  by (simp add: endConnect_def)

lemma try_begin_cases:
  obtains (no) "try_begin own pid tp skip r = (False, r)"
  | (yes) p where "tp = Some p" "p_State p = Trusted" "id_ID own < pid" "\<not> skip" "\<not> connected pid r"
      "\<not> dialling pid r"
      "try_begin own pid tp skip r = (True, r\<lparr>rg_connecting := mput pid True (rg_connecting r)\<rparr>)"
proof (cases "(case tp of None \<Rightarrow> True | Some p \<Rightarrow> p_State p \<noteq> Trusted) \<or> \<not> id_ID own < pid \<or> skip \<or> connected pid r
    \<or> dialling pid r")
  case True
  then show thesis
    by (intro no) (auto simp: try_begin_def beginConnect_def dialling_def)
next
  case False
  then obtain p where "tp = Some p" by (cases tp) auto
  with False show thesis
    by (intro yes [of p]) (auto simp: try_begin_def beginConnect_def dialling_def)
qed

definition job_ok :: "identity \<Rightarrow> store \<Rightarrow> registry \<Rightarrow> dial_job \<Rightarrow> bool" where
  "job_ok own s r job \<longleftrightarrow> id_ID own < dj_id job \<and> trusted_at s (dj_id job) (dj_peer job)
     \<and> \<not> connected (dj_id job) r \<and> \<not> dialling (dj_id job) r \<and> dj_endpoints job \<noteq> []"

text \<open>What each of the two loops establishes.\<close>

definition starts :: "identity \<Rightarrow> store \<Rightarrow> registry \<Rightarrow> dial_job list \<Rightarrow> registry \<Rightarrow> bool" where
  "starts own s r jobs r' \<longleftrightarrow> rg_conns r' = rg_conns r \<and> distinct (map dj_id jobs)
     \<and> (\<forall>pid. dialling pid r' \<longleftrightarrow> dialling pid r \<or> pid \<in> dj_id ` set jobs)
     \<and> list_all (job_ok own s r) jobs"

lemma starts_Nil: "starts own s r [] r"
  by (simp add: starts_def)

lemma starts_Cons:
  assumes "starts own s (r\<lparr>rg_connecting := mput (dj_id job) True (rg_connecting r)\<rparr>) jobs r'"
    and "job_ok own s r job"
  shows "starts own s r (job # jobs) r'"
proof -
  have "job_ok own s r j \<and> dj_id j \<noteq> dj_id job"
    if "job_ok own s (r\<lparr>rg_connecting := mput (dj_id job) True (rg_connecting r)\<rparr>) j" for j
    using that by (auto simp: job_ok_def connected_def)
  with assms show ?thesis by (fastforce simp: starts_def list_all_iff)
qed

lemma starts_undone:
  assumes "starts own s (endConnect pid (r\<lparr>rg_connecting := mput pid True (rg_connecting r)\<rparr>)) jobs r'"
    and "\<not> dialling pid r"
  shows "starts own s r jobs r'"
proof -
  have "dialling q (endConnect pid (r\<lparr>rg_connecting := mput pid True (rg_connecting r)\<rparr>)) = dialling q r" for q
    using assms(2) by auto
  with assms(1) show ?thesis by (auto simp: starts_def job_ok_def connected_def list_all_iff)
qed

lemma starts_append:
  assumes "starts own s r jobs r1" "starts own s r1 jobs' r'"
  shows "starts own s r (jobs @ jobs') r'"
proof -
  have later: "job_ok own s r j \<and> dj_id j \<notin> dj_id ` set jobs" if "job_ok own s r1 j" for j
    using that assms(1) by (auto simp: starts_def job_ok_def connected_def)
  have own: "job_ok own s r j" "dj_id j \<notin> dj_id ` set jobs" if "j \<in> set jobs'" for j
    using later [of j] that assms(2) by (simp_all add: starts_def list_all_iff)
  then have "dj_id ` set jobs \<inter> dj_id ` set jobs' = {}" by (simp add: disjoint_iff image_iff) metis
  moreover have "list_all (job_ok own s r) jobs'" using own(1) by (simp add: list_all_iff)
  moreover have "distinct (map dj_id jobs)" "distinct (map dj_id jobs')" "list_all (job_ok own s r) jobs"
      "rg_conns r' = rg_conns r"
      "dialling pid r' \<longleftrightarrow> dialling pid r \<or> pid \<in> dj_id ` set jobs \<or> pid \<in> dj_id ` set jobs'" for pid
    using assms by (simp_all add: starts_def)
  ultimately show ?thesis
    by (simp add: starts_def image_Un)
qed

lemma starts_store: "st_peers s = st_peers s' \<Longrightarrow> starts own s r jobs r' = starts own s' r jobs r'"
  by (simp add: starts_def job_ok_def trusted_at_def list_all_iff)

lemma Get_trusted:
  assumes "store_inv s" "Get now pid s = (Some p, s')" "p_State p = Trusted"
  shows "trusted_at s pid p"
proof -
  have "mget (st_pending (prune_pending now s)) pid \<noteq> Some p"
    using store_invD(4) [OF prune_inv [OF assms(1)]] assms(3) by auto
  with assms(2,3) show ?thesis by (auto simp: Get_def trusted_at_def Let_def split: option.splits)
qed

lemma Get_store: "Get now pid s = (tp, s') \<Longrightarrow> s' = prune_pending now s"
  by (simp add: Get_def Let_def)

lemma tick_discovered_starts:
  "store_inv s \<Longrightarrow> tick_discovered tab ifaces own now ds s r = (jobs, s', r') \<Longrightarrow>
     st_peers s' = st_peers s \<and> store_inv s' \<and> starts own s r jobs r'"
proof (induction tab ifaces own now ds s r arbitrary: jobs s' r' rule: tick_discovered.induct)
  case (1 tab ifaces own now s r)
  then show ?case by (simp add: starts_Nil)
next
  case (2 tab ifaces own now dp ds s r)
  obtain tp s1 where get: "Get now (dp_ID dp) s = (tp, s1)" by fastforce
  have s1: "store_inv s1" "st_peers s1 = st_peers s"
    using Get_store [OF get] prune_inv [OF 2(4)] by simp_all
  show ?case
  proof (cases rule: try_begin_cases [of own "dp_ID dp" tp False r])
    case no
    with 2(1) [OF get [symmetric] refl no [symmetric] refl] 2(5) get s1 show ?thesis
      by (simp add: starts_store [of s1 s])
  next
    case (yes p)
    let ?r = "r\<lparr>rg_connecting := mput (dp_ID dp) True (rg_connecting r)\<rparr>"
    show ?thesis
    proof (cases "Endpoint tab ifaces dp")
      case (Inl e)
      with 2(2) [OF get [symmetric] refl yes(7) [symmetric] refl _ Inl] 2(5) get yes s1 show ?thesis
        by (auto simp: starts_store [of s1 s] intro: starts_undone)
    next
      case (Inr endpoint)
      obtain js s2 r2 where rest: "tick_discovered tab ifaces own now ds s1 ?r = (js, s2, r2)"
        by (cases "tick_discovered tab ifaces own now ds s1 ?r")
      with 2(3) [OF get [symmetric] refl yes(7) [symmetric] refl _ Inr s1(1)] s1
      have "st_peers s2 = st_peers s" "store_inv s2" "starts own s ?r js r2"
        by (auto simp: starts_store [of s1 s])
      moreover have "job_ok own s r \<lparr>dj_id = dp_ID dp, dj_peer = p, dj_endpoints = [endpoint]\<rparr>"
        using yes Get_trusted [OF 2(4)] get by (simp add: job_ok_def)
      ultimately show ?thesis
        using 2(5) get yes Inr rest starts_Cons by fastforce
    qed
  qed
qed

lemma tick_manual_starts:
  assumes "\<forall>p \<in> set ts. p_State p = Trusted \<longrightarrow> trusted_at s (p_ID p) p"
    and "tick_manual endpoints seen own ts r = (jobs, r')"
  shows "starts own s r jobs r'"
  using assms
proof (induction endpoints seen own ts r arbitrary: jobs r' rule: tick_manual.induct)
  case (1 endpoints seen own r)
  then show ?case by (simp add: starts_Nil)
next
  case (2 endpoints seen own tp ts r)
  show ?case
  proof (cases rule: try_begin_cases [of own "p_ID tp" "Some tp" "p_ID tp \<in> set seen" r])
    case no
    with 2(1) [OF no [symmetric] refl] 2(4,5) show ?thesis by simp
  next
    case (yes p)
    let ?r = "r\<lparr>rg_connecting := mput (p_ID tp) True (rg_connecting r)\<rparr>"
    show ?thesis
    proof (cases "endpoints (p_ID tp) = []")
      case True
      with 2(2) [OF yes(7) [symmetric] refl] 2(4,5) yes show ?thesis
        by (auto intro: starts_undone)
    next
      case False
      obtain js r2 where rest: "tick_manual endpoints seen own ts ?r = (js, r2)"
        by (cases "tick_manual endpoints seen own ts ?r")
      with 2(3) [OF yes(7) [symmetric] refl] 2(4) False have "starts own s ?r js r2" by simp
      moreover have "job_ok own s r \<lparr>dj_id = p_ID tp, dj_peer = tp, dj_endpoints = endpoints (p_ID tp)\<rparr>"
        using yes 2(4) False by (simp add: job_ok_def)
      ultimately show ?thesis
        using 2(5) yes False rest starts_Cons by fastforce
    qed
  qed
qed

lemma ListPeers_trusted:
  assumes "store_inv s" "ListPeers now s = (ts, s')" "p \<in> set ts" "p_State p = Trusted"
  shows "trusted_at s (p_ID p) p"
proof -
  let ?s = "prune_pending now s"
  from assms(2,3) obtain pid where "(pid, p) \<in> set (st_peers ?s) \<or> (pid, p) \<in> set (st_pending ?s)"
    by (fastforce simp: ListPeers_def Let_def)
  moreover note inv = prune_inv [OF assms(1), of now]
  have "(pid, p) \<notin> set (st_pending ?s)"
    using inv assms(4) by (auto simp: store_inv_def list_all_iff pending_entry_ok_def)
  ultimately have "(pid, p) \<in> set (st_peers s)" by simp
  then have "mget (st_peers s) pid = Some p" using assms(1) by (intro mem_mget) (simp add: store_inv_def)
  with store_invD(5) [OF assms(1)] assms(4) show ?thesis by (auto simp: trusted_at_def)
qed

lemma IsDirectLANIP_isDirect: "IsDirectLANIP tab ifaces ip = isDirectIP ip (activeLANNetworks tab ifaces)"
  by (simp add: IsDirectLANIP_def)

lemma Endpoint_direct:
  "Endpoint tab ifaces dp = Inr e \<Longrightarrow>
     \<exists>host port ip. SplitHostPort e = Some (host, port) \<and> ParseIP host = Some ip \<and> IsDirectLANIP tab ifaces (Some ip)"
  by (auto simp: Endpoint_def IsDirectLANIP_isDirect dest!: directEndpoint_SomeD split: if_splits option.splits)

lemma tick_discovered_direct:
  "tick_discovered tab ifaces own now ds s r = (jobs, s', r') \<Longrightarrow> job \<in> set jobs \<Longrightarrow> e \<in> set (dj_endpoints job) \<Longrightarrow>
     \<exists>host port ip. SplitHostPort e = Some (host, port) \<and> ParseIP host = Some ip \<and> IsDirectLANIP tab ifaces (Some ip)"
proof (induction tab ifaces own now ds s r arbitrary: jobs s' r' rule: tick_discovered.induct)
  case (2 tab ifaces own now dp ds s r)
  obtain tp s1 where get: "Get now (dp_ID dp) s = (tp, s1)" by fastforce
  obtain ok r1 where begun: "try_begin own (dp_ID dp) tp False r = (ok, r1)" by fastforce
  note IH = 2(1-3) [OF get [symmetric] refl begun [symmetric] refl]
  show ?case
  proof (cases ok)
    case True
    show ?thesis
    proof (cases "Endpoint tab ifaces dp")
      case (Inl x)
      with IH(2) True 2(4-) get begun show ?thesis by simp
    next
      case (Inr endpoint)
      obtain js s2 r2 where rest: "tick_discovered tab ifaces own now ds s1 r1 = (js, s2, r2)"
        by (cases "tick_discovered tab ifaces own now ds s1 r1")
      with Inr True 2(4-) get begun consider "e = endpoint" | "job \<in> set js" by auto
      then show ?thesis
      proof cases
        case 1
        with Endpoint_direct Inr show ?thesis by simp
      next
        case 2
        with IH(3) [OF _ Inr rest] True \<open>e \<in> set (dj_endpoints job)\<close> show ?thesis by simp
      qed
    qed
  next
    case False
    with IH(1) 2(4-) get begun show ?thesis by simp
  qed
qed simp

lemma tick_manual_endpoints:
  "tick_manual endpoints seen own ts r = (jobs, r') \<Longrightarrow> job \<in> set jobs \<Longrightarrow> dj_endpoints job = endpoints (dj_id job)"
proof (induction endpoints seen own ts r arbitrary: jobs r' rule: tick_manual.induct)
  case (2 endpoints seen own tp ts r)
  then show ?case by (auto split: prod.splits if_splits)
qed simp

lemma ResolveManualPeer_InrD:
  "ResolveManualPeer tab ifaces lookup host port = Inr out \<Longrightarrow> e \<in> set out \<Longrightarrow>
     \<exists>ip. e = JoinHostPort (ip_string ip) (Itoa port) \<and> IsDirectLANIP tab ifaces (Some ip)"
  by (auto simp: ResolveManualPeer_def Let_def split: sum.splits if_splits)

lemma manual_endpoint_local:
  assumes "e \<in> set (manual_endpoint tab ifaces lookup listenPort host)"
  shows "\<exists>ip port. e = JoinHostPort (ip_string ip) (Itoa port) \<and> IsDirectLANIP tab ifaces (Some ip)
    \<and> (port = listenPort \<or> 1 \<le> port \<and> port \<le> 65535)"
proof -
  from assms obtain h port out where "ResolveManualPeer tab ifaces lookup h port = Inr out" "e \<in> set out"
      "port = listenPort \<or> 1 \<le> port \<and> port \<le> 65535"
  proof (cases "SplitHostPort host")
    case None
    with assms show thesis
      by (cases "ResolveManualPeer tab ifaces lookup host listenPort")
        (auto simp: manual_endpoint_def intro: that)
  next
    case (Some hp)
    then obtain h q where hp: "SplitHostPort host = Some (h, q)" by (cases hp) auto
    with assms obtain port where "Sscan_int q = Some port" "1 \<le> port" "port \<le> 65535"
      by (cases "Sscan_int q") (auto simp: manual_endpoint_def split: if_splits)
    with assms hp show thesis
      by (cases "ResolveManualPeer tab ifaces lookup h port") (auto simp: manual_endpoint_def intro: that)
  qed
  with ResolveManualPeer_InrD show ?thesis by blast
qed

section \<open>Properties of dialling\<close>

text \<open>
  C32. A tick of the connect loop dials a device only if the user trusts it, its ID is the larger
  one, it is not connected and it is not being dialled already; it dials no device twice, marks
  exactly the devices it dials, and leaves the connections alone.
\<close>

theorem tick_dials_trusted_devices_once:
  assumes "store_inv s" "connect_tick tab ifaces eps own t1 t2 t3 d s r = (jobs, d', s', r')"
  shows "distinct (map dj_id jobs)
    \<and> (\<forall>job \<in> set jobs. id_ID own < dj_id job \<and> trusted_at s (dj_id job) (dj_peer job)
         \<and> \<not> connected (dj_id job) r \<and> \<not> dialling (dj_id job) r \<and> dj_endpoints job \<noteq> [])
    \<and> (\<forall>pid. dialling pid r' \<longleftrightarrow> dialling pid r \<or> pid \<in> dj_id ` set jobs)
    \<and> rg_conns r' = rg_conns r"
proof -
  obtain ps d1 where ps: "Peers t1 d = (ps, d1)" by fastforce
  obtain js s1 r1 where js: "tick_discovered tab ifaces own t2 ps s r = (js, s1, r1)"
    by (cases "tick_discovered tab ifaces own t2 ps s r")
  obtain ts s2 where ts: "ListPeers t3 s1 = (ts, s2)" by fastforce
  obtain js' r2 where js': "tick_manual eps (map dp_ID ps) own ts r1 = (js', r2)" by fastforce
  have jobs: "jobs = js @ js'" "r' = r2"
    using assms(2) by (simp_all add: connect_tick_def ps js ts js')
  from tick_discovered_starts [OF assms(1) js] have s1: "st_peers s1 = st_peers s" "store_inv s1" "starts own s r js r1"
    by auto
  have "starts own s1 r1 js' r2"
    using ListPeers_trusted [OF s1(2) ts] js' by (intro tick_manual_starts) auto
  with s1 have "starts own s r jobs r'"
    unfolding jobs by (intro starts_append) (simp_all add: starts_store [of s1 s])
  then show ?thesis by (auto simp: starts_def job_ok_def list_all_iff)
qed

text \<open>
  Only the local link is dialled, also for manual host names. Whatever a name resolves to,
  every address the tick hands to the dialler has a host that is a direct address of the local
  link, and a manual address with a port of its own is used only with a port of 1 to 65535.
\<close>

theorem dialled_addresses_are_local:
  assumes "connect_tick tab ifaces (\<lambda>_. manualEndpoints tab ifaces lookup listenPort hosts) own t1 t2 t3 d s r
      = (jobs, d', s', r')"
    and "job \<in> set jobs" "e \<in> set (dj_endpoints job)"
  shows "(\<exists>host port ip. SplitHostPort e = Some (host, port) \<and> ParseIP host = Some ip
        \<and> IsDirectLANIP tab ifaces (Some ip))
    \<or> (\<exists>ip port. e = JoinHostPort (ip_string ip) (Itoa port) \<and> IsDirectLANIP tab ifaces (Some ip)
        \<and> (port = listenPort \<or> 1 \<le> port \<and> port \<le> 65535))"
proof -
  obtain ps d1 where ps: "Peers t1 d = (ps, d1)" by fastforce
  obtain js s1 r1 where js: "tick_discovered tab ifaces own t2 ps s r = (js, s1, r1)"
    by (cases "tick_discovered tab ifaces own t2 ps s r")
  obtain ts s2 where ts: "ListPeers t3 s1 = (ts, s2)" by fastforce
  let ?eps = "\<lambda>_. manualEndpoints tab ifaces lookup listenPort hosts"
  obtain js' r2 where js': "tick_manual ?eps (map dp_ID ps) own ts r1 = (js', r2)" by fastforce
  from assms(1,2) consider "job \<in> set js" | "job \<in> set js'"
    by (auto simp: connect_tick_def ps js ts js')
  then show ?thesis
  proof cases
    case 1
    with tick_discovered_direct [OF js _ assms(3)] show ?thesis by simp
  next
    case 2
    with tick_manual_endpoints [OF js'] assms(3)
    have "e \<in> set (manualEndpoints tab ifaces lookup listenPort hosts)" by simp
    then have "\<exists>host. e \<in> set (manual_endpoint tab ifaces lookup listenPort host)"
      by (auto simp: manualEndpoints_def)
    with manual_endpoint_local show ?thesis by blast
  qed
qed

text \<open>
  C26. A dialled connection reaches the pinned key. When \<open>dialSync\<close> goes on to the session, the
  other side presented one certificate whose SHA-256 fingerprint is exactly the one stored for
  the peer dialled, and the store trusts that fingerprint at that moment.
\<close>

theorem dial_reaches_the_pinned_key:
  assumes "dialSync certOK dial now s tp endpoint = Inr cs" "length (p_Fingerprint tp) = 64"
  shows "certOK \<and> dial endpoint = Inr cs \<and> (\<exists>c. cs_PeerCertificates cs = [c]
      \<and> cert_fingerprint (cert_raw c) = p_Fingerprint tp \<and> verifySelfSigned now c = None
      \<and> TrustedFingerprint (p_Fingerprint tp) s \<noteq> None)"
proof -
  from assms(1) have d: "certOK" "dial endpoint = Inr cs" "client_verify now s ALPNSync (p_Fingerprint tp) cs = None"
    by (auto simp: dialSync_def split: if_splits sum.splits option.splits)
  from d(3) have "length (cs_PeerCertificates cs) = 1" by (auto simp: client_verify_def split: if_splits)
  then obtain c where c: "cs_PeerCertificates cs = [c]" by (auto simp: length_Suc_conv)
  with d(3) have v: "verifySelfSigned now c = None"
      "has_prefix (cert_fingerprint (cert_raw c)) (p_Fingerprint tp)"
      "TrustedFingerprint (cert_fingerprint (cert_raw c)) s \<noteq> None"
    using assms(2) by (auto simp: client_verify_def Let_def split: option.splits if_splits)
  with has_prefix_same_length [OF v(2)] assms(2) d c show ?thesis by simp
qed

text \<open>
  A dialling goroutine always gives its peer back. Whatever its attempts return, the peer is
  no longer marked as being dialled afterwards and no other mark changes; if an attempt succeeded
  the backoff starts over and no delay is taken, otherwise the last error is recorded and the
  peer's next delay is the one of its own backoff.
\<close>

theorem dialling_mark_is_removed:
  assumes "outcomes \<noteq> []" "run_job draw outcomes job r bs = (d, r', bs')"
  shows "(\<forall>pid. dialling pid r' \<longleftrightarrow> dialling pid r \<and> pid \<noteq> dj_id job)
    \<and> (if None \<in> set outcomes
       then d = None \<and> bo_Attempt (backoff_for (dj_id job) bs') = 0 \<and> stats_of r' = stats_of r
       else fst (backoff_next draw (backoff_for (dj_id job) bs)) = d
         \<and> sx_LastError (stats_of r' (dj_id job)) = safeError (last outcomes))"
proof -
  have success: "first_success outcomes = (if None \<in> set outcomes then None else Some (last outcomes))"
    using assms(1) by (induction outcomes rule: first_success.induct) (auto split: option.splits)
  have "stats_of (endConnect pid q) = stats_of q" "dialling x (recordError pid e q) = dialling x q"
      "sx_LastError (stats_of (recordError pid e q) pid) = safeError e" for pid q x e
    by (simp_all add: endConnect_def recordError_def dialling_def)
  moreover have "backoff_for pid (mput pid b bs) = b" for pid b
    by (simp add: backoff_for_def gomap_simps)
  ultimately show ?thesis
    using assms(2)
    by (cases "None \<in> set outcomes")
      (auto simp: run_job_def success backoff_reset_def Let_def split: prod.splits)
qed

section \<open>Samples\<close>

text \<open>A daemon that trusts b, has discovered nobody and is told one manual host.\<close>

definition sample_lookup :: "string \<Rightarrow> string + ip list" where
  "sample_lookup host = Inr [[10, 0, 0, 1], [192, 168, 1, 20]]"

definition sample_manual :: "string list" where
  "sample_manual = manualEndpoints (\<lambda>r. r) (Inr [sample_iface]) sample_lookup 9 [''h'']"

lemma sample_manual_eq: "sample_manual = [''192.168.1.20:9'']"
proof -
  have "SplitHostPort ''h'' = None" by code_simp
  moreover have "IsDirectLANIP (\<lambda>r. r) (Inr [sample_iface]) (Some [10, 0, 0, 1]) = False"
      "IsDirectLANIP (\<lambda>r. r) (Inr [sample_iface]) (Some [192, 168, 1, 20])"
    by code_simp+
  moreover have "JoinHostPort (ip_string [192, 168, 1, 20]) (Itoa 9) = ''192.168.1.20:9''" by code_simp
  ultimately show ?thesis
    by (simp add: sample_manual_def manualEndpoints_def manual_endpoint_def ResolveManualPeer_def sample_lookup_def)
qed

definition sample_tick :: "dial_job list \<times> disc_service \<times> store \<times> registry" where
  "sample_tick = connect_tick (\<lambda>r. r) (Inr [sample_iface]) (\<lambda>_. sample_manual) (sample_device ''a'' ''A'') 1 2 3
     sample_service (sample_link_store ''b'' ''B'') new_registry"

lemma sample_tick_eq:
  "fst sample_tick = [\<lparr>dj_id = ''b'', dj_peer = sample_trusted\<lparr>p_ID := ''b'', p_Fingerprint := cert_fingerprint ''B''\<rparr>,
     dj_endpoints = [''192.168.1.20:9'']\<rparr>]"
proof -
  have "Peers 1 sample_service = ([], sample_service)"
    by (simp add: Peers_def prune_peers_def sample_service_def)
  moreover have "ListPeers 3 (sample_link_store ''b'' ''B'')
      = ([sample_trusted\<lparr>p_ID := ''b'', p_Fingerprint := cert_fingerprint ''B''\<rparr>], sample_link_store ''b'' ''B'')"
    by (simp add: ListPeers_def prune_pending_def sample_link_store_def sample_trusted_store_def empty_store_def)
  moreover have "try_begin (sample_device ''a'' ''A'') ''b'' (Some (sample_trusted\<lparr>p_ID := ''b'', p_Fingerprint := f\<rparr>))
      False new_registry = (True, new_registry\<lparr>rg_connecting := [(''b'', True)]\<rparr>)" for f
    by (simp add: try_begin_def sample_trusted_def connected_def new_registry_def beginConnect_def sample_device_def)
  ultimately show ?thesis
    by (simp add: sample_tick_def connect_tick_def sample_manual_eq)
qed

lemma sample_link_inv: "store_inv (sample_link_store ''b'' ''B'')"
  by (simp add: sample_link_store_def store_inv_def sample_trusted_store_def empty_store_def
      stored_entry_ok_def sample_trusted_def wf_map_def)

theorem tick_dials_trusted_devices_once_witness:
  "fst sample_tick \<noteq> []
     \<and> trusted_at (sample_link_store ''b'' ''B'') (dj_id (hd (fst sample_tick))) (dj_peer (hd (fst sample_tick)))"
proof -
  obtain jobs d s r where t: "sample_tick = (jobs, d, s, r)" by (cases sample_tick)
  have jobs: "fst sample_tick = jobs" "jobs \<noteq> []" using sample_tick_eq by (auto simp: t)
  then have "hd jobs \<in> set jobs" by simp
  with tick_dials_trusted_devices_once [OF sample_link_inv t [unfolded sample_tick_def]] jobs
  show ?thesis by simp
qed

theorem dialled_addresses_are_local_witness:
  "fst sample_tick \<noteq> [] \<and> (\<exists>ip. IsDirectLANIP (\<lambda>r. r) (Inr [sample_iface]) (Some ip))"
proof -
  obtain jobs d s r where t: "sample_tick = (jobs, d, s, r)" by (cases sample_tick)
  have jobs: "fst sample_tick = jobs" by (simp add: t)
  with sample_tick_eq have "jobs \<noteq> []" "''192.168.1.20:9'' \<in> set (dj_endpoints (hd jobs))" by auto
  with dialled_addresses_are_local [OF t [unfolded sample_tick_def sample_manual_def], of "hd jobs"]
  show ?thesis using jobs by auto
qed

theorem dial_reaches_the_pinned_key_witness:
  "cert_fingerprint ''B'' = p_Fingerprint (sample_trusted\<lparr>p_Fingerprint := cert_fingerprint ''B''\<rparr>)"
proof -
  let ?tp = "sample_trusted\<lparr>p_Fingerprint := cert_fingerprint ''B''\<rparr>"
  let ?cs = "\<lparr>cs_PeerCertificates = [sample_device_cert ''b'' ''B''], cs_NegotiatedProtocol = ALPNSync\<rparr>"
  have "dialSync True (\<lambda>_. Inr ?cs) 5 (sample_link_store ''b'' ''B'') ?tp ''e'' = Inr ?cs"
    using sample_link_trust [of "''b''" "''B''"]
    by (simp add: dialSync_def client_verify_def verifySelfSigned_def sample_device_cert_def time_simps)
  from dial_reaches_the_pinned_key [OF this] show ?thesis by (auto simp: sample_device_cert_def)
qed

theorem dialling_mark_is_removed_witness:
  "\<not> dialling ''b'' (fst (snd (run_job (\<lambda>n. 0) [Some ''refused''] (hd (fst sample_tick)) new_registry [])))"
proof -
  obtain d r' bs' where "run_job (\<lambda>n. 0) [Some ''refused''] (hd (fst sample_tick)) new_registry [] = (d, r', bs')"
    by (cases "run_job (\<lambda>n. 0) [Some ''refused''] (hd (fst sample_tick)) new_registry []")
  with dialling_mark_is_removed [OF _ this] sample_tick_eq show ?thesis by simp
qed

end
