(* ===== verification/Pairing_Resolve.thy ===== *)
theory Pairing_Resolve
  imports Pairing_Trust
begin

text \<open>
  How the trust store answers references and survives a restart: \<open>resolveLocked\<close> is independent
  of the order in which Go walks the two maps and never picks between two candidates;
  \<open>TrustedFingerprint\<close> and \<open>List\<close> answer from the maps; \<open>Load\<close> of the file left by any history
  gives back the trust that was in memory, with every pending request forgotten.
\<close>

section \<open>References\<close>

lemma same_view:
  assumes "wf_map (st_peers s)" "wf_map (st_pending s)"
    "mset ps = mset (st_peers s)" "mset qs = mset (st_pending s)"
  shows "mget ps = mget (st_peers s)" "mget qs = mget (st_pending s)"
  using mset_wf_same_map [OF assms(1) assms(3) [symmetric]]
    mset_wf_same_map [OF assms(2) assms(4) [symmetric]]
  by (simp_all add: same_map_def)

lemma mset_singletonE:
  assumes "mset xs = mset ys"
  obtains "xs = []" "ys = []" | x where "xs = [x]" "ys = [x]"
    | x x' xs' y y' ys' where "xs = x # x' # xs'" "ys = y # y' # ys'"
proof -
  have len: "length xs = length ys" using assms by (metis size_mset)
  show thesis
  proof (cases xs rule: remdups_adj.cases)
    case 1
    with len show thesis by (intro that(1)) simp_all
  next
    case (2 x)
    with assms len obtain y where "ys = [y]" by (cases ys) auto
    with 2 assms show thesis by (intro that(2)) simp_all
  next
    case (3 x x' xs')
    with len obtain y y' ys' where "ys = y # y' # ys'" by (cases ys rule: remdups_adj.cases) auto
    with 3 show thesis by (intro that(3))
  qed
qed

text \<open>
  A reference resolves the same way whatever order the runtime walks the two maps in: the
  answer (the device found, or which of the errors) is a function of their contents.
\<close>

theorem resolve_independent_of_walk:
  assumes "wf_map (st_peers s)" "wf_map (st_pending s)"
    "mset ps = mset (st_peers s)" "mset qs = mset (st_pending s)"
  shows "resolve_locked tab query states (s\<lparr>st_peers := ps, st_pending := qs\<rparr>)
     = resolve_locked tab query states s"
proof -
  let ?s = "s\<lparr>st_peers := ps, st_pending := qs\<rparr>"
  have "mset (matches_of tab query states ?s) = mset (matches_of tab query states s)"
    using assms(3,4) by (simp add: matches_of_def mset_filter)
  then have *: "(case matches_of tab query states ?s of [] \<Rightarrow> Inl (if states = [Pending] then NoPendingMatch
        else NoPeerMatch) | [m] \<Rightarrow> Inr m | _ \<Rightarrow> Inl AmbiguousReference)
    = (case matches_of tab query states s of [] \<Rightarrow> Inl (if states = [Pending] then NoPendingMatch
        else NoPeerMatch) | [m] \<Rightarrow> Inr m | _ \<Rightarrow> Inl AmbiguousReference)"
    by (rule mset_singletonE) auto
  have "exact_match states (trim_space query) (st_pending ?s)
        = exact_match states (trim_space query) (st_pending s)"
      "exact_match states (trim_space query) (st_peers ?s)
        = exact_match states (trim_space query) (st_peers s)"
    using same_view [OF assms] by (simp_all add: exact_match_def)
  then show ?thesis unfolding resolve_locked_eq * by (simp only:)
qed

theorem resolve_independent_of_walk_witness:
  "resolve_locked (\<lambda>r. r) ''a'' [] (sample_trusted_store\<lparr>st_peers :=
      [(''b'', sample_trusted), (''a'', sample_trusted)], st_pending := []\<rparr>)
   = resolve_locked (\<lambda>r. r) ''a'' [] (sample_trusted_store\<lparr>st_peers :=
      [(''a'', sample_trusted), (''b'', sample_trusted)], st_pending := []\<rparr>)"
  using resolve_independent_of_walk [of "sample_trusted_store\<lparr>st_peers :=
      [(''a'', sample_trusted), (''b'', sample_trusted)], st_pending := []\<rparr>"
      "[(''b'', sample_trusted), (''a'', sample_trusted)]" "[]" "\<lambda>r. r" "''a''" "[]"]
  by (simp add: wf_map_def add_mset_commute)

text \<open>
  A reference never guesses. If it resolves, the entry found is in the store in an allowed
  state, and either the (trimmed) reference is its full ID, or the entry matches by name or ID
  prefix and no other entry of either map does.
\<close>

theorem resolve_is_unambiguous:
  assumes "store_inv s" "resolve_locked tab query states s = Inr (pid, p)"
  shows "(pid, p) \<in> set (st_peers s) \<union> set (st_pending s) \<and> state_allowed states p
    \<and> (pid = trim_space query
       \<or> {e \<in> set (st_peers s) \<union> set (st_pending s). peer_matches tab (trim_space query) states e}
           = {(pid, p)})"
proof -
  note wf = store_invD(1,2) [OF assms(1)]
  have mem: "(pid, p) \<in> set (st_peers s) \<union> set (st_pending s) \<and> state_allowed states p"
    using resolve_locked_InrD [OF wf assms(2)] by (auto dest: mget_Some_mem)
  consider "pid = trim_space query" | "matches_of tab query states s = [(pid, p)]"
    using assms(2) unfolding resolve_locked_eq by (auto split: option.splits list.splits)
  then show ?thesis
  proof cases
    case 2
    have "{e \<in> set (st_peers s) \<union> set (st_pending s).
        peer_matches tab (trim_space query) states e} = set (matches_of tab query states s)"
      unfolding matches_of_def set_append set_filter by blast
    also have "\<dots> = {(pid, p)}" by (simp only: 2 list.set)
    finally have "{e \<in> set (st_peers s) \<union> set (st_pending s).
        peer_matches tab (trim_space query) states e} = {(pid, p)}" .
    with mem show ?thesis by simp
  qed (use mem in simp)
qed

theorem resolve_is_unambiguous_witness:
  "(''a'', sample_trusted) \<in> set (st_peers sample_trusted_store) \<union> set (st_pending sample_trusted_store)"
proof -
  have "resolve_locked (\<lambda>r. r) ''a'' [Trusted] sample_trusted_store = Inr (''a'', sample_trusted)"
    by (simp add: sample_eval sample_trusted_store_def sample_trusted_def)
  from resolve_is_unambiguous [OF sample_invs(3) this] show ?thesis by blast
qed

lemma two_matches_ambiguous:
  assumes "mget (st_peers s) (trim_space query) = None" "mget (st_pending s) (trim_space query) = None"
    "e \<in> set (st_peers s)" "peer_matches tab (trim_space query) states e"
    "f \<in> set (st_pending s)" "peer_matches tab (trim_space query) states f"
  shows "resolve_locked tab query states s = Inl AmbiguousReference"
proof -
  let ?P = "peer_matches tab (trim_space query) states"
  have "e \<in> set (filter ?P (st_peers s))" "f \<in> set (filter ?P (st_pending s))"
    using assms(3-6) by simp_all
  then obtain x xs y ys where "filter ?P (st_peers s) = x # xs" "filter ?P (st_pending s) = y # ys"
    by (metis empty_iff empty_set list.exhaust)
  then have "matches_of tab query states s = x # xs @ y # ys" by (simp add: matches_of_def)
  with assms(1,2) show ?thesis
    by (auto simp: resolve_locked_eq exact_match_def split: list.split)
qed

text \<open>
  A device that is in both maps (one that was rejected and asked again) cannot be named by
  any prefix of its ID: \<open>Reject\<close> and \<open>Unpair\<close> count its two entries as two candidates and refuse
  with the ambiguity error, whose advice (a longer ID prefix) does not help short of the full ID.
\<close>

theorem rejected_device_asking_again_needs_full_id:
  assumes "store_inv s" "mget (st_peers s) pid = Some p" "mget (st_pending s) pid = Some q"
    "has_prefix pid (trim_space query)"
    "mget (st_peers s) (trim_space query) = None" "mget (st_pending s) (trim_space query) = None"
    "now < p_UpdatedAt q + st_pendingTTL s"
  shows "fst (Reject ev now now' query s) = Some AmbiguousReference
    \<and> fst (Unpair ev query s) = Some AmbiguousReference"
proof -
  have "mget (st_pending (prune_pending now s)) pid = Some q"
    using assms(3,7) store_invD(2) [OF assms(1)] by (simp add: mget_prune_pending)
  moreover have "mget (st_pending (prune_pending now s)) (trim_space query) = None"
    using assms(6) store_invD(2) [OF assms(1)] by (simp add: mget_prune_pending)
  moreover have "peer_matches tab (trim_space query) [] (pid, r)" for tab r
    using assms(4) by (simp add: peer_matches_def state_allowed_def)
  ultimately have "resolve_locked (ev_fold ev) query [] (prune_pending now s) = Inl AmbiguousReference"
      "resolve_locked (ev_fold ev) query [] s = Inl AmbiguousReference"
    using two_matches_ambiguous [of "prune_pending now s"] two_matches_ambiguous [of s] assms
    by (metis mget_Some_mem prune_pending_fields(1))+
  then show ?thesis by (simp add: Reject_def Unpair_def)
qed

definition sample_asking_again :: store where
  "sample_asking_again = empty_store\<lparr>st_peers := [(''ab'', sample_trusted\<lparr>p_ID := ''ab'', p_State := Rejected\<rparr>)],
     st_pending := [(''ab'', sample_request\<lparr>p_ID := ''ab'', p_State := Pending, p_UpdatedAt := 2\<rparr>)]\<rparr>"

theorem rejected_device_asking_again_needs_full_id_witness:
  "fst (Reject sample_env 3 4 ''a'' sample_asking_again) = Some AmbiguousReference"
proof -
  have "store_inv sample_asking_again" by code_simp
  moreover have "trim_space ''a'' = ''a''" by (simp add: trim_space_ascii)
  ultimately show ?thesis
    using rejected_device_asking_again_needs_full_id [of sample_asking_again "''ab''" _ _ "''a''" 3 sample_env 4]
    by (simp add: sample_asking_again_def empty_store_def has_prefix_def sample_request_def
        defaultPendingTTL_def minute_def second_def)
qed

section \<open>Look-ups\<close>

text \<open>
  The pin check of the transport: a fingerprint is answered exactly when some stored entry
  in state trusted carries it, and the answer is such an entry; pending and rejected devices
  never qualify.
\<close>

theorem trusted_fingerprint_sound:
  "(case TrustedFingerprint fp s of
      Some p \<Rightarrow> \<exists>pid. (pid, p) \<in> set (st_peers s) \<and> p_State p = Trusted \<and> p_Fingerprint p = fp
    | None \<Rightarrow> \<not> (\<exists>pid p. (pid, p) \<in> set (st_peers s) \<and> p_State p = Trusted \<and> p_Fingerprint p = fp))"
  by (auto simp: TrustedFingerprint_def find_Some_iff find_None_iff in_set_conv_nth
      split: option.split) (metis nth_mem)

lemma p_ID_map:
  "\<forall>e \<in> set m. p_ID (snd e) = fst e \<Longrightarrow> map p_ID (map snd m) = mkeys m"
  by simp

lemma ListPeers_distinct:
  assumes "store_inv s"
  shows "distinct (map p_ID (fst (ListPeers now s)))"
proof -
  let ?s = "prune_pending now s"
  let ?kept = "filter (\<lambda>(pid, p). mget (st_pending ?s) pid = None) (st_peers s)"
  let ?out = "map snd ?kept @ map snd (st_pending ?s)"
  note inv = prune_inv [OF assms, of now]
  have wf: "wf_map (st_peers s)" "wf_map (st_pending ?s)"
    using store_invD(1,2) [OF inv] by simp_all
  have ids: "\<forall>e \<in> set ?kept. p_ID (snd e) = fst e" "\<forall>e \<in> set (st_pending ?s). p_ID (snd e) = fst e"
    using inv by (auto simp: store_inv_def list_all_iff stored_entry_ok_def pending_entry_ok_def)
  have "map p_ID ?out = mkeys ?kept @ mkeys (st_pending ?s)"
    using p_ID_map [OF ids(1)] p_ID_map [OF ids(2)] by simp
  moreover have "distinct (mkeys ?kept)" using wf(1) by (simp add: wf_map_def distinct_map_filter)
  moreover have "set (mkeys ?kept) \<inter> set (mkeys (st_pending ?s)) = {}"
    by (force simp: map_of_eq_None_iff)
  ultimately have "distinct (map p_ID ?out)"
    using wf(2) by (simp only: distinct_append wf_map_def simp_thms)
  moreover have "mset (map p_ID (sort_key p_Name ?out)) = mset (map p_ID ?out)"
    by (simp only: mset_map mset_sort)
  ultimately have "distinct (map p_ID (sort_key p_Name ?out))"
    using mset_eq_imp_distinct_iff by blast
  then show ?thesis by (simp add: ListPeers_def Let_def)
qed

text \<open>
  The listing shows each device once: under the invariant the IDs listed are distinct,
  they are the IDs of the two maps after pruning, a pending request hides the stored entry of
  the same device, and the list is sorted by name.
\<close>

theorem list_shows_each_device_once:
  assumes "store_inv s"
  shows "distinct (map p_ID (fst (ListPeers now s)))
    \<and> sorted (map p_Name (fst (ListPeers now s)))
    \<and> set (fst (ListPeers now s)) = {p. \<exists>pid. fst (Get now pid s) = Some p}"
proof -
  let ?s = "prune_pending now s"
  let ?kept = "filter (\<lambda>(pid, p). mget (st_pending ?s) pid = None) (st_peers s)"
  let ?out = "map snd ?kept @ map snd (st_pending ?s)"
  have wf: "wf_map (st_peers s)" "wf_map (st_pending ?s)"
    using store_invD(1,2) [OF prune_inv [OF assms, of now]] by simp_all
  have "set ?out = {p. \<exists>pid. fst (Get now pid s) = Some p}"
  proof (intro set_eqI iffI)
    fix p assume "p \<in> set ?out"
    then have "\<exists>pid. mget (st_pending ?s) pid = None \<and> (pid, p) \<in> set (st_peers s)
        \<or> (pid, p) \<in> set (st_pending ?s)" by auto
    then obtain pid where "mget (st_pending ?s) pid = None \<and> (pid, p) \<in> set (st_peers s)
        \<or> (pid, p) \<in> set (st_pending ?s)" by blast
    with wf have "fst (Get now pid s) = Some p"
      by (auto simp: Get_def dest: mem_mget)
    then show "p \<in> {p. \<exists>pid. fst (Get now pid s) = Some p}" by blast
  next
    fix p assume "p \<in> {p. \<exists>pid. fst (Get now pid s) = Some p}"
    then obtain pid where "fst (Get now pid s) = Some p" by blast
    then consider "(pid, p) \<in> set (st_pending ?s)"
      | "mget (st_pending ?s) pid = None" "(pid, p) \<in> set (st_peers s)"
      by (auto simp: Get_def Let_def split: option.splits dest: mget_Some_mem)
    then show "p \<in> set ?out" by cases force+
  qed
  with ListPeers_distinct [OF assms, of now] show ?thesis
    by (simp add: ListPeers_def Let_def)
qed

theorem list_shows_each_device_once_witness:
  "distinct (map p_ID (fst (ListPeers 3 sample_pending_store)))"
  using list_shows_each_device_once [OF sample_invs(2), of 3] by simp

end
