(* ===== verification/Control_Commands.thy ===== *)
theory Control_Commands
  imports Complex_Main Dialing Pairing_Resolve
begin

text \<open>
  The daemon's answers to the command line (\<open>internal/daemon/daemon.go\<close>: \<open>handleControl\<close>,
  \<open>status\<close>, \<open>peerStatuses\<close>, \<open>doctor\<close>) and the permission check of \<open>internal/config/config.go\<close>.

  The daemon's trust store, discovery table and registry are threaded through a command in the
  order in which it touches them. Error texts of other packages, the quoting of \<open>%q\<close> and the
  formatting of instants are arguments. Where the code sorts with \<open>sort.Slice\<close> the order of
  entries with equal names is open; the model has them in the order of the walk.
\<close>

section \<open>What is reported\<close>

record clip_health =
  ch_Running :: bool
  ch_LastEvent :: string
  ch_LastError :: string

record peer_status =
  ps_Peer :: peer
  ps_Addresses :: "string list"
  ps_Stats :: stats

record doctor_check =
  dc_Name :: string
  dc_OK :: bool
  dc_Detail :: string

text \<open>The values of a \<open>map[string]any\<close>: as the daemon puts them in, and as JSON gives them back.\<close>

datatype any_value = Any_String string | Any_Int int | Any_Float rat | Any_Time time | Any_Other

record status =
  ss_Version :: string
  ss_Uptime :: string
  ss_Name :: string
  ss_DeviceID :: string
  ss_Fingerprint :: string
  ss_Clipboard :: clip_health
  ss_Discovery :: "(string, any_value) gomap"
  ss_Peers :: "peer_status list"

text \<open>The parts of the daemon that commands read and change.\<close>

record parts =
  pt_store :: store
  pt_disc :: disc_service
  pt_reg :: registry

definition ternary :: "bool \<Rightarrow> string \<Rightarrow> string \<Rightarrow> string" where
  "ternary ok a b = (if ok then a else b)"

text \<open>\<open>d.Round(time.Second).String()\<close>: half a second rounds away from zero.\<close>

definition round_seconds :: "duration \<Rightarrow> int" where
  "round_seconds d = sgn d * ((\<bar>d\<bar> + 500 * millisecond) div second)"

definition seconds_string :: "int \<Rightarrow> string" where
  "seconds_string n =
     (let u = nat \<bar>n\<bar>; h = u div 3600; m = u div 60 mod 60; sec = decimal (u mod 60) @ ''s'';
          body = (if h > 0 then decimal h @ ''h'' @ decimal m @ ''m'' @ sec
                  else if m > 0 then decimal m @ ''m'' @ sec
                  else sec)
      in if n < 0 then CHR ''-'' # body else body)"

section \<open>Permissions\<close>

datatype private_error = StatFailed string | TooOpen nat

text \<open>\<open>stat\<close> gives the permission bits of a path, or the error.\<close>

definition open_bits :: "nat \<Rightarrow> nat" where
  "open_bits mode = mode mod 64"

definition CheckPrivate :: "(string \<Rightarrow> string + nat) \<Rightarrow> string \<Rightarrow> private_error option" where
  "CheckPrivate stat path =
     (case stat path of
        Inl e \<Rightarrow> Some (StatFailed e)
      | Inr mode \<Rightarrow> if open_bits mode \<noteq> 0 then Some (TooOpen mode) else None)"

definition fileMode :: "(string \<Rightarrow> string + nat) \<Rightarrow> string \<Rightarrow> nat" where
  "fileMode stat p = (case stat p of Inl _ \<Rightarrow> 511 | Inr mode \<Rightarrow> mode)"

section \<open>peerStatuses and status\<close>

definition stored_status :: "(string, disc_peer) gomap \<Rightarrow> registry \<Rightarrow> peer \<Rightarrow> peer_status" where
  "stored_status found r p =
     (let stats = stats_of r (p_ID p);
          stats = (case mget found (p_ID p) of
             Some seen \<Rightarrow> if dp_Fingerprint seen \<noteq> [] \<and> \<not> has_prefix (p_Fingerprint p) (dp_Fingerprint seen)
                          then stats\<lparr>sx_LastError := ''discovered peer identity changed''\<rparr> else stats
           | None \<Rightarrow> stats)
      in \<lparr>ps_Peer = p,
          ps_Addresses = (case mget found (p_ID p) of Some seen \<Rightarrow> dp_Addresses seen | None \<Rightarrow> []),
          ps_Stats = stats\<rparr>)"

definition unpaired_status :: "registry \<Rightarrow> string \<times> disc_peer \<Rightarrow> peer_status" where
  "unpaired_status r = (\<lambda>(pid, seen).
     \<lparr>ps_Peer = \<lparr>p_ID = pid, p_Name = dp_Name seen, p_Fingerprint = dp_Fingerprint seen,
        p_State = ''unpaired'', p_ComparisonCode = [], p_ApprovalToken = [], p_UpdatedAt = zero_time\<rparr>,
      ps_Addresses = dp_Addresses seen, ps_Stats = stats_of r pid\<rparr>)"

definition peerStatuses :: "time \<Rightarrow> time \<Rightarrow> parts \<Rightarrow> peer_status list \<times> parts" where
  "peerStatuses nowPeers nowList pt =
     (let (ps, d) = Peers nowPeers (pt_disc pt);
          found = foldl (\<lambda>m p. mput (dp_ID p) p m) [] ps;
          (known, s) = ListPeers nowList (pt_store pt);
          r = pt_reg pt;
          out = map (stored_status found r) known
                @ map (unpaired_status r) (filter (\<lambda>(pid, _). pid \<notin> p_ID ` set known) found)
      in (sort_key (p_Name \<circ> ps_Peer) out, pt\<lparr>pt_store := s, pt_disc := d\<rparr>))"

text \<open>What \<open>status\<close> is about beside the parts: version, start time, name, identity.\<close>

record about =
  ab_version :: string
  ab_started :: time
  ab_name :: string
  ab_own :: identity

definition status_of ::
  "about \<Rightarrow> clip_health \<Rightarrow> time \<Rightarrow> time \<Rightarrow> time \<Rightarrow> time \<Rightarrow> parts \<Rightarrow> status \<times> parts" where
  "status_of ab clip now nowSeen nowPeers nowList pt =
     (let (lst, discErr) = Health (pt_disc pt);
          (seen, d) = Peers nowSeen (pt_disc pt);
          (peers, pt) = peerStatuses nowPeers nowList (pt\<lparr>pt_disc := d\<rparr>)
      in (\<lparr>ss_Version = ab_version ab,
           ss_Uptime = seconds_string (round_seconds (time_sub now (ab_started ab))),
           ss_Name = ab_name ab, ss_DeviceID = id_ID (ab_own ab),
           ss_Fingerprint = identity_fingerprint (ab_own ab), ss_Clipboard = clip,
           ss_Discovery = [(''last_browse'', Any_Time lst), (''last_error'', Any_String discErr),
             (''peers_seen'', Any_Int (int (length seen)))],
           ss_Peers = peers\<rparr>, pt))"

section \<open>doctor\<close>

text \<open>What \<open>doctor\<close> looks at outside: file modes, the tools and variables of a Wayland session.\<close>

record machine =
  mc_stat :: "string \<Rightarrow> string + nat"
  mc_config :: string
  mc_identity :: string
  mc_peers :: string
  mc_socket :: string
  mc_listening :: bool
  mc_port :: int
  mc_linux :: bool
  mc_wl_paste :: bool
  mc_wl_copy :: bool
  mc_wayland_display :: string
  mc_runtime_dir :: string
  mc_rfc3339 :: "time \<Rightarrow> string"

definition check :: "string \<Rightarrow> bool \<Rightarrow> string \<Rightarrow> doctor_check" where
  "check name ok detail = \<lparr>dc_Name = name, dc_OK = ok, dc_Detail = detail\<rparr>"

definition doctor :: "machine \<Rightarrow> clip_health \<Rightarrow> time \<Rightarrow> time \<Rightarrow> parts \<Rightarrow> doctor_check list \<times> parts" where
  "doctor mc clip nowList nowPeers pt =
     (let configOK = CheckPrivate (mc_stat mc) (mc_config mc) = None;
          identityOK = CheckPrivate (mc_stat mc) (mc_identity mc) = None;
          peersOK = CheckPrivate (mc_stat mc) (mc_peers mc) = None;
          clipDetail = (if \<not> ch_Running clip
                        then (if ch_LastError clip = [] then ''watcher is not running'' else ch_LastError clip)
                        else ''watching for text changes'');
          socketOK = open_bits (fileMode (mc_stat mc) (mc_socket mc)) = 0;
          listenerOK = mc_listening mc;
          checks =
            [check ''config permissions'' configOK (ternary configOK ''private (0600)'' ''config file must be mode 0600''),
             check ''identity permissions'' identityOK (ternary identityOK ''private (0600)'' ''identity file must be mode 0600''),
             check ''peer store permissions'' peersOK (ternary peersOK ''private (0600)'' ''peer store must be mode 0600''),
             check ''clipboard watcher'' (ch_Running clip) clipDetail,
             check ''control socket'' socketOK (ternary socketOK ''user-only'' ''socket permissions are too broad''),
             check ''listener port'' listenerOK (ternary listenerOK (''listening on TCP '' @ Itoa (mc_port mc))
               (''not listening on TCP '' @ Itoa (mc_port mc)))];
          toolsOK = mc_wl_paste mc \<and> mc_wl_copy mc;
          sessionOK = mc_wayland_display mc \<noteq> [] \<and> mc_runtime_dir mc \<noteq> [];
          checks = (if mc_linux mc then checks @
            [check ''wl-clipboard'' toolsOK (ternary toolsOK ''wl-paste and wl-copy found'' ''install wl-paste and wl-copy''),
             check ''Wayland session'' sessionOK (ternary sessionOK ''session variables available''
               ''WAYLAND_DISPLAY and XDG_RUNTIME_DIR are required'')] else checks);
          (lst, e) = Health (pt_disc pt);
          (known, s) = ListPeers nowList (pt_store pt);
          trusted = length (filter (\<lambda>p. p_State p = Trusted) known);
          (ps, d) = Peers nowPeers (pt_disc pt);
          discovered = length ps
      in (checks @
            [check ''mDNS browse'' (e = [] \<and> lst \<noteq> zero_time) (ternary (e = []) (''last browse '' @ mc_rfc3339 mc lst) e),
             check ''peer discovery'' (discovered > 0)
               (decimal discovered @ '' nearby '' @ ternary (discovered = 1) ''device'' ''devices'' @ '' found''),
             check ''peer authentication'' (trusted > 0)
               (decimal trusted @ '' paired '' @ ternary (trusted = 1) ''device'' ''devices'')],
          pt\<lparr>pt_store := s, pt_disc := d\<rparr>))"

section \<open>handleControl\<close>

record control_request =
  rq_Command :: string
  rq_Argument :: string
  rq_PairToken :: string
  rq_Fingerprint :: string
  rq_Code :: string

datatype control_data =
    No_Data | Status_Data status | Peers_Data "peer_status list" | Peer_Data peer | Checks_Data "doctor_check list"

record control_response =
  rs_OK :: bool
  rs_Error :: string
  rs_Data :: control_data

definition fail_with :: "string \<Rightarrow> control_response" where
  "fail_with err = \<lparr>rs_OK = False, rs_Error = safeError (Some err), rs_Data = No_Data\<rparr>"

definition result_of :: "string option \<Rightarrow> control_response" where
  "result_of err = (case err of Some e \<Rightarrow> fail_with e
     | None \<Rightarrow> \<lparr>rs_OK = True, rs_Error = [], rs_Data = No_Data\<rparr>)"

definition ok_data :: "control_data \<Rightarrow> control_response" where
  "ok_data d = \<lparr>rs_OK = True, rs_Error = [], rs_Data = d\<rparr>"

text \<open>What \<open>pair\<close> reads from outside, as in \<open>Pair_Session\<close>.\<close>

record pair_inputs =
  pi_ifaces :: "string + net_interface list"
  pi_nowFind :: time
  pi_certOK :: bool
  pi_dial :: "string \<Rightarrow> string + connection_state"
  pi_nowVerify :: time
  pi_nonce :: "string option"
  pi_exchange :: "message \<Rightarrow> string + message"
  pi_token :: "string option"

record control_env =
  cx_about :: about
  cx_clip :: clip_health
  cx_machine :: machine
  cx_fold :: "rune \<Rightarrow> rune"
  cx_store :: store_env
  cx_pair :: pair_inputs
  cx_clock :: "nat \<Rightarrow> time"
  cx_store_text :: "store_error \<Rightarrow> string"
  cx_pair_text :: "pair_error \<Rightarrow> string"
  cx_quote :: "string \<Rightarrow> string"

definition handleControl :: "control_env \<Rightarrow> control_request \<Rightarrow> parts \<Rightarrow> control_response \<times> parts" where
  "handleControl cx q pt =
     (let now = cx_clock cx; arg = rq_Argument q; tab = cx_fold cx;
          store_result = (\<lambda>(e, s). (result_of (map_option (cx_store_text cx) e), pt\<lparr>pt_store := s\<rparr>))
      in if rq_Command q = ''status'' then
           (let (st, pt) = status_of (cx_about cx) (cx_clip cx) (now 0) (now 1) (now 2) (now 3) pt
            in (ok_data (Status_Data st), pt))
         else if rq_Command q = ''peers'' then
           (let (ps, pt) = peerStatuses (now 0) (now 1) pt in (ok_data (Peers_Data ps), pt))
         else if rq_Command q = ''pair'' then
           (let pin = cx_pair cx; ab = cx_about cx
            in case pair (ab_own ab) (ab_name ab) tab (pi_ifaces pin) (pi_nowFind pin) arg (pi_certOK pin)
                      (pi_dial pin) (pi_nowVerify pin) (pi_nonce pin) (pi_exchange pin) (now 0) (now 1) (pi_token pin)
                      (pt_disc pt) (pt_store pt) of
                 (Inl e, d, s) \<Rightarrow> (fail_with (cx_pair_text cx e), pt\<lparr>pt_disc := d, pt_store := s\<rparr>)
               | (Inr p, d, s) \<Rightarrow> (ok_data (Peer_Data p), pt\<lparr>pt_disc := d, pt_store := s\<rparr>))
         else if rq_Command q = ''approve'' then
           store_result (Approve (cx_store cx) (now 0) (now 1) arg (rq_PairToken q) (rq_Fingerprint q) (rq_Code q) (pt_store pt))
         else if rq_Command q = ''reject'' then
           store_result (Reject (cx_store cx) (now 0) (now 1) arg (pt_store pt))
         else if rq_Command q = ''unpair'' then
           (let (found, s) = Resolve tab (now 0) arg [Trusted] (pt_store pt); pt = pt\<lparr>pt_store := s\<rparr>
            in case found of
                 Inl e \<Rightarrow> (fail_with (cx_store_text cx e), pt)
               | Inr (pid, _) \<Rightarrow>
                   let r = (case getConn pid (pt_reg pt) of
                              Some c \<Rightarrow> close_socket (pc_conn c) (pt_reg pt) | None \<Rightarrow> pt_reg pt);
                       (e, s) = Unpair (cx_store cx) pid (pt_store pt)
                   in (result_of (map_option (cx_store_text cx) e), pt\<lparr>pt_store := s, pt_reg := r\<rparr>))
         else if rq_Command q = ''doctor'' then
           (let (cs, pt) = doctor (cx_machine cx) (cx_clip cx) (now 0) (now 1) pt
            in (ok_data (Checks_Data cs), pt))
         else (fail_with (''unknown command '' @ cx_quote cx (rq_Command q)), pt))"

section \<open>What a command does to the daemon\<close>

lemma peerStatuses_reg [simp]: "pt_reg (snd (peerStatuses t1 t2 pt)) = pt_reg pt"
  by (simp add: peerStatuses_def Let_def split: prod.splits)

lemma peerStatuses_store: "st_peers (pt_store (snd (peerStatuses t1 t2 pt))) = st_peers (pt_store pt)"
  by (simp add: peerStatuses_def ListPeers_def Let_def split: prod.splits)

lemma ListPeers_store: "snd (ListPeers now s) = prune_pending now s"
  by (simp add: ListPeers_def Let_def)

lemma Peers_table: "fst (Peers now d) = sort_key dp_Name (map snd (ds_peers (prune_peers now d)))"
  "snd (Peers now d) = prune_peers now d"
  by (simp_all add: Peers_def Let_def)

text \<open>The map \<open>found\<close> is the discovery table again, when its keys are the IDs.\<close>

lemma found_keys:
  shows "set (mkeys (foldl (\<lambda>m p. mput (dp_ID p) p m) [] ps)) = dp_ID ` set ps"
    and "wf_map (foldl (\<lambda>m p. mput (dp_ID p) p m) [] ps)"
proof -
  have "set (mkeys (foldl (\<lambda>m p. mput (dp_ID p) p m) m0 ps)) = set (mkeys m0) \<union> dp_ID ` set ps
      \<and> (wf_map m0 \<longrightarrow> wf_map (foldl (\<lambda>m p. mput (dp_ID p) p m) m0 ps))" for m0
    by (induction ps arbitrary: m0) (auto simp: AList.dom_update)
  from this [of "[]"] show "set (mkeys (foldl (\<lambda>m p. mput (dp_ID p) p m) [] ps)) = dp_ID ` set ps"
    "wf_map (foldl (\<lambda>m p. mput (dp_ID p) p m) [] ps)" by simp_all
qed

lemma mget_found:
  "distinct (map dp_ID ps) \<Longrightarrow> mget (foldl (\<lambda>m p. mput (dp_ID p) p m) [] ps) pid
     = map_of (map (\<lambda>p. (dp_ID p, p)) ps) pid"
proof -
  have "distinct (map dp_ID ps) \<Longrightarrow> mget (foldl (\<lambda>m p. mput (dp_ID p) p m) m0 ps) pid
      = (case map_of (map (\<lambda>p. (dp_ID p, p)) ps) pid of Some v \<Rightarrow> Some v | None \<Rightarrow> mget m0 pid)" for m0
    by (induction ps arbitrary: m0)
      (auto simp: gomap_simps map_of_eq_None_iff image_iff split: option.splits dest!: mget_Some_mem)
  from this [of "[]"] show "distinct (map dp_ID ps) \<Longrightarrow> ?thesis"
    by (simp split: option.splits)
qed

text \<open>The IDs in the discovery table, each once.\<close>

lemma Peers_ids:
  assumes "disc_inv d"
  shows "distinct (map dp_ID (fst (Peers now d)))"
    and "dp_ID ` set (fst (Peers now d)) = set (mkeys (ds_peers (prune_peers now d)))"
proof -
  let ?m = "ds_peers (prune_peers now d)"
  have inv: "disc_inv (prune_peers now d)" by (rule disc_inv_prune [OF assms])
  then have ids: "\<forall>e \<in> set ?m. dp_ID (snd e) = fst e" and wf: "wf_map ?m"
    by (auto simp: disc_inv_def list_all_iff disc_entry_ok_def)
  have keys: "map dp_ID (map snd ?m) = mkeys ?m" using ids by simp
  have "mset (map dp_ID (sort_key dp_Name (map snd ?m))) = mset (map dp_ID (map snd ?m))"
    by (simp only: mset_map mset_sort)
  then show "distinct (map dp_ID (fst (Peers now d)))"
    using wf unfolding Peers_table keys wf_map_def using mset_eq_imp_distinct_iff by blast
  show "dp_ID ` set (fst (Peers now d)) = set (mkeys ?m)"
    unfolding Peers_table set_sort keys [symmetric] by (simp add: image_image)
qed

lemma stored_status_simps [simp]:
  "ps_Peer (stored_status found r p) = p"
  "sx_Connected (ps_Stats (stored_status found r p)) = sx_Connected (stats_of r (p_ID p))"
  by (auto simp: stored_status_def Let_def split: option.splits)

lemma unpaired_status_simps [simp]:
  "p_ID (ps_Peer (unpaired_status r e)) = fst e" "p_State (ps_Peer (unpaired_status r e)) = ''unpaired''"
  "sx_Connected (ps_Stats (unpaired_status r e)) = sx_Connected (stats_of r (fst e))"
  by (simp_all add: unpaired_status_def split: prod.splits)

section \<open>Properties\<close>

text \<open>
  The device list is complete and has no duplicates. It shows every device of the trust store
  (pending and stored) and every device seen on the network, each exactly once and sorted by
  name; a device is shown as connected exactly when the registry holds a connection for it, and
  one that is only on the network is shown as unpaired.
\<close>

theorem peer_list_is_complete:
  assumes "store_inv (pt_store pt)" "disc_inv (pt_disc pt)" "registry_ok (pt_reg pt)"
    and "peerStatuses nowPeers nowList pt = (ps, pt')"
  shows "distinct (map (p_ID \<circ> ps_Peer) ps) \<and> sorted (map (p_Name \<circ> ps_Peer) ps)
    \<and> (p_ID \<circ> ps_Peer) ` set ps = p_ID ` set (fst (ListPeers nowList (pt_store pt)))
         \<union> dp_ID ` set (fst (Peers nowPeers (pt_disc pt)))
    \<and> (\<forall>x \<in> set ps. sx_Connected (ps_Stats x) \<longleftrightarrow> connected (p_ID (ps_Peer x)) (pt_reg pt))
    \<and> (\<forall>x \<in> set ps. ps_Peer x \<in> set (fst (ListPeers nowList (pt_store pt)))
         \<or> p_State (ps_Peer x) = ''unpaired'' \<and> p_ID (ps_Peer x) \<notin> p_ID ` set (fst (ListPeers nowList (pt_store pt))))"
proof -
  let ?known = "fst (ListPeers nowList (pt_store pt))" and ?seen = "fst (Peers nowPeers (pt_disc pt))"
  let ?found = "foldl (\<lambda>m p. mput (dp_ID p) p m) [] ?seen" and ?r = "pt_reg pt"
  let ?new = "filter (\<lambda>(pid, _). pid \<notin> p_ID ` set ?known) ?found"
  let ?out = "map (stored_status ?found ?r) ?known @ map (unpaired_status ?r) ?new"
  have ps: "ps = sort_key (p_Name \<circ> ps_Peer) ?out"
    using assms(4) by (simp add: peerStatuses_def Let_def split: prod.splits)
  have ids: "map (p_ID \<circ> ps_Peer) ?out = map p_ID ?known @ mkeys ?new" by (simp add: comp_def)
  have "distinct (mkeys ?new)" using found_keys(2) [of ?seen] by (simp add: wf_map_def distinct_map_filter)
  moreover have "set (mkeys ?new) \<inter> p_ID ` set ?known = {}" by auto
  ultimately have "distinct (map (p_ID \<circ> ps_Peer) ?out)"
    using ListPeers_distinct [OF assms(1), of nowList] unfolding ids distinct_append set_map by blast
  moreover have "mset (map (p_ID \<circ> ps_Peer) ps) = mset (map (p_ID \<circ> ps_Peer) ?out)"
    unfolding ps by (simp only: mset_map mset_sort)
  ultimately have d: "distinct (map (p_ID \<circ> ps_Peer) ps)" using mset_eq_imp_distinct_iff by blast
  have n: "sorted (map (p_Name \<circ> ps_Peer) ps)"
    unfolding ps by (rule sorted_sort_key)
  have set_ps: "set ps = stored_status ?found ?r ` set ?known \<union> unpaired_status ?r ` set ?new"
    unfolding ps by simp
  have new: "fst ` set ?new = dp_ID ` set ?seen - p_ID ` set ?known"
  proof -
    have "fst ` set ?new = set (mkeys ?found) - p_ID ` set ?known" by force
    then show ?thesis by (simp only: found_keys(1))
  qed
  have "(p_ID \<circ> ps_Peer) ` set ps = p_ID ` set ?known \<union> fst ` set ?new"
    unfolding set_ps image_Un image_comp by (simp add: comp_def)
  then have i: "(p_ID \<circ> ps_Peer) ` set ps = p_ID ` set ?known \<union> dp_ID ` set ?seen"
    unfolding new by blast
  have c: "sx_Connected (ps_Stats x) = connected (p_ID (ps_Peer x)) (pt_reg pt)" if "x \<in> set ps" for x
    using that assms(3) unfolding set_ps by (auto simp: registry_ok_def)
  have k: "ps_Peer x \<in> set ?known \<or> p_State (ps_Peer x) = ''unpaired'' \<and> p_ID (ps_Peer x) \<notin> p_ID ` set ?known"
    if "x \<in> set ps" for x
    using that new unfolding set_ps by auto
  show ?thesis
    by (intro conjI ballI; (rule d | rule n | rule i | erule c | erule k))
qed

lemma handleControl_unpair:
  assumes "rq_Command q = ''unpair''"
  shows "handleControl cx q pt =
    (let (found, s) = Resolve (cx_fold cx) (cx_clock cx 0) (rq_Argument q) [Trusted] (pt_store pt); pt = pt\<lparr>pt_store := s\<rparr>
     in case found of
          Inl e \<Rightarrow> (fail_with (cx_store_text cx e), pt)
        | Inr (pid, _) \<Rightarrow>
            let r = (case getConn pid (pt_reg pt) of
                       Some c \<Rightarrow> close_socket (pc_conn c) (pt_reg pt) | None \<Rightarrow> pt_reg pt);
                (e, s) = Unpair (cx_store cx) pid (pt_store pt)
            in (result_of (map_option (cx_store_text cx) e), pt\<lparr>pt_store := s, pt_reg := r\<rparr>))"
  by (simp add: handleControl_def assms)

lemma result_of_OK [simp]: "rs_OK (result_of e) \<longleftrightarrow> e = None" "\<not> rs_OK (fail_with t)"
  by (simp_all add: result_of_def fail_with_def split: option.split)

text \<open>What a reference to a trusted device names: its full ID, or the only one it fits.\<close>

definition names_trusted :: "(rune \<Rightarrow> rune) \<Rightarrow> string \<Rightarrow> store \<Rightarrow> string \<Rightarrow> bool" where
  "names_trusted tab reference s pid \<longleftrightarrow>
     pid = trim_space reference
     \<or> {i. \<exists>p. trusted_at s i p \<and> (equal_fold tab (p_Name p) (trim_space reference)
                                  \<or> has_prefix i (trim_space reference))} = {pid}"

lemma resolve_names_trusted:
  assumes inv: "store_inv s" and found: "resolve_locked tab query [Trusted] s = Inr (pid, p)"
  shows "trusted_at s pid p \<and> names_trusted tab query s pid"
proof -
  note wf = store_invD(1,2) [OF inv]
  let ?q = "trim_space query"
  have p: "state_allowed [Trusted] p" "mget (st_pending s) pid = Some p \<or> mget (st_peers s) pid = Some p"
    using resolve_locked_InrD [OF wf found] by auto
  then have t: "trusted_at s pid p" using store_invD(4) [OF inv] by (auto simp: state_allowed_def trusted_at_def)
  have mem: "(i, r) \<in> set (matches_of tab query [Trusted] s)
      \<longleftrightarrow> trusted_at s i r \<and> (equal_fold tab (p_Name r) ?q \<or> has_prefix i ?q)" for i r
    using mem_mget [OF wf(1)] mem_mget [OF wf(2)] store_invD(4) [OF inv]
    by (fastforce simp: matches_of_def peer_matches_def state_allowed_def trusted_at_def dest: mget_Some_mem)
  consider "pid = ?q" | "matches_of tab query [Trusted] s = [(pid, p)]"
    using found unfolding resolve_locked_eq by (auto split: option.splits list.splits)
  then show ?thesis
  proof cases
    case 2
    with mem have "{i. \<exists>r. trusted_at s i r \<and> (equal_fold tab (p_Name r) ?q \<or> has_prefix i ?q)} = {pid}"
      by auto
    with t show ?thesis by (simp add: names_trusted_def)
  qed (use t in \<open>simp add: names_trusted_def\<close>)
qed

text \<open>
  C19. A successful \<open>unpair\<close> command revokes and disconnects the device that was named: the
  argument of the request is the full ID of a trusted device, or there is one trusted device only
  that has it as its name or as a prefix of its ID; that device is in neither map of the store
  afterwards, the saved file no longer has it, and if it had a registered connection, that
  connection's socket was closed. No other device loses its trust.
\<close>

theorem unpair_command_revokes:
  assumes "store_inv (pt_store pt)" "\<forall>pid \<in> set (mkeys (st_peers (pt_store pt))). trim_space pid = pid"
    and "rq_Command q = ''unpair''" "handleControl cx q pt = (resp, pt')" "rs_OK resp"
  shows "\<exists>pid p b. trusted_at (pt_store pt) pid p \<and> names_trusted (cx_fold cx) (rq_Argument q) (pt_store pt) pid
    \<and> (\<forall>i. i \<noteq> pid \<longrightarrow> mget (st_peers (pt_store pt')) i = mget (st_peers (pt_store pt)) i)
    \<and> mget (st_peers (pt_store pt')) pid = None \<and> mget (st_pending (pt_store pt')) pid = None
    \<and> ev_encode (cx_store cx) (mdel pid (st_peers (pt_store pt))) = Some b
    \<and> dk_target (st_disk (pt_store pt')) = Some (b @ [CHR 0x0A])
    \<and> (\<forall>c. getConn pid (pt_reg pt) = Some c \<longrightarrow> pc_conn c \<in> set (rg_closed (pt_reg pt')))"
proof -
  let ?s = "prune_pending (cx_clock cx 0) (pt_store pt)"
  note inv = prune_inv [OF assms(1), of "cx_clock cx 0"]
  have res: "Resolve (cx_fold cx) (cx_clock cx 0) (rq_Argument q) [Trusted] (pt_store pt)
      = (resolve_locked (cx_fold cx) (rq_Argument q) [Trusted] ?s, ?s)"
    by (simp add: Resolve_def Let_def)
  with assms(3-5) obtain pid p where found: "resolve_locked (cx_fold cx) (rq_Argument q) [Trusted] ?s = Inr (pid, p)"
    by (cases "resolve_locked (cx_fold cx) (rq_Argument q) [Trusted] ?s")
      (auto simp: handleControl_unpair Let_def)
  obtain e s' where u: "Unpair (cx_store cx) pid ?s = (e, s')" by fastforce
  with assms(3-5) res found have e: "e = None" "pt_store pt' = s'"
      "\<forall>c. getConn pid (pt_reg pt) = Some c \<longrightarrow> pc_conn c \<in> set (rg_closed (pt_reg pt'))"
    by (auto simp: handleControl_unpair Let_def getConn_def)
  from resolve_names_trusted [OF inv found]
  have t: "trusted_at ?s pid p" and named: "names_trusted (cx_fold cx) (rq_Argument q) (pt_store pt) pid"
    by (simp_all add: names_trusted_def trusted_at_def)
  then have peers: "mget (st_peers ?s) pid = Some p" by (simp add: trusted_at_def)
  have "trim_space pid = pid" using assms(2) peers by (force dest: mget_Some_mem)
  with peers store_invD(6) [OF inv t] have here: "resolve_locked tab pid [] ?s = Inr (pid, p)" for tab
    by (simp add: resolve_locked_def exact_match_def state_allowed_def)
  show ?thesis
  proof (cases rule: Unpair_cases [OF inv, of "cx_store cx" pid])
    case (1 e' s1)
    with u e(1) show ?thesis by simp
  next
    case (2 pid' p' b d)
    then have "pid' = pid" using here by simp
    with 2 u e t named show ?thesis
      by (intro exI [of _ pid] exI [of _ p] exI [of _ b]) (auto simp: trusted_at_def gomap_simps)
  qed
qed

text \<open>
  Only \<open>unpair\<close> disconnects. Every other command, \<open>reject\<close> of a connected device included,
  leaves the registry and all sockets as they are; an answer that is not OK carries no data and
  an error text of at most 300 bytes.
\<close>

theorem other_commands_keep_connections:
  assumes "handleControl cx q pt = (resp, pt')"
  shows "(rq_Command q \<noteq> ''unpair'' \<longrightarrow> pt_reg pt' = pt_reg pt)
    \<and> (rs_OK resp \<or> rs_Data resp = No_Data \<and> length (rs_Error resp) \<le> 300)"
proof -
  have fail: "length (rs_Error (fail_with t)) \<le> 300" "rs_Data (fail_with t) = No_Data" for t
    using length_safeError by (simp_all add: fail_with_def)
  have res: "rs_Data (result_of e) = No_Data" "length (rs_Error (result_of e)) \<le> 300" for e
    using fail by (simp_all add: result_of_def split: option.split)
  have doc: "pt_reg (snd (doctor mc clip t1 t2 pt)) = pt_reg pt" for mc clip t1 t2
    by (simp only: doctor_def Let_def case_prod_beta snd_conv) simp
  have st: "pt_reg (snd (status_of ab clip t0 t1 t2 t3 pt)) = pt_reg pt" for ab clip t0 t1 t2 t3
  proof -
    obtain seen d where "Peers t1 (pt_disc pt) = (seen, d)" by fastforce
    moreover obtain ps pt1 where "peerStatuses t2 t3 (pt\<lparr>pt_disc := d\<rparr>) = (ps, pt1)" by fastforce
    ultimately show ?thesis
      using peerStatuses_reg [of t2 t3 "pt\<lparr>pt_disc := d\<rparr>"] by (simp add: status_of_def Let_def split: prod.splits)
  qed
  have peers: "pt_reg (snd (peerStatuses t1 t2 pt)) = pt_reg pt" for t1 t2 by simp
  show ?thesis
  proof (cases "rq_Command q = ''unpair''")
    case True
    with assms res fail show ?thesis
      by (auto simp: handleControl_unpair Let_def split: prod.splits sum.splits)
  next
    case False
    have ok: "rs_OK (ok_data x)" for x by (simp add: ok_data_def)
    consider "rq_Command q = ''status''" | "rq_Command q = ''peers''" | "rq_Command q = ''pair''"
      | "rq_Command q = ''approve''" | "rq_Command q = ''reject''" | "rq_Command q = ''doctor''"
      | "rq_Command q \<notin> {''status'', ''peers'', ''pair'', ''approve'', ''reject'', ''unpair'', ''doctor''}"
      using False by blast
    then show ?thesis
    proof cases
      case 1
      obtain x pt1 where "status_of (cx_about cx) (cx_clip cx) (cx_clock cx 0) (cx_clock cx 1) (cx_clock cx 2)
          (cx_clock cx 3) pt = (x, pt1)" by fastforce
      with 1 assms ok st [of "cx_about cx" "cx_clip cx" "cx_clock cx 0" "cx_clock cx 1" "cx_clock cx 2" "cx_clock cx 3"]
      show ?thesis by (auto simp: handleControl_def)
    next
      case 2
      obtain x pt1 where x: "peerStatuses (cx_clock cx 0) (cx_clock cx 1) pt = (x, pt1)" by fastforce
      have "pt_reg pt1 = pt_reg pt" using peers [of "cx_clock cx 0" "cx_clock cx 1"] unfolding x snd_conv .
      with 2 assms ok x show ?thesis by (auto simp: handleControl_def)
    next
      case 3
      with assms ok fail show ?thesis
        by (auto simp: handleControl_def Let_def split: prod.splits sum.splits)
    next
      case 6
      obtain x pt1 where "doctor (cx_machine cx) (cx_clip cx) (cx_clock cx 0) (cx_clock cx 1) pt = (x, pt1)"
        by fastforce
      with 6 assms ok doc [of "cx_machine cx" "cx_clip cx" "cx_clock cx 0" "cx_clock cx 1"] show ?thesis
        by (auto simp: handleControl_def)
    qed (use assms fail res in \<open>auto simp: handleControl_def Let_def split: prod.splits\<close>)
  qed
qed

text \<open>
  The doctor's verdict is the conjunction of its conditions: all checks pass exactly when the
  configuration, identity and trust files and the socket are closed to group and others, the
  watcher and the listener run, on Linux both clipboard tools and both session variables are
  there, the last browse succeeded, and at least one device is seen and one trusted.
\<close>

theorem doctor_passes_iff:
  "list_all dc_OK (fst (doctor mc clip nowList nowPeers pt)) \<longleftrightarrow>
     (\<forall>path \<in> {mc_config mc, mc_identity mc, mc_peers mc, mc_socket mc}. CheckPrivate (mc_stat mc) path = None)
   \<and> ch_Running clip \<and> mc_listening mc
   \<and> (mc_linux mc \<longrightarrow> mc_wl_paste mc \<and> mc_wl_copy mc \<and> mc_wayland_display mc \<noteq> [] \<and> mc_runtime_dir mc \<noteq> [])
   \<and> ds_lastError (pt_disc pt) = [] \<and> ds_lastBrowse (pt_disc pt) \<noteq> zero_time
   \<and> fst (Peers nowPeers (pt_disc pt)) \<noteq> []
   \<and> (\<exists>p \<in> set (fst (ListPeers nowList (pt_store pt))). p_State p = Trusted)"
proof -
  have socket: "open_bits (fileMode st p) = 0 \<longleftrightarrow> CheckPrivate st p = None" for st p
    by (auto simp: CheckPrivate_def fileMode_def open_bits_def split: sum.splits)
  have names: "dc_OK (check a ok b) = ok" for a ok b by (simp add: check_def)
  show ?thesis
    unfolding doctor_def Let_def case_prod_beta fst_conv if_distrib [where f = "\<lambda>cs. cs @ _"]
    by (auto simp: names socket Health_def filter_empty_conv)
qed

section \<open>Samples\<close>

definition sample_pc :: peer_conn where
  "sample_pc = \<lparr>pc_ref = 1, pc_id = ''b'', pc_conn = 1, pc_addr = ''b:1'', pc_outbound = True\<rparr>"

definition sample_parts :: parts where
  "sample_parts = \<lparr>pt_store = sample_link_store ''b'' ''B'', pt_disc = sample_service,
     pt_reg = snd (register_locked sample_pc new_registry)\<rparr>"

definition sample_machine :: machine where
  "sample_machine = \<lparr>mc_stat = (\<lambda>_. Inr 384), mc_config = ''c'', mc_identity = ''i'', mc_peers = ''p'', mc_socket = ''s'',
     mc_listening = True, mc_port = 1, mc_linux = False, mc_wl_paste = False, mc_wl_copy = False,
     mc_wayland_display = [], mc_runtime_dir = [], mc_rfc3339 = (\<lambda>_. [])\<rparr>"

definition sample_control :: control_env where
  "sample_control = \<lparr>cx_about = \<lparr>ab_version = ''dev'', ab_started = 1, ab_name = ''A'', ab_own = sample_device ''a'' ''A''\<rparr>,
     cx_clip = \<lparr>ch_Running = True, ch_LastEvent = [], ch_LastError = []\<rparr>, cx_machine = sample_machine,
     cx_fold = (\<lambda>r. r), cx_store = sample_env,
     cx_pair = \<lparr>pi_ifaces = Inr [], pi_nowFind = 1, pi_certOK = True, pi_dial = (\<lambda>_. Inl []), pi_nowVerify = 1,
       pi_nonce = None, pi_exchange = (\<lambda>_. Inl []), pi_token = None\<rparr>,
     cx_clock = (\<lambda>k. 5 + int k), cx_store_text = (\<lambda>_. ''store''), cx_pair_text = (\<lambda>_. ''pair''), cx_quote = (\<lambda>s. s)\<rparr>"

definition sample_unpair_request :: control_request where
  "sample_unpair_request = \<lparr>rq_Command = ''unpair'', rq_Argument = ''b'', rq_PairToken = [], rq_Fingerprint = [], rq_Code = []\<rparr>"

lemma sample_parts_fields:
  "pt_store sample_parts = sample_link_store ''b'' ''B''" "pt_disc sample_parts = sample_service"
  "getConn ''b'' (pt_reg sample_parts) = Some sample_pc"
  by (simp_all add: sample_parts_def sample_pc_def getConn_def register_locked_def new_registry_def
      update_stats_def Let_def)

lemma sample_unpair_ok:
  "rs_OK (fst (handleControl sample_control sample_unpair_request sample_parts))"
  by (simp add: handleControl_unpair sample_unpair_request_def sample_control_def Resolve_def Unpair_def
      sample_eval sample_parts_fields sample_link_store_def sample_trusted_store_def sample_trusted_def)

theorem unpair_command_revokes_witness:
  "1 \<in> set (rg_closed (pt_reg (snd (handleControl sample_control sample_unpair_request sample_parts))))
   \<and> mget (st_peers (pt_store (snd (handleControl sample_control sample_unpair_request sample_parts)))) ''b'' = None"
proof -
  obtain resp pt' where h: "handleControl sample_control sample_unpair_request sample_parts = (resp, pt')" by fastforce
  have ids: "\<forall>pid \<in> set (mkeys (st_peers (pt_store sample_parts))). trim_space pid = pid"
    by (simp add: sample_parts_fields sample_link_store_def trim_space_ascii)
  have "store_inv (pt_store sample_parts)" by (simp add: sample_parts_fields sample_link_inv)
  moreover have "rs_OK resp" using sample_unpair_ok unfolding h fst_conv .
  moreover have "rq_Command sample_unpair_request = ''unpair''" by (simp add: sample_unpair_request_def)
  ultimately obtain pid p where
    "trusted_at (pt_store sample_parts) pid p" "mget (st_peers (pt_store pt')) pid = None"
    "\<forall>c. getConn pid (pt_reg sample_parts) = Some c \<longrightarrow> pc_conn c \<in> set (rg_closed (pt_reg pt'))"
    using unpair_command_revokes [OF _ ids _ h] by blast
  moreover from this(1) have "pid = ''b''"
    by (simp add: trusted_at_def sample_parts_fields sample_link_store_def split: if_splits)
  ultimately show ?thesis using sample_parts_fields(3) by (auto simp: h sample_pc_def)
qed

theorem other_commands_keep_connections_witness:
  "pt_reg (snd (handleControl sample_control (sample_unpair_request\<lparr>rq_Command := ''reject''\<rparr>) sample_parts))
     = pt_reg sample_parts"
proof -
  obtain resp pt' where h: "handleControl sample_control (sample_unpair_request\<lparr>rq_Command := ''reject''\<rparr>) sample_parts
      = (resp, pt')" by fastforce
  from other_commands_keep_connections [OF h] show ?thesis unfolding h snd_conv by simp
qed

theorem peer_list_is_complete_witness:
  "''b'' \<in> (p_ID \<circ> ps_Peer) ` set (fst (peerStatuses 5 6 sample_parts))"
proof -
  obtain ps pt' where h: "peerStatuses 5 6 sample_parts = (ps, pt')" by fastforce
  have "store_inv (pt_store sample_parts)" "disc_inv (pt_disc sample_parts)" "registry_ok (pt_reg sample_parts)"
    using register_locked_ok [OF new_registry_ok]
    by (simp_all add: sample_parts_fields sample_link_inv sample_parts_def disc_inv_def sample_service_def)
  from peer_list_is_complete [OF this h]
  have "p_ID ` set (fst (ListPeers 6 (pt_store sample_parts))) \<subseteq> (p_ID \<circ> ps_Peer) ` set ps" by blast
  moreover have "''b'' \<in> p_ID ` set (fst (ListPeers 6 (pt_store sample_parts)))"
    by (simp add: sample_parts_fields ListPeers_def sample_link_store_def sample_trusted_store_def sample_eval)
  ultimately show ?thesis unfolding h fst_conv by blast
qed

theorem doctor_passes_iff_witness:
  "\<not> list_all dc_OK (fst (doctor sample_machine \<lparr>ch_Running = False, ch_LastEvent = [], ch_LastError = []\<rparr> 5 6 sample_parts))"
  unfolding doctor_passes_iff by simp

end
