(* ===== verification/Files.thy ===== *)
theory Files
  imports Control_Commands
begin

text \<open>
  The part of package \<open>os\<close> the program uses on whole files: a file is its content and permission
  bits, a directory its permission bits. A fault plan says which calls fail and, for a failing
  \<open>WriteFile\<close>, how much was written after the file was truncated (\<open>None\<close> when the file could
  not be opened). Also \<open>filepath.Join\<close>.
\<close>

section \<open>Calls\<close>

record os_file =
  of_content :: string
  of_mode :: nat

record os =
  os_files :: "(string, os_file) gomap"
  os_dirs :: "(string, nat) gomap"
  os_umask :: nat

datatype sys_call = Sys_Mkdir string | Sys_Chmod string | Sys_Read string | Sys_Write string | Sys_Stat string

record faults =
  ft_error :: "sys_call \<Rightarrow> string option"
  ft_written :: "string \<Rightarrow> nat option"

definition all_works :: faults where
  "all_works = \<lparr>ft_error = (\<lambda>_. None), ft_written = (\<lambda>_. None)\<rparr>"

definition masked :: "nat \<Rightarrow> nat \<Rightarrow> nat" where
  "masked umask mode = mode - and mode umask"

datatype read_file = Not_Exist | Read_Failed string | Contents string

definition os_ReadFile :: "faults \<Rightarrow> string \<Rightarrow> os \<Rightarrow> read_file" where
  "os_ReadFile ft p s =
     (case ft_error ft (Sys_Read p) of
        Some e \<Rightarrow> Read_Failed e
      | None \<Rightarrow>
          (case mget (os_files s) p of
             Some f \<Rightarrow> Contents (of_content f)
           | None \<Rightarrow> if mget (os_dirs s) p \<noteq> None then Read_Failed ''is a directory'' else Not_Exist))"

definition write_content :: "string \<Rightarrow> string \<Rightarrow> nat \<Rightarrow> os \<Rightarrow> os" where
  "write_content p b mode s =
     s\<lparr>os_files := mput p \<lparr>of_content = b,
         of_mode = (case mget (os_files s) p of Some f \<Rightarrow> of_mode f | None \<Rightarrow> masked (os_umask s) mode)\<rparr> (os_files s)\<rparr>"

definition os_WriteFile :: "faults \<Rightarrow> string \<Rightarrow> string \<Rightarrow> nat \<Rightarrow> os \<Rightarrow> string option \<times> os" where
  "os_WriteFile ft p b mode s =
     (case ft_error ft (Sys_Write p) of
        None \<Rightarrow>
          if mget (os_files s) p = None \<and> mget (os_dirs s) p \<noteq> None then (Some ''is a directory'', s)
          else (None, write_content p b mode s)
      | Some e \<Rightarrow> (Some e, case ft_written ft p of None \<Rightarrow> s | Some n \<Rightarrow> write_content p (take n b) mode s))"

definition os_Chmod :: "faults \<Rightarrow> string \<Rightarrow> nat \<Rightarrow> os \<Rightarrow> string option \<times> os" where
  "os_Chmod ft p mode s =
     (case ft_error ft (Sys_Chmod p) of
        Some e \<Rightarrow> (Some e, s)
      | None \<Rightarrow>
          (case mget (os_files s) p of
             Some f \<Rightarrow> (None, s\<lparr>os_files := mput p (f\<lparr>of_mode := mode\<rparr>) (os_files s)\<rparr>)
           | None \<Rightarrow>
               (case mget (os_dirs s) p of
                  Some _ \<Rightarrow> (None, s\<lparr>os_dirs := mput p mode (os_dirs s)\<rparr>)
                | None \<Rightarrow> (Some ''no such file or directory'', s))))"

text \<open>Only the directory itself is kept, not the parents that are made on the way.\<close>

definition os_MkdirAll :: "faults \<Rightarrow> string \<Rightarrow> nat \<Rightarrow> os \<Rightarrow> string option \<times> os" where
  "os_MkdirAll ft p mode s =
     (case ft_error ft (Sys_Mkdir p) of
        Some e \<Rightarrow> (Some e, s)
      | None \<Rightarrow>
          (case mget (os_files s) p of
             Some _ \<Rightarrow> (Some ''not a directory'', s)
           | None \<Rightarrow>
               (case mget (os_dirs s) p of
                  Some _ \<Rightarrow> (None, s)
                | None \<Rightarrow> (None, s\<lparr>os_dirs := mput p (masked (os_umask s) mode) (os_dirs s)\<rparr>))))"

definition os_Stat :: "faults \<Rightarrow> os \<Rightarrow> string \<Rightarrow> string + nat" where
  "os_Stat ft s p =
     (case ft_error ft (Sys_Stat p) of
        Some e \<Rightarrow> Inl e
      | None \<Rightarrow>
          (case mget (os_files s) p of
             Some f \<Rightarrow> Inr (of_mode f)
           | None \<Rightarrow> (case mget (os_dirs s) p of Some m \<Rightarrow> Inr m | None \<Rightarrow> Inl ''no such file or directory'')))"

text \<open>\<open>os.WriteFile\<close> with mode 0600, then \<open>os.Chmod\<close> to 0600: how configuration and key are written.\<close>

definition write_private :: "faults \<Rightarrow> string \<Rightarrow> string \<Rightarrow> os \<Rightarrow> string option \<times> os" where
  "write_private ft p b s =
     (let (e, s) = os_WriteFile ft p b 384 s
      in if e \<noteq> None then (e, s) else os_Chmod ft p 384 s)"

lemma write_private_ok:
  assumes "write_private ft p b s = (None, s')"
  shows "mget (os_files s') p = Some \<lparr>of_content = b, of_mode = 384\<rparr>" "os_dirs s' = os_dirs s"
    "q \<noteq> p \<Longrightarrow> mget (os_files s') q = mget (os_files s) q"
  using assms by (auto simp: write_private_def os_WriteFile_def os_Chmod_def write_content_def gomap_simps
      split: prod.splits option.splits if_splits)

lemma os_ReadFile_Contents:
  "os_ReadFile ft p s = Contents b \<longleftrightarrow> ft_error ft (Sys_Read p) = None \<and> (\<exists>f. mget (os_files s) p = Some f \<and> of_content f = b)"
  by (auto simp: os_ReadFile_def split: option.splits if_splits)

lemma os_ReadFile_Not_Exist:
  "os_ReadFile ft p s = Not_Exist \<longleftrightarrow> ft_error ft (Sys_Read p) = None
     \<and> mget (os_files s) p = None \<and> mget (os_dirs s) p = None"
  by (auto simp: os_ReadFile_def split: option.splits if_splits)

section \<open>Paths\<close>

fun split_slash :: "string \<Rightarrow> string list" where
  "split_slash [] = [[]]"
| "split_slash (c # cs) =
     (if c = CHR ''/'' then [] # split_slash cs
      else case split_slash cs of w # ws \<Rightarrow> (c # w) # ws | [] \<Rightarrow> [[c]])"

text \<open>\<open>filepath.Clean\<close> on the elements of a path, the last element taken first.\<close>

definition clean_element :: "bool \<Rightarrow> string \<Rightarrow> string list \<Rightarrow> string list" where
  "clean_element rooted e done =
     (if e = [] \<or> e = ''.'' then done
      else if e = ''..'' then
        (case done of
           d # ds \<Rightarrow> if d = ''..'' then e # done else ds
         | [] \<Rightarrow> if rooted then [] else [e])
      else e # done)"

definition path_Clean :: "string \<Rightarrow> string" where
  "path_Clean p =
     (let rooted = (p \<noteq> [] \<and> hd p = CHR ''/'');
          els = rev (fold (clean_element rooted) (split_slash p) [])
      in if rooted then CHR ''/'' # join_with ''/'' els
         else if els = [] then ''.'' else join_with ''/'' els)"

definition path_Join :: "string list \<Rightarrow> string" where
  "path_Join els =
     (case dropWhile (\<lambda>e. e = []) els of [] \<Rightarrow> [] | rest \<Rightarrow> path_Clean (join_with ''/'' rest))"

end
