(* ===== verification/Config_File.thy ===== *)
theory Config_File
  imports Files
begin

text \<open>
  \<open>internal/config\<close>: the paths, the configuration file and the device name. JSON encoding and
  decoding of the configuration and the environment are arguments.
\<close>

section \<open>State\<close>

record config =
  cf_Version :: int
  cf_Name :: string
  cf_ListenPort :: int
  cf_ServiceType :: string
  cf_MaxClipboardBytes :: int
  cf_ManualPeers :: "string list"

record paths =
  pa_ConfigDir :: string
  pa_DataDir :: string
  pa_RuntimeDir :: string
  pa_Config :: string
  pa_Identity :: string
  pa_Peers :: string
  pa_Socket :: string

definition DefaultPort :: int where
  "DefaultPort = 24872"

definition MaxPayload :: int where
  "MaxPayload = 1048576"

section \<open>Paths and names\<close>

definition DefaultPaths :: "bool \<Rightarrow> string + string \<Rightarrow> (string \<Rightarrow> string) \<Rightarrow> string + paths" where
  "DefaultPaths darwin home getenv =
     (case home of
        Inl e \<Rightarrow> Inl e
      | Inr home \<Rightarrow>
          if darwin then
            (let base = path_Join [home, ''Library'', ''Application Support'', ''Lanclip'']
             in Inr \<lparr>pa_ConfigDir = base, pa_DataDir = base, pa_RuntimeDir = base,
                  pa_Config = path_Join [base, ''config.json''], pa_Identity = path_Join [base, ''identity.pem''],
                  pa_Peers = path_Join [base, ''peers.json''], pa_Socket = path_Join [base, ''lanclip.sock'']\<rparr>)
          else
            (let cfg = getenv ''XDG_CONFIG_HOME'';
                 cfg = (if cfg = [] then path_Join [home, ''.config''] else cfg);
                 data = getenv ''XDG_DATA_HOME'';
                 data = (if data = [] then path_Join [home, ''.local'', ''share''] else data);
                 run = getenv ''XDG_RUNTIME_DIR''
             in if run = [] then Inl ''XDG_RUNTIME_DIR is not set''
                else let cfg = path_Join [cfg, ''lanclip'']; data = path_Join [data, ''lanclip'']
                     in Inr \<lparr>pa_ConfigDir = cfg, pa_DataDir = data, pa_RuntimeDir = run,
                          pa_Config = path_Join [cfg, ''config.json''], pa_Identity = path_Join [data, ''identity.pem''],
                          pa_Peers = path_Join [data, ''peers.json''], pa_Socket = path_Join [run, ''lanclip.sock'']\<rparr>))"

definition cleanDeviceName :: "string \<Rightarrow> string" where
  "cleanDeviceName name = NormalizeDeviceName name"

text \<open>\<open>hostname\<close> is what \<open>os.Hostname\<close> gives (empty on an error), \<open>scutil\<close> the tool's output if it succeeds.\<close>

definition platformDeviceName_linux :: "string \<Rightarrow> string" where
  "platformDeviceName_linux hostname = cleanDeviceName hostname"

definition platformDeviceName_darwin :: "string option \<Rightarrow> string \<Rightarrow> string" where
  "platformDeviceName_darwin scutil hostname =
     (let name = (case scutil of Some out \<Rightarrow> cleanDeviceName out | None \<Rightarrow> [])
      in if scutil \<noteq> None \<and> name \<noteq> [] then name else cleanDeviceName hostname)"

section \<open>The configuration file\<close>

definition Default :: "string \<Rightarrow> config" where
  "Default device = \<lparr>cf_Version = 1, cf_Name = device, cf_ListenPort = DefaultPort,
     cf_ServiceType = ''_lanclip._tcp'', cf_MaxClipboardBytes = MaxPayload, cf_ManualPeers = []\<rparr>"

datatype config_error =
    Config_Sys string | No_Device_Name | Config_Parse string | Unsupported_Version int | Invalid_Values

definition save_config ::
  "faults \<Rightarrow> (config \<Rightarrow> string + string) \<Rightarrow> string \<Rightarrow> config \<Rightarrow> os \<Rightarrow> string option \<times> os" where
  "save_config ft marshal path cfg s =
     (case marshal cfg of
        Inl e \<Rightarrow> (Some e, s)
      | Inr b \<Rightarrow> write_private ft path (b @ [CHR 0x0A]) s)"

fun make_dirs :: "faults \<Rightarrow> string list \<Rightarrow> os \<Rightarrow> string option \<times> os" where
  "make_dirs ft [] s = (None, s)"
| "make_dirs ft (dir # dirs) s =
     (case os_MkdirAll ft dir 448 s of
        (Some e, s) \<Rightarrow> (Some e, s)
      | (None, s) \<Rightarrow>
          (case os_Chmod ft dir 448 s of
             (Some e, s) \<Rightarrow> (Some e, s)
           | (None, s) \<Rightarrow> make_dirs ft dirs s))"

definition check_config :: "config \<Rightarrow> config_error + config" where
  "check_config cfg =
     (if cf_Version cfg \<noteq> 1 then Inl (Unsupported_Version (cf_Version cfg))
      else if cf_Name cfg = [] \<or> cf_ListenPort cfg < 1 \<or> cf_ListenPort cfg > 65535
           \<or> cf_MaxClipboardBytes cfg < 1 \<or> cf_MaxClipboardBytes cfg > MaxPayload
        then Inl Invalid_Values
      else Inr (if cf_ServiceType cfg = [] then cfg\<lparr>cf_ServiceType := ''_lanclip._tcp''\<rparr> else cfg))"

definition config_LoadOrCreate ::
  "faults \<Rightarrow> (config \<Rightarrow> string + string) \<Rightarrow> (string \<Rightarrow> string + config) \<Rightarrow> string \<Rightarrow> paths \<Rightarrow> os
     \<Rightarrow> (config_error + config) \<times> os" where
  "config_LoadOrCreate ft marshal unmarshal device paths s =
     (case make_dirs ft [pa_ConfigDir paths, pa_DataDir paths] s of
        (Some e, s) \<Rightarrow> (Inl (Config_Sys e), s)
      | (None, s) \<Rightarrow>
     (case os_ReadFile ft (pa_Config paths) s of
        Not_Exist \<Rightarrow>
          (let cfg = Default device
           in if cf_Name cfg = [] then (Inl No_Device_Name, s)
              else case save_config ft marshal (pa_Config paths) cfg s of
                (Some e, s) \<Rightarrow> (Inl (Config_Sys e), s)
              | (None, s) \<Rightarrow> (Inr cfg, s))
      | Read_Failed e \<Rightarrow> (Inl (Config_Sys e), s)
      | Contents b \<Rightarrow>
     (case unmarshal b of
        Inl e \<Rightarrow> (Inl (Config_Parse e), s)
      | Inr cfg \<Rightarrow>
     (case check_config cfg of
        Inl e \<Rightarrow> (Inl e, s)
      | Inr cfg \<Rightarrow>
          let current = device
          in if current \<noteq> [] \<and> current \<noteq> cf_Name cfg then
               (let cfg = cfg\<lparr>cf_Name := current\<rparr>
                in case save_config ft marshal (pa_Config paths) cfg s of
                     (Some e, s) \<Rightarrow> (Inl (Config_Sys e), s)
                   | (None, s) \<Rightarrow> (Inr cfg, s))
             else (Inr cfg, s)))))"

section \<open>Lemmas\<close>

lemma save_config_ok:
  assumes "save_config ft marshal path cfg s = (None, s')"
  obtains b where "marshal cfg = Inr b" "mget (os_files s') path = Some \<lparr>of_content = b @ [CHR 0x0A], of_mode = 384\<rparr>"
    "os_dirs s' = os_dirs s"
  using assms write_private_ok by (fastforce simp: save_config_def split: sum.splits)

lemma os_Chmod_ok:
  assumes "os_Chmod ft p m s = (None, s')"
  shows "map_option of_content (mget (os_files s') q) = map_option of_content (mget (os_files s) q)"
    and "mget (os_files s) p = None \<Longrightarrow> mget (os_dirs s') p = Some m \<and> os_files s' = os_files s
      \<and> (q \<noteq> p \<longrightarrow> mget (os_dirs s') q = mget (os_dirs s) q)"
  using assms by (auto simp: os_Chmod_def gomap_simps split: option.splits)

lemma make_dirs_ok:
  "make_dirs ft dirs s = (None, s') \<Longrightarrow>
     os_files s' = os_files s \<and> (\<forall>d. mget (os_dirs s') d = (if d \<in> set dirs then Some 448 else mget (os_dirs s) d))
     \<and> (\<forall>d \<in> set dirs. mget (os_files s) d = None)"
proof (induction dirs arbitrary: s)
  case (Cons dir dirs)
  from Cons.prems obtain s1 s2 where m: "os_MkdirAll ft dir 448 s = (None, s1)" "os_Chmod ft dir 448 s1 = (None, s2)"
      "make_dirs ft dirs s2 = (None, s')"
    by (auto split: prod.splits option.splits)
  have 1: "os_files s1 = os_files s" "mget (os_files s) dir = None" "\<forall>d. d \<noteq> dir \<longrightarrow> mget (os_dirs s1) d = mget (os_dirs s) d"
    using m(1) by (auto simp: os_MkdirAll_def gomap_simps split: option.splits)
  then have 2: "mget (os_dirs s2) dir = Some 448 \<and> os_files s2 = os_files s1
      \<and> (\<forall>d. d \<noteq> dir \<longrightarrow> mget (os_dirs s2) d = mget (os_dirs s1) d)"
    using os_Chmod_ok(2) [OF m(2)] by auto
  with Cons.IH [OF m(3)] 1 show ?case by auto
qed simp

text \<open>The three ways to succeed: created, loaded, loaded and renamed.\<close>

lemma config_LoadOrCreate_cases:
  assumes "config_LoadOrCreate ft marshal unmarshal device paths s = (Inr cfg, s')"
  obtains (created) s1 where "make_dirs ft [pa_ConfigDir paths, pa_DataDir paths] s = (None, s1)"
      "os_ReadFile ft (pa_Config paths) s1 = Not_Exist" "device \<noteq> []" "cfg = Default device"
      "save_config ft marshal (pa_Config paths) cfg s1 = (None, s')"
  | (loaded) s1 b cfg0 where "make_dirs ft [pa_ConfigDir paths, pa_DataDir paths] s = (None, s1)"
      "os_ReadFile ft (pa_Config paths) s1 = Contents b" "unmarshal b = Inr cfg0" "check_config cfg0 = Inr cfg"
      "device = [] \<or> device = cf_Name cfg" "s' = s1"
  | (renamed) s1 b cfg0 cfg1 where "make_dirs ft [pa_ConfigDir paths, pa_DataDir paths] s = (None, s1)"
      "os_ReadFile ft (pa_Config paths) s1 = Contents b" "unmarshal b = Inr cfg0" "check_config cfg0 = Inr cfg1"
      "device \<noteq> []" "cfg = cfg1\<lparr>cf_Name := device\<rparr>" "save_config ft marshal (pa_Config paths) cfg s1 = (None, s')"
  using assms unfolding config_LoadOrCreate_def
  by (auto simp: Let_def Default_def split: prod.splits option.splits read_file.splits sum.splits if_splits)

lemma check_config_Inr:
  "check_config cfg0 = Inr cfg \<Longrightarrow> cf_Version cfg = 1 \<and> cf_Name cfg \<noteq> [] \<and> 1 \<le> cf_ListenPort cfg
     \<and> cf_ListenPort cfg \<le> 65535 \<and> 1 \<le> cf_MaxClipboardBytes cfg \<and> cf_MaxClipboardBytes cfg \<le> MaxPayload
     \<and> cf_ServiceType cfg \<noteq> []"
  by (auto simp: check_config_def split: if_splits)

lemma check_config_fixed: "check_config cfg0 = Inr cfg \<Longrightarrow> n \<noteq> [] \<Longrightarrow> check_config (cfg\<lparr>cf_Name := n\<rparr>) = Inr (cfg\<lparr>cf_Name := n\<rparr>)"
  by (auto simp: check_config_def split: if_splits)

lemma Default_ok: "device \<noteq> [] \<Longrightarrow> check_config (Default device) = Inr (Default device)"
  by (simp add: check_config_def Default_def DefaultPort_def MaxPayload_def)

lemma os_calls_work:
  "mget (os_files s) d = None \<Longrightarrow> \<exists>s1. os_MkdirAll all_works d m s = (None, s1)
     \<and> os_files s1 = os_files s \<and> mget (os_dirs s1) d \<noteq> None"
  "mget (os_files s) d = None \<Longrightarrow> mget (os_dirs s) d \<noteq> None \<Longrightarrow> \<exists>s1. os_Chmod all_works d m s = (None, s1)
     \<and> os_files s1 = os_files s"
  by (auto simp: os_MkdirAll_def os_Chmod_def all_works_def gomap_simps split: option.splits)

lemma make_dirs_works:
  "\<forall>d \<in> set dirs. mget (os_files s) d = None \<Longrightarrow> \<exists>s'. make_dirs all_works dirs s = (None, s')"
proof (induction dirs arbitrary: s)
  case (Cons dir dirs)
  then obtain s1 where 1: "os_MkdirAll all_works dir 448 s = (None, s1)" "os_files s1 = os_files s" "mget (os_dirs s1) dir \<noteq> None"
    using os_calls_work(1) [of s dir 448] by auto
  with Cons.prems obtain s2 where 2: "os_Chmod all_works dir 448 s1 = (None, s2)" "os_files s2 = os_files s"
    using os_calls_work(2) [of s1 dir 448] by auto
  then have "\<exists>s'. make_dirs all_works dirs s2 = (None, s')" using Cons by simp
  with 1 2 show ?case by simp
qed simp

section \<open>Properties\<close>

lemma loaded_config_valid:
  assumes "config_LoadOrCreate ft marshal unmarshal device paths s = (Inr cfg, s')"
  shows "cf_Version cfg = 1 \<and> cf_Name cfg \<noteq> [] \<and> (device \<noteq> [] \<longrightarrow> cf_Name cfg = device)
    \<and> 1 \<le> cf_ListenPort cfg \<and> cf_ListenPort cfg \<le> 65535
    \<and> 1 \<le> cf_MaxClipboardBytes cfg \<and> cf_MaxClipboardBytes cfg \<le> MaxPayload \<and> cf_ServiceType cfg \<noteq> []
    \<and> mget (os_dirs s') (pa_ConfigDir paths) = Some 448 \<and> mget (os_dirs s') (pa_DataDir paths) = Some 448"
proof -
  have dirs: "mget (os_dirs s1) (pa_ConfigDir paths) = Some 448 \<and> mget (os_dirs s1) (pa_DataDir paths) = Some 448"
    if "make_dirs ft [pa_ConfigDir paths, pa_DataDir paths] s = (None, s1)" for s1
    using make_dirs_ok [OF that] by simp
  from assms show ?thesis
  proof (cases rule: config_LoadOrCreate_cases)
    case (created s1)
    with check_config_Inr [OF Default_ok [OF created(3)]] dirs [OF created(1)] show ?thesis
      by (auto simp: Default_def elim: save_config_ok)
  next
    case (loaded s1 b cfg0)
    with check_config_Inr [OF loaded(4)] dirs [OF loaded(1)] show ?thesis by auto
  next
    case (renamed s1 b cfg0 cfg1)
    with check_config_Inr [OF renamed(4)] dirs [OF renamed(1)] show ?thesis by (auto elim: save_config_ok)
  qed
qed

text \<open>
  C22. The daemon only ever runs with a valid configuration. Whatever the file holds and whichever
  calls fail, when \<open>LoadOrCreate\<close> returns a configuration its version is 1, its port is a port,
  its clipboard limit is between one byte and one megabyte, name and service type are not empty,
  the name is the host's present name if that can be determined, and both directories are
  closed to group and others.
\<close>

theorem loaded_config_is_valid:
  assumes "config_LoadOrCreate ft marshal unmarshal device paths s = (Inr cfg, s')"
  shows "cf_Version cfg = 1 \<and> cf_Name cfg \<noteq> [] \<and> (device \<noteq> [] \<longrightarrow> cf_Name cfg = device)
    \<and> 1 \<le> cf_ListenPort cfg \<and> cf_ListenPort cfg \<le> 65535
    \<and> 1 \<le> cf_MaxClipboardBytes cfg \<and> cf_MaxClipboardBytes cfg \<le> MaxPayload \<and> cf_ServiceType cfg \<noteq> []
    \<and> mget (os_dirs s') (pa_ConfigDir paths) = Some 448 \<and> mget (os_dirs s') (pa_DataDir paths) = Some 448"
  by (rule loaded_config_valid [OF assms])

text \<open>
  C35. A restart finds the same configuration. After a successful \<open>LoadOrCreate\<close>, whether it
  created, kept or renamed the configuration, the next one on the same host returns the same
  configuration and leaves the file's content as it is, provided \<open>Unmarshal\<close> reads back what
  \<open>MarshalIndent\<close> wrote (the newline after it included).
\<close>

theorem config_survives_restart:
  assumes "config_LoadOrCreate ft marshal unmarshal device paths s = (Inr cfg, s')"
    and "\<And>c b. marshal c = Inr b \<Longrightarrow> unmarshal (b @ [CHR 0x0A]) = Inr c"
  shows "\<exists>s''. config_LoadOrCreate all_works marshal unmarshal device paths s' = (Inr cfg, s'')
    \<and> os_files s'' = os_files s'"
proof -
  let ?dirs = "[pa_ConfigDir paths, pa_DataDir paths]"
  have again: ?thesis if free: "\<forall>d \<in> set ?dirs. mget (os_files s') d = None"
    and stored: "mget (os_files s') (pa_Config paths) = Some f" "unmarshal (of_content f) = Inr c" "check_config c = Inr cfg"
    and name: "device = [] \<or> device = cf_Name cfg" for f c
  proof -
    obtain s2 where m: "make_dirs all_works ?dirs s' = (None, s2)" using make_dirs_works [OF free] by blast
    then have "os_files s2 = os_files s'" using make_dirs_ok by blast
    with m stored name show ?thesis
      by (auto simp: config_LoadOrCreate_def os_ReadFile_def all_works_def)
  qed
  have saved: ?thesis if m: "make_dirs ft ?dirs s = (None, s1)" and sv: "save_config ft marshal (pa_Config paths) cfg s1 = (None, s')"
    and c: "check_config cfg = Inr cfg" "device = cf_Name cfg" and other: "pa_Config paths \<notin> set ?dirs" for s1
  proof -
    obtain b where b: "marshal cfg = Inr b" "mget (os_files s') (pa_Config paths) = Some \<lparr>of_content = b @ [CHR 0x0A], of_mode = 384\<rparr>"
      using save_config_ok [OF sv] by metis
    have "\<forall>d \<in> set ?dirs. mget (os_files s') d = None"
      using make_dirs_ok [OF m] other sv b(1) write_private_ok(3) [of ft "pa_Config paths" "b @ [CHR 0x0A]" s1 s']
      by (auto simp: save_config_def)
    from again [OF this b(2)] assms(2) [OF b(1)] c show ?thesis by simp
  qed
  from assms(1) show ?thesis
  proof (cases rule: config_LoadOrCreate_cases)
    case (created s1)
    then have "pa_Config paths \<notin> set ?dirs" using make_dirs_ok [OF created(1)] by (auto simp: os_ReadFile_Not_Exist)
    moreover have "check_config cfg = Inr cfg" unfolding created(4) by (rule Default_ok [OF created(3)])
    moreover have "device = cf_Name cfg" by (simp add: created(4) Default_def)
    ultimately show ?thesis by (intro saved [OF created(1,5)])
  next
    case (loaded s1 b cfg0)
    then obtain f where f: "mget (os_files s1) (pa_Config paths) = Some f" "of_content f = b"
      by (auto simp: os_ReadFile_Contents)
    have "\<forall>d \<in> set ?dirs. mget (os_files s') d = None" using make_dirs_ok [OF loaded(1)] loaded(6) by auto
    from again [OF this] f loaded show ?thesis by auto
  next
    case (renamed s1 b cfg0 cfg1)
    then have "pa_Config paths \<notin> set ?dirs" using make_dirs_ok [OF renamed(1)] by (auto simp: os_ReadFile_Contents)
    moreover have "check_config cfg = Inr cfg" unfolding renamed(6) by (rule check_config_fixed [OF renamed(4,5)])
    moreover have "device = cf_Name cfg" by (simp add: renamed(6))
    ultimately show ?thesis by (intro saved [OF renamed(1,7)])
  qed
qed

text \<open>
  C40. A configuration is lost when its rewriting is interrupted. The host was renamed, so a valid
  configuration is written anew in place; if that write fails after the file was truncated (a full
  disk, a crash), the daemon does not start, and from then on it never starts again whatever the
  host's name, because the file that is left does not parse: the user's manual peers are gone.
\<close>

theorem interrupted_config_save_is_fatal:
  assumes "make_dirs ft [pa_ConfigDir paths, pa_DataDir paths] s = (None, s1)"
    and "os_ReadFile ft (pa_Config paths) s1 = Contents b" "unmarshal b = Inr cfg0" "check_config cfg0 = Inr cfg1"
    and "device \<noteq> []" "device \<noteq> cf_Name cfg1" "marshal (cfg1\<lparr>cf_Name := device\<rparr>) = Inr b'"
    and "ft_error ft (Sys_Write (pa_Config paths)) = Some e" "ft_written ft (pa_Config paths) = Some n"
    and "unmarshal (take n (b' @ [CHR 0x0A])) = Inl e'"
  shows "\<exists>s'. config_LoadOrCreate ft marshal unmarshal device paths s = (Inl (Config_Sys e), s')
    \<and> (\<forall>device'. fst (config_LoadOrCreate all_works marshal unmarshal device' paths s') = Inl (Config_Parse e'))"
proof -
  let ?dirs = "[pa_ConfigDir paths, pa_DataDir paths]" and ?cut = "take n (b' @ [CHR 0x0A])"
  let ?s' = "write_content (pa_Config paths) ?cut 384 s1"
  have "save_config ft marshal (pa_Config paths) (cfg1\<lparr>cf_Name := device\<rparr>) s1 = (Some e, ?s')"
    using assms(7-9) by (simp add: save_config_def write_private_def os_WriteFile_def)
  with assms(1-6) have first: "config_LoadOrCreate ft marshal unmarshal device paths s = (Inl (Config_Sys e), ?s')"
    by (simp add: config_LoadOrCreate_def)
  have "pa_Config paths \<notin> set ?dirs" using make_dirs_ok [OF assms(1)] assms(2) by (auto simp: os_ReadFile_Contents)
  then have "\<forall>d \<in> set ?dirs. mget (os_files ?s') d = None"
    using make_dirs_ok [OF assms(1)] by (auto simp: write_content_def gomap_simps)
  then obtain s2 where s2: "make_dirs all_works ?dirs ?s' = (None, s2)" using make_dirs_works by blast
  then have "os_files s2 = os_files ?s'" using make_dirs_ok by blast
  then have "os_ReadFile all_works (pa_Config paths) s2 = Contents ?cut"
    by (simp add: os_ReadFile_Contents all_works_def write_content_def gomap_simps)
  with s2 assms(10) have "fst (config_LoadOrCreate all_works marshal unmarshal device' paths ?s') = Inl (Config_Parse e')" for device'
    by (simp add: config_LoadOrCreate_def)
  with first show ?thesis by blast
qed

section \<open>Samples\<close>

definition sample_paths :: paths where
  "sample_paths = \<lparr>pa_ConfigDir = ''/c'', pa_DataDir = ''/d'', pa_RuntimeDir = ''/r'', pa_Config = ''/c/config.json'',
     pa_Identity = ''/d/identity.pem'', pa_Peers = ''/d/peers.json'', pa_Socket = ''/r/lanclip.sock''\<rparr>"

definition sample_os :: os where
  "sample_os = \<lparr>os_files = [], os_dirs = [(''/c'', 493)], os_umask = 18\<rparr>"

text \<open>A codec for the samples: the name stands for the whole configuration.\<close>

definition sample_config_marshal :: "config \<Rightarrow> string + string" where
  "sample_config_marshal c = (if c = Default (cf_Name c) then Inr (CHR ''N'' # cf_Name c) else Inl ''unsupported'')"

definition sample_config_unmarshal :: "string \<Rightarrow> string + config" where
  "sample_config_unmarshal b = (if length b \<ge> 2 \<and> hd b = CHR ''N'' then Inr (Default (butlast (tl b))) else Inl ''syntax'')"

definition sample_config_os :: os where
  "sample_config_os = snd (config_LoadOrCreate all_works sample_config_marshal sample_config_unmarshal ''host'' sample_paths sample_os)"

lemma sample_created:
  "config_LoadOrCreate all_works sample_config_marshal sample_config_unmarshal ''host'' sample_paths sample_os
     = (Inr (Default ''host''), sample_config_os)"
  "mget (os_files sample_config_os) ''/c/config.json'' = Some \<lparr>of_content = ''Nhost'' @ [CHR 0x0A], of_mode = 384\<rparr>"
  by (code_simp, code_simp)

lemma sample_codec: "sample_config_marshal c = Inr b \<Longrightarrow> sample_config_unmarshal (b @ [CHR 0x0A]) = Inr c"
  by (auto simp: sample_config_marshal_def sample_config_unmarshal_def split: if_splits)

theorem loaded_config_is_valid_witness:
  "mget (os_dirs sample_config_os) ''/c'' = Some 448"
  using loaded_config_is_valid [OF sample_created(1)] by (simp add: sample_paths_def)

theorem config_survives_restart_witness:
  "fst (config_LoadOrCreate all_works sample_config_marshal sample_config_unmarshal ''host'' sample_paths sample_config_os)
     = Inr (Default ''host'')"
  using config_survives_restart [OF sample_created(1) sample_codec] by fastforce

definition sample_full_disk :: faults where
  "sample_full_disk = \<lparr>ft_error = (\<lambda>c. if c = Sys_Write ''/c/config.json'' then Some ''no space'' else None), ft_written = (\<lambda>_. Some 0)\<rparr>"

definition sample_dirs_os :: os where
  "sample_dirs_os = snd (make_dirs sample_full_disk [pa_ConfigDir sample_paths, pa_DataDir sample_paths] sample_config_os)"

lemma sample_dirs:
  "make_dirs sample_full_disk [pa_ConfigDir sample_paths, pa_DataDir sample_paths] sample_config_os = (None, sample_dirs_os)"
  "os_ReadFile sample_full_disk (pa_Config sample_paths) sample_dirs_os = Contents (''Nhost'' @ [CHR 0x0A])"
  by (code_simp, code_simp)

lemma sample_rename: "Default ''host''\<lparr>cf_Name := ''new''\<rparr> = Default ''new''"
  by (simp add: Default_def)

theorem interrupted_config_save_is_fatal_witness:
  "\<exists>s'. fst (config_LoadOrCreate all_works sample_config_marshal sample_config_unmarshal ''host'' sample_paths s') = Inl (Config_Parse ''syntax'')"
proof -
  have "sample_config_unmarshal (''Nhost'' @ [CHR 0x0A]) = Inr (Default ''host'')" "sample_config_unmarshal [] = Inl ''syntax''"
    "sample_config_marshal (Default ''host''\<lparr>cf_Name := ''new''\<rparr>) = Inr ''Nnew''"
    unfolding sample_rename by (simp_all add: sample_config_unmarshal_def sample_config_marshal_def) (simp_all add: Default_def)
  moreover have "check_config (Default ''host'') = Inr (Default ''host'')" "''new'' \<noteq> cf_Name (Default ''host'')"
    by (simp_all add: Default_ok) (simp add: Default_def)
  ultimately show ?thesis
    using interrupted_config_save_is_fatal [OF sample_dirs, where device = "''new''" and n = 0 and e' = "''syntax''"
        and marshal = sample_config_marshal and unmarshal = sample_config_unmarshal and e = "''no space''"]
    by (fastforce simp: sample_full_disk_def sample_paths_def)
qed

end
