(* ===== verification/Identity_File.thy ===== *)
theory Identity_File
  imports Files
begin

text \<open>
  Creating and loading a device's identity (\<open>create\<close> and \<open>LoadOrCreate\<close> of
  \<open>internal/identity/identity.go\<close>).

  Key generation, X.509, PKCS#8 and PEM are arguments; what the program relies on is that they
  invert each other, which is stated where it is used.
\<close>

section \<open>Creation\<close>

record cert_template =
  ct_serial :: string
  ct_cn :: string
  ct_not_before :: time
  ct_not_after :: time
  ct_key_usage :: "string list"

datatype identity_file_error =
    Key_Generation string | No_Random | Sign_Failed string | Key_Encoding string | Identity_Sys string
  | Identity_Parse identity_error

record key_tools =
  kt_generate :: "string + string \<times> string"
  kt_random :: "string option"
  kt_serial :: "string option"
  kt_add_date :: "int \<Rightarrow> time \<Rightarrow> time"
  kt_sign :: "cert_template \<Rightarrow> string \<Rightarrow> private_key \<Rightarrow> string + string"
  kt_pkcs8 :: "private_key \<Rightarrow> string + string"
  kt_pem :: "string \<Rightarrow> string \<Rightarrow> string"

text \<open>\<open>kt_add_date years\<close> is \<open>AddDate(years, 0, 0)\<close>; the key pair is seed and public key.\<close>

definition identity_template :: "(int \<Rightarrow> time \<Rightarrow> time) \<Rightarrow> time \<Rightarrow> string \<Rightarrow> string \<Rightarrow> cert_template" where
  "identity_template add_date now serial pid =
     \<lparr>ct_serial = serial, ct_cn = lanclip_cn @ pid, ct_not_before = time_add now (- (60 * minute)),
      ct_not_after = add_date 20 now, ct_key_usage = [''DigitalSignature'', ''ClientAuth'', ''ServerAuth'']\<rparr>"

definition create_identity ::
  "faults \<Rightarrow> key_tools \<Rightarrow> time \<Rightarrow> string \<Rightarrow> os \<Rightarrow> (identity_file_error + identity) \<times> os" where
  "create_identity ft kt now path s =
     (case kt_generate kt of
        Inl e \<Rightarrow> (Inl (Key_Generation e), s)
      | Inr (seed, pub) \<Rightarrow>
     (let priv = Ed25519_Private seed pub
      in case UUID (kt_random kt) of
        None \<Rightarrow> (Inl No_Random, s)
      | Some pid \<Rightarrow>
     (case kt_serial kt of
        None \<Rightarrow> (Inl No_Random, s)
      | Some serial \<Rightarrow>
     (case kt_sign kt (identity_template (kt_add_date kt) now serial pid) pub priv of
        Inl e \<Rightarrow> (Inl (Sign_Failed e), s)
      | Inr der \<Rightarrow>
     (case kt_pkcs8 kt priv of
        Inl e \<Rightarrow> (Inl (Key_Encoding e), s)
      | Inr keyBytes \<Rightarrow>
     (let b = kt_pem kt ''CERTIFICATE'' der @ kt_pem kt ''PRIVATE KEY'' keyBytes
      in case write_private ft path b s of
        (Some e, s) \<Rightarrow> (Inl (Identity_Sys e), s)
      | (None, s) \<Rightarrow>
          (Inr \<lparr>id_ID = pid, id_Certificate = der, id_PrivateKey = priv, id_TLSCert = b\<rparr>, s)))))))"

definition identity_LoadOrCreate ::
  "faults \<Rightarrow> key_tools \<Rightarrow> (string \<Rightarrow> (string \<times> string) option \<times> string) \<Rightarrow> (string \<Rightarrow> certificate option)
     \<Rightarrow> (string \<Rightarrow> private_key option) \<Rightarrow> time \<Rightarrow> string \<Rightarrow> os \<Rightarrow> (identity_file_error + identity) \<times> os" where
  "identity_LoadOrCreate ft kt pem x509 pkcs8 now path s =
     (case os_ReadFile ft path s of
        Not_Exist \<Rightarrow> create_identity ft kt now path s
      | Read_Failed e \<Rightarrow> (Inl (Identity_Sys e), s)
      | Contents b \<Rightarrow>
          (case identity_parse pem x509 pkcs8 now b of
             Inl e \<Rightarrow> (Inl (Identity_Parse e), s)
           | Inr i \<Rightarrow> (Inr i, s)))"

section \<open>Lemmas\<close>

lemma create_identity_Inr:
  assumes "create_identity ft kt now path s = (Inr i, s')"
  obtains seed pub serial keyBytes where
    "kt_generate kt = Inr (seed, pub)" "UUID (kt_random kt) = Some (id_ID i)" "kt_serial kt = Some serial"
    "kt_sign kt (identity_template (kt_add_date kt) now serial (id_ID i)) pub (Ed25519_Private seed pub) = Inr (id_Certificate i)"
    "kt_pkcs8 kt (Ed25519_Private seed pub) = Inr keyBytes" "id_PrivateKey i = Ed25519_Private seed pub"
    "id_TLSCert i = kt_pem kt ''CERTIFICATE'' (id_Certificate i) @ kt_pem kt ''PRIVATE KEY'' keyBytes"
    "write_private ft path (id_TLSCert i) s = (None, s')"
  using assms unfolding create_identity_def
  by (auto simp: Let_def split: sum.splits option.splits prod.splits)

lemma trim_lanclip [simp]: "trim_prefix (lanclip_cn @ x) lanclip_cn = x"
  by (simp add: trim_prefix_def has_prefix_iff)

lemma UUID_valid: "UUID (Some b) = Some u \<Longrightarrow> length b = 16 \<Longrightarrow> ValidUUID u"
  using generated_uuid_is_valid [of b] by auto

text \<open>A file written by \<open>create_identity\<close> is what \<open>identity_parse\<close> accepts.\<close>

lemma parse_created:
  assumes "pem (p1 @ p2) = (Some (''CERTIFICATE'', der), p2)" "pem p2 = (Some (typ, keyBytes), rest)"
    and "x509 der = Some cert" "pkcs8 keyBytes = Some (Ed25519_Private seed pub)"
    and "cert_cn cert = lanclip_cn @ pid" "ValidUUID pid" "cert_key cert = Ed25519_Public pub" "cert_sig_ok cert"
    and "cert_not_before cert \<le> now" "now \<le> cert_not_after cert"
  shows "identity_parse pem x509 pkcs8 now (p1 @ p2) = Inr \<lparr>id_ID = pid, id_Certificate = der,
      id_PrivateKey = Ed25519_Private seed pub, id_TLSCert = p1 @ p2\<rparr>"
proof -
  have "pid \<noteq> []" using assms(6) by (auto simp: ValidUUID_def)
  with assms show ?thesis
    by (simp add: identity_parse_def time_simps lanclip_cn_def [symmetric]) (simp add: lanclip_cn_def)
qed

section \<open>Properties\<close>

text \<open>
  C23. A device keeps its identity. The identity file written on the first start gives back, on
  every later start within its twenty years, exactly the identity the first start used (device ID,
  certificate, key), and the file is closed to group and others. It rests on the documented
  behaviour of the libraries: PEM and PKCS#8 decode what they encoded, a certificate parses to the
  fields of its template with times rounded to the second, and random bytes come as asked for.
\<close>

theorem created_identity_reloads:
  assumes "os_ReadFile ft path s = Not_Exist"
    and "identity_LoadOrCreate ft kt pem x509 pkcs8 now path s = (Inr i, s')"
    and random: "\<And>b. kt_random kt = Some b \<Longrightarrow> length b = 16"
    and pem: "\<And>t b rest. pem (kt_pem kt t b @ rest) = (Some (t, b), rest)"
    and pkcs8: "\<And>k b. kt_pkcs8 kt k = Inr b \<Longrightarrow> pkcs8 b = Some k"
    and x509: "\<And>tpl seed pub der. kt_sign kt tpl pub (Ed25519_Private seed pub) = Inr der \<Longrightarrow>
      \<exists>cert. x509 der = Some cert \<and> cert_cn cert = ct_cn tpl \<and> cert_key cert = Ed25519_Public pub \<and> cert_sig_ok cert
        \<and> cert_not_before cert \<le> ct_not_before tpl \<and> ct_not_after tpl - second \<le> cert_not_after cert"
    and "now - 60 * minute \<le> later" "later \<le> kt_add_date kt 20 now - second"
  shows "identity_LoadOrCreate all_works kt pem x509 pkcs8 later path s' = (Inr i, s')
    \<and> mget (os_files s') path = Some \<lparr>of_content = id_TLSCert i, of_mode = 384\<rparr>"
proof -
  from assms(1,2) have "create_identity ft kt now path s = (Inr i, s')" by (simp add: identity_LoadOrCreate_def)
  then obtain seed pub serial keyBytes where c: "UUID (kt_random kt) = Some (id_ID i)"
    "kt_sign kt (identity_template (kt_add_date kt) now serial (id_ID i)) pub (Ed25519_Private seed pub) = Inr (id_Certificate i)"
    "kt_pkcs8 kt (Ed25519_Private seed pub) = Inr keyBytes" "id_PrivateKey i = Ed25519_Private seed pub"
    "id_TLSCert i = kt_pem kt ''CERTIFICATE'' (id_Certificate i) @ kt_pem kt ''PRIVATE KEY'' keyBytes"
    "write_private ft path (id_TLSCert i) s = (None, s')"
    by (rule create_identity_Inr)
  obtain cert where cert: "x509 (id_Certificate i) = Some cert" "cert_cn cert = lanclip_cn @ id_ID i"
      "cert_key cert = Ed25519_Public pub" "cert_sig_ok cert" "cert_not_before cert \<le> later" "later \<le> cert_not_after cert"
    using x509 [OF c(2)] assms(7,8) by (force simp: identity_template_def time_add_def)
  have uuid: "ValidUUID (id_ID i)"
    using c(1) random UUID_valid by (cases "kt_random kt") (auto simp: UUID_def)
  have "pem (kt_pem kt ''PRIVATE KEY'' keyBytes) = (Some (''PRIVATE KEY'', keyBytes), [])"
    using pem [of "''PRIVATE KEY''" keyBytes "[]"] by simp
  then have "identity_parse pem x509 pkcs8 later (kt_pem kt ''CERTIFICATE'' (id_Certificate i) @ kt_pem kt ''PRIVATE KEY'' keyBytes)
      = Inr \<lparr>id_ID = id_ID i, id_Certificate = id_Certificate i, id_PrivateKey = Ed25519_Private seed pub,
             id_TLSCert = kt_pem kt ''CERTIFICATE'' (id_Certificate i) @ kt_pem kt ''PRIVATE KEY'' keyBytes\<rparr>"
    using pkcs8 [OF c(3)] uuid cert by (intro parse_created [where cert = cert] pem)
  then have "identity_parse pem x509 pkcs8 later (id_TLSCert i) = Inr i" by (simp add: c(5) c(4) [symmetric])
  moreover have f: "mget (os_files s') path = Some \<lparr>of_content = id_TLSCert i, of_mode = 384\<rparr>"
    by (rule write_private_ok(1) [OF c(6)])
  then have "os_ReadFile all_works path s' = Contents (id_TLSCert i)" by (simp add: os_ReadFile_Contents all_works_def)
  ultimately show ?thesis using f by (simp add: identity_LoadOrCreate_def)
qed

text \<open>
  When the first start cannot write the whole file, what is left is not an identity and no later
  start replaces it.
\<close>

theorem interrupted_identity_is_fatal:
  assumes "os_ReadFile ft path s = Not_Exist" "identity_LoadOrCreate ft kt pem x509 pkcs8 now path s = (Inl (Identity_Sys e), s')"
    and "ft_error ft (Sys_Write path) = Some e" "ft_written ft path = Some n"
    and "\<And>b typ blk. pem (take n b) \<noteq> (Some blk, typ)"
  shows "fst (identity_LoadOrCreate all_works kt' pem x509 pkcs8 later path s') = Inl (Identity_Parse NoCertificate)"
proof -
  from assms(1,2) have "create_identity ft kt now path s = (Inl (Identity_Sys e), s')" by (simp add: identity_LoadOrCreate_def)
  then obtain b where "write_private ft path b s = (Some e, s')"
    unfolding create_identity_def by (auto simp: Let_def split: sum.splits option.splits prod.splits)
  with assms(3,4) have "s' = write_content path (take n b) 384 s" by (simp add: write_private_def os_WriteFile_def)
  then have "os_ReadFile all_works path s' = Contents (take n b)"
    by (simp add: os_ReadFile_Contents all_works_def write_content_def gomap_simps)
  moreover obtain blk rest where "pem (take n b) = (blk, rest)" by fastforce
  ultimately show ?thesis
    using assms(5) [of b] by (cases blk) (auto simp: identity_LoadOrCreate_def identity_parse_def)
qed

section \<open>A sample\<close>

text \<open>Length-prefixed blocks for PEM, and one key pair and certificate.\<close>

definition sample_block :: "string \<Rightarrow> string" where
  "sample_block b = replicate (length b) (CHR ''1'') @ CHR ''0'' # b"

definition sample_unblock :: "string \<Rightarrow> string \<times> string" where
  "sample_unblock x = (let n = length (takeWhile (\<lambda>c. c = CHR ''1'') x); r = drop (n + 1) x in (take n r, drop n r))"

definition sample_pem :: "string \<Rightarrow> (string \<times> string) option \<times> string" where
  "sample_pem x = (let (t, r) = sample_unblock x; (b, r) = sample_unblock r in (Some (t, b), r))"

lemma sample_unblock [simp]: "sample_unblock (sample_block b @ rest) = (b, rest)"
proof -
  have "takeWhile (\<lambda>c. c = CHR ''1'') (replicate n (CHR ''1'') @ CHR ''0'' # r) = replicate n (CHR ''1'')" for n r
    by (induction n) auto
  then show ?thesis by (simp add: sample_unblock_def sample_block_def Let_def)
qed

definition sample_add_date :: "int \<Rightarrow> time \<Rightarrow> time" where
  "sample_add_date years t = t + years * 365 * 24 * 60 * minute"

definition sample_tools :: key_tools where
  "sample_tools = \<lparr>kt_generate = Inr (''seed'', ''pub''), kt_random = Some (replicate 16 CHR ''r''), kt_serial = Some ''1'',
     kt_add_date = sample_add_date,
     kt_sign = (\<lambda>tpl pub _. if tpl = identity_template sample_add_date 5 ''1'' (the (UUID (Some (replicate 16 CHR ''r'')))) \<and> pub = ''pub''
       then Inr ''der'' else Inl ''unsupported''),
     kt_pkcs8 = (\<lambda>k. if k = Ed25519_Private ''seed'' ''pub'' then Inr ''key'' else Inl ''unsupported''),
     kt_pem = (\<lambda>t b. sample_block t @ sample_block b)\<rparr>"

definition sample_own_cert :: certificate where
  "sample_own_cert = \<lparr>cert_raw = ''der'', cert_cn = lanclip_cn @ the (UUID (Some (replicate 16 CHR ''r''))),
     cert_key = Ed25519_Public ''pub'', cert_not_before = 5 - 60 * minute, cert_not_after = sample_add_date 20 5,
     cert_sig_ok = True\<rparr>"

definition sample_empty_os :: os where
  "sample_empty_os = \<lparr>os_files = [], os_dirs = [], os_umask = 18\<rparr>"

theorem created_identity_reloads_witness:
  "\<exists>i s'. identity_LoadOrCreate all_works sample_tools sample_pem (\<lambda>_. Some sample_own_cert)
      (\<lambda>_. Some (Ed25519_Private ''seed'' ''pub'')) 60 ''id'' s' = (Inr i, s')
    \<and> mget (os_files s') ''id'' = Some \<lparr>of_content = id_TLSCert i, of_mode = 384\<rparr>"
proof -
  let ?load = "\<lambda>now. identity_LoadOrCreate all_works sample_tools sample_pem (\<lambda>_. Some sample_own_cert)
      (\<lambda>_. Some (Ed25519_Private ''seed'' ''pub'')) now ''id''"
  have none: "os_ReadFile all_works ''id'' sample_empty_os = Not_Exist"
    by (simp add: os_ReadFile_Not_Exist all_works_def sample_empty_os_def)
  have "\<exists>i s'. ?load 5 sample_empty_os = (Inr i, s')"
    using none by (simp add: identity_LoadOrCreate_def create_identity_def sample_tools_def UUID_def Let_def
        write_private_def os_WriteFile_def os_Chmod_def write_content_def all_works_def sample_empty_os_def)
  then obtain i s' where c: "?load 5 sample_empty_os = (Inr i, s')" by blast
  have "?load 60 s' = (Inr i, s') \<and> mget (os_files s') ''id'' = Some \<lparr>of_content = id_TLSCert i, of_mode = 384\<rparr>"
  proof (rule created_identity_reloads [OF none c])
    show "\<exists>cert. Some sample_own_cert = Some cert \<and> cert_cn cert = ct_cn tpl \<and> cert_key cert = Ed25519_Public pub
        \<and> cert_sig_ok cert \<and> cert_not_before cert \<le> ct_not_before tpl \<and> ct_not_after tpl - second \<le> cert_not_after cert"
      if "kt_sign sample_tools tpl pub (Ed25519_Private seed pub) = Inr der" for tpl seed pub der
      using that by (simp add: sample_tools_def sample_own_cert_def identity_template_def time_add_def second_def split: if_splits)
  qed (auto simp: sample_tools_def sample_pem_def sample_add_date_def minute_def second_def split: if_splits)
  then show ?thesis by blast
qed

end
