(* ===== verification/Prompts.thy ===== *)
theory Prompts
  imports Control_Commands
begin

text \<open>
  The questions of the command line (\<open>cmd/lanclip/cli.go\<close>: \<open>choosePeer\<close>, \<open>confirm\<close>,
  \<open>eligiblePeers\<close>, \<open>findPeer\<close>, \<open>decodePeers\<close>).

  Standard input is a byte string with what its reader reports at the end (\<open>None\<close> for EOF), read
  line by line as \<open>bufio.Reader.ReadString\<close> does; standard output is collected.
\<close>

section \<open>Input and output\<close>

record io =
  io_in :: string
  io_err :: "string option"
  io_out :: string

datatype read_end = No_Error | At_EOF | Read_Error string

definition newline :: char where
  "newline = CHR 0x0A"

definition ReadLine :: "io \<Rightarrow> string \<times> read_end \<times> io" where
  "ReadLine s =
     (if newline \<in> set (io_in s)
      then (takeWhile (\<lambda>c. c \<noteq> newline) (io_in s) @ [newline], No_Error,
            s\<lparr>io_in := tl (dropWhile (\<lambda>c. c \<noteq> newline) (io_in s))\<rparr>)
      else (io_in s, (case io_err s of None \<Rightarrow> At_EOF | Some e \<Rightarrow> Read_Error e), s\<lparr>io_in := []\<rparr>))"

definition put :: "string \<Rightarrow> io \<Rightarrow> io" where
  "put str s = s\<lparr>io_out := io_out s @ str\<rparr>"

definition putln :: "string \<Rightarrow> io \<Rightarrow> io" where
  "putln str s = put (str @ [newline]) s"

lemma put_fields [simp]:
  "io_in (put str s) = io_in s" "io_err (put str s) = io_err s" "io_out (put str s) = io_out s @ str"
  "io_in (putln str s) = io_in s" "io_err (putln str s) = io_err s"
  "io_out (putln str s) = io_out s @ str @ [newline]"
  by (simp_all add: put_def putln_def)

lemma ReadLine_splits: "ReadLine s = (line, stop, s') \<Longrightarrow> io_in s = line @ io_in s'"
proof -
  assume a: "ReadLine s = (line, stop, s')"
  show ?thesis
  proof (cases "newline \<in> set (io_in s)")
    case True
    then obtain u w where "io_in s = u @ newline # w" "newline \<notin> set u" by (meson split_list_first)
    then have "takeWhile (\<lambda>c. c \<noteq> newline) (io_in s) = u" "dropWhile (\<lambda>c. c \<noteq> newline) (io_in s) = newline # w"
      by (auto simp: takeWhile_append dropWhile_append)
    with a True show ?thesis using \<open>io_in s = u @ newline # w\<close> by (auto simp: ReadLine_def)
  qed (use a in \<open>auto simp: ReadLine_def\<close>)
qed

lemma ReadLine_fields:
  "ReadLine s = (line, stop, s') \<Longrightarrow> io_out s' = io_out s \<and> io_err s' = io_err s
     \<and> (stop = No_Error \<longrightarrow> line \<noteq> []) \<and> (stop \<noteq> No_Error \<longrightarrow> io_in s' = [])"
  by (auto simp: ReadLine_def split: if_splits option.splits)

lemma ReadLine_shrinks: "ReadLine s = (line, No_Error, s') \<Longrightarrow> length (io_in s') < length (io_in s)"
  using ReadLine_splits [of s line No_Error s'] ReadLine_fields [of s line No_Error s'] by (cases line) auto

text \<open>What a dialogue does to the terminal: it consumes input and adds output.\<close>

definition grows :: "io \<Rightarrow> io \<Rightarrow> bool" where
  "grows s s' \<longleftrightarrow> suffix (io_in s') (io_in s) \<and> prefix (io_out s) (io_out s') \<and> io_err s' = io_err s"

named_theorems grows_intros

lemma grows_refl [grows_intros]: "grows s s"
  by (simp add: grows_def)

lemma grows_trans: "grows s1 s2 \<Longrightarrow> grows s2 s3 \<Longrightarrow> grows s1 s3"
  by (auto simp: grows_def intro: suffix_order.trans prefix_order.trans)

lemma grows_put [grows_intros]: "grows s (put str s)" "grows s (putln str s)"
  by (simp_all add: grows_def)

lemma grows_ReadLine: "ReadLine s = (line, stop, s') \<Longrightarrow> grows s s'"
  using ReadLine_splits [of s line stop s'] ReadLine_fields [of s line stop s'] by (auto simp: grows_def suffix_def)

text \<open>\<open>strconv.Atoi\<close>: an optional sign and decimal digits within 64 bits.\<close>

fun atoi_digits :: "int \<Rightarrow> string \<Rightarrow> int option" where
  "atoi_digits n [] = Some n"
| "atoi_digits n (c # cs) =
     (case digit_value c of None \<Rightarrow> None | Some v \<Rightarrow> atoi_digits (n * 10 + int v) cs)"

definition Atoi :: "string \<Rightarrow> int option" where
  "Atoi s =
     (let (neg, digits) = (case s of c # r \<Rightarrow> if c = CHR ''-'' then (True, r)
                             else if c = CHR ''+'' then (False, r) else (False, s) | [] \<Rightarrow> (False, s))
      in if digits = [] then None
         else case atoi_digits 0 digits of
           None \<Rightarrow> None
         | Some n \<Rightarrow> let v = (if neg then - n else n)
                     in if min_int64 \<le> v \<and> v \<le> max_int64 then Some v else None)"

text \<open>A typed line of visible ASCII characters, as \<open>TrimSpace\<close> and \<open>ToLower\<close> see it.\<close>

definition visible :: "string \<Rightarrow> bool" where
  "visible s \<longleftrightarrow> list_all (\<lambda>c. 33 \<le> (of_char c :: nat) \<and> of_char c < (127 :: nat)) s"

lemma runes_visible: "visible s \<Longrightarrow> runes s = map of_char s"
proof -
  assume v: "visible s"
  then have "list_all scalar (map of_char s)" "from_runes (map of_char s) = s"
    by (auto simp: visible_def list_all_iff scalar_def intro!: from_runes_ascii)
  with runes_from_runes [of "map of_char s"] show ?thesis by simp
qed

lemma trim_by_last: "\<forall>x \<in> set xs. \<not> P x \<Longrightarrow> P y \<Longrightarrow> trim_by P (xs @ [y]) = xs"
proof (cases xs)
  case (Cons x r)
  moreover assume "\<forall>x \<in> set xs. \<not> P x" "P y"
  moreover from this have "dropWhile P (rev xs) = rev xs"
    by (metis dropWhile_eq_self_iff hd_in_set set_rev)
  ultimately show ?thesis by (simp add: trim_by_def)
qed (simp add: trim_by_def)

lemma trim_space_typed: "visible s \<Longrightarrow> trim_space (s @ [newline]) = s"
proof -
  assume v: "visible s"
  let ?rs = "map of_char (s @ [newline]) :: rune list"
  have nl: "of_char newline = (10 :: nat)" by (simp add: newline_def)
  have "list_all scalar ?rs" using v by (auto simp: visible_def list_all_iff scalar_def nl)
  moreover have "from_runes ?rs = s @ [newline]"
    by (rule from_runes_ascii) (use v in \<open>auto simp: visible_def list_all_iff nl\<close>)
  moreover have "\<not> is_space (of_char c)" if "c \<in> set s" for c
    using v that by (auto simp: visible_def list_all_iff is_space_def)
  then have "trim_by is_space (map of_char s @ [10]) = map of_char s"
    by (intro trim_by_last) (auto simp: is_space_def)
  then have "trim_by is_space ?rs = map of_char s" by (simp add: nl)
  moreover have "from_runes (map of_char s) = s"
    by (rule from_runes_ascii) (use v in \<open>auto simp: visible_def list_all_iff\<close>)
  ultimately show ?thesis using trim_space_from_runes [of ?rs] by simp
qed

lemma to_lower_visible: "visible s \<Longrightarrow> to_lower tab s = from_runes (map (fold_rune tab) (map of_char s))"
  by (simp add: to_lower_def runes_visible)

section \<open>Devices\<close>

abbreviation ps_ID :: "peer_status \<Rightarrow> string" where
  "ps_ID x \<equiv> p_ID (ps_Peer x)"

abbreviation ps_Name :: "peer_status \<Rightarrow> string" where
  "ps_Name x \<equiv> p_Name (ps_Peer x)"

abbreviation ps_State :: "peer_status \<Rightarrow> string" where
  "ps_State x \<equiv> p_State (ps_Peer x)"

definition safeDeviceName :: "string \<Rightarrow> string" where
  "safeDeviceName n =
     (let n = NormalizeDeviceName n in if n = [] then ''Unknown device'' else n)"

definition set_name :: "string \<Rightarrow> peer_status \<Rightarrow> peer_status" where
  "set_name n x = x\<lparr>ps_Peer := (ps_Peer x)\<lparr>p_Name := n\<rparr>\<rparr>"

text \<open>\<open>decode\<close>: \<open>unmarshal\<close> is what \<open>json.Unmarshal\<close> makes of the data of a response.\<close>

definition decode :: "(control_data \<Rightarrow> string + 'a) \<Rightarrow> control_data \<Rightarrow> string + 'a" where
  "decode unmarshal d =
     (case unmarshal d of Inl e \<Rightarrow> Inl (''read service response: '' @ e) | Inr v \<Rightarrow> Inr v)"

definition decodePeers :: "(control_data \<Rightarrow> string + peer_status list) \<Rightarrow> control_data \<Rightarrow> string + peer_status list" where
  "decodePeers unmarshal d =
     (case decode unmarshal d of
        Inl e \<Rightarrow> Inl e
      | Inr peers \<Rightarrow> Inr (map (\<lambda>x.
          let x = set_name (NormalizeDeviceName (ps_Name x)) x
          in if ps_Name x = [] then set_name ''Unknown device'' x else x) peers))"

text \<open>
  \<open>sort.Slice\<close> does not say how it orders equal keys; up to twelve elements it is the insertion
  sort that keeps their order, as \<open>sort_key\<close> does.
\<close>

definition eligible :: "string \<Rightarrow> peer_status \<Rightarrow> bool" where
  "eligible command x \<longleftrightarrow>
     (if command = ''pair'' then (ps_State x = ''unpaired'' \<or> ps_State x = Rejected) \<and> length (ps_Addresses x) > 0
      else if command = ''approve'' \<or> command = ''reject'' then ps_State x = Pending
      else if command = ''unpair'' then ps_State x = Trusted
      else False)"

definition eligiblePeers :: "(rune \<Rightarrow> rune) \<Rightarrow> string \<Rightarrow> peer_status list \<Rightarrow> peer_status list" where
  "eligiblePeers tab command peers =
     sort_key (\<lambda>x. to_lower tab (ps_Name x)) (filter (eligible command) peers)"

definition findPeer :: "(rune \<Rightarrow> rune) \<Rightarrow> peer_status list \<Rightarrow> string \<Rightarrow> peer_status option" where
  "findPeer tab peers query0 =
     (let query = trim_space query0;
          matches = filter (\<lambda>x. equal_fold tab (ps_Name x) query \<or> has_prefix (ps_ID x) query) peers
      in if length matches = 1 then Some (hd matches) else None)"

section \<open>choosePeer\<close>

definition no_choice :: "string \<Rightarrow> string" where
  "no_choice action =
     (if action = ''pair'' then ''No unpaired devices are available. Make sure the other device is running on this LAN.''
      else if action = ''approve'' \<or> action = ''reject'' then ''No devices are waiting for approval.''
      else if action = ''unpair'' then ''No paired devices are available to remove.''
      else [])"

definition menu :: "string \<Rightarrow> peer_status list \<Rightarrow> string" where
  "menu action peers =
     ''Choose a device to '' @ action @ '':'' @ [newline]
     @ concat (map (\<lambda>(i, x). ''  '' @ decimal (i + 1) @ '') '' @ ps_Name x @ [newline]) (enumerate 0 peers))"

definition chosen :: "peer_status list \<Rightarrow> string \<Rightarrow> peer_status option" where
  "chosen peers line =
     (if line = [] \<and> length peers = 1 then Some (peers ! 0)
      else case Atoi line of
        None \<Rightarrow> None
      | Some n \<Rightarrow> if n \<ge> 1 \<and> n \<le> int (length peers) then Some (peers ! nat (n - 1)) else None)"

function choose_loop :: "peer_status list \<Rightarrow> io \<Rightarrow> (string + peer_status) \<times> io" where
  "choose_loop peers s0 =
     (let s1 = put (if length peers = 1 then ''Selection [1]: ''
                    else ''Selection [1-'' @ decimal (length peers) @ '']: '') s0;
          (line, stop, s) = ReadLine s1
      in case stop of
           Read_Error e \<Rightarrow> (Inl e, s)
         | At_EOF \<Rightarrow> (case chosen peers (trim_space line) of
               Some x \<Rightarrow> (Inr x, s) | None \<Rightarrow> (Inl ''no selection entered'', s))
         | No_Error \<Rightarrow> (case chosen peers (trim_space line) of
               Some x \<Rightarrow> (Inr x, s)
             | None \<Rightarrow> choose_loop peers (putln ''Enter the number shown next to the device.'' s)))"
  by pat_completeness auto
termination
  by (relation "measure (\<lambda>(peers, s). length (io_in s))")
    (auto dest: ReadLine_shrinks [OF sym])

declare choose_loop.simps [simp del]

definition choosePeer :: "string \<Rightarrow> peer_status list \<Rightarrow> io \<Rightarrow> (string + peer_status) \<times> io" where
  "choosePeer action peers s =
     (if length peers = 0 then (Inl (no_choice action), s)
      else choose_loop peers (put (menu action peers) s))"

section \<open>confirm\<close>

function confirm :: "(rune \<Rightarrow> rune) \<Rightarrow> string \<Rightarrow> bool \<Rightarrow> io \<Rightarrow> (string + bool) \<times> io" where
  "confirm tab question defaultYes s0 =
     (let prompt = (if defaultYes then '' [Y/n]: '' else '' [y/N]: '');
          (line, stop, s) = ReadLine (put (question @ prompt) s0);
          answer = to_lower tab (trim_space line)
      in case stop of
           Read_Error e \<Rightarrow> (Inl e, s)
         | _ \<Rightarrow>
             if answer = [] then (Inr defaultYes, s)
             else if answer = ''y'' \<or> answer = ''yes'' then (Inr True, s)
             else if answer = ''n'' \<or> answer = ''no'' then (Inr False, s)
             else if stop = At_EOF then (Inl ''no confirmation entered'', s)
             else confirm tab question defaultYes (putln ''Please enter y or n.'' s))"
  by pat_completeness auto
termination
  by (relation "measure (\<lambda>(tab, q, d, s). length (io_in s))")
    (auto dest: ReadLine_shrinks [OF sym])

declare confirm.simps [simp del]

end
