(* ===== verification/Reports.thy ===== *)
theory Reports
  imports Prompts
begin

text \<open>
  What the command line prints (\<open>cmd/lanclip/cli.go\<close>: \<open>printStatus\<close>, \<open>printPeers\<close>,
  \<open>printDoctor\<close>, \<open>printPairingIdentity\<close>, \<open>printHelp\<close> and their helpers). A report is the
  string it writes. Parsing and formatting of instants and the quoting of \<open>%q\<close> are arguments.
\<close>

section \<open>Pieces\<close>

record formats =
  fm_parse :: "string \<Rightarrow> time option"
  fm_now :: time
  fm_local :: "time \<Rightarrow> string"
  fm_nano :: "time \<Rightarrow> string"
  fm_quote :: "string \<Rightarrow> string"

definition ln :: "string \<Rightarrow> string" where
  "ln s = s @ [newline]"

text \<open>The dash of the source files, U+2014 in UTF-8, between spaces.\<close>

definition dash :: string where
  "dash = '' '' @ map char_of [226, 128, 148 :: nat] @ '' ''"

definition mapString :: "(string, any_value) gomap \<Rightarrow> string \<Rightarrow> string" where
  "mapString values key = (case mget values key of Some (Any_String v) \<Rightarrow> v | _ \<Rightarrow> [])"

definition mapNumber :: "(string, any_value) gomap \<Rightarrow> string \<Rightarrow> rat" where
  "mapNumber values key =
     (case mget values key of Some (Any_Float v) \<Rightarrow> v | Some (Any_Int n) \<Rightarrow> of_int n | _ \<Rightarrow> 0)"

text \<open>Conversion of a \<open>float64\<close> to \<open>int\<close>: towards zero.\<close>

definition int_of :: "rat \<Rightarrow> int" where
  "int_of q = (if q < 0 then - \<lfloor>- q\<rfloor> else \<lfloor>q\<rfloor>)"

definition plural :: "int \<Rightarrow> string \<Rightarrow> string \<Rightarrow> string" where
  "plural n singular plurals =
     (if n = 1 then Itoa n @ '' '' @ singular else Itoa n @ '' '' @ plurals)"

definition byteCount :: "nat \<Rightarrow> string" where
  "byteCount n = plural (int n) ''byte'' ''bytes''"

definition friendlyTime :: "formats \<Rightarrow> string \<Rightarrow> string" where
  "friendlyTime fm v =
     (case fm_parse fm v of
        None \<Rightarrow> v
      | Some t \<Rightarrow>
          let d = time_sub (fm_now fm) t; d = (if d < 0 then 0 else d)
          in if d < 10 * second then ''just now''
             else if d < minute then Itoa (d div second) @ '' seconds ago''
             else if d < 60 * minute then Itoa (d div minute) @ '' minutes ago''
             else if d < 24 * 60 * minute then Itoa (d div (60 * minute)) @ '' hours ago''
             else fm_local fm t)"

fun fingerprint_groups :: "string \<Rightarrow> string list" where
  "fingerprint_groups v =
     (if length v > 4 then take 4 v # fingerprint_groups (drop 4 v)
      else if v \<noteq> [] then [v] else [])"

declare fingerprint_groups.simps [simp del]

definition groupedFingerprint :: "string \<Rightarrow> string" where
  "groupedFingerprint v = join_with '' '' (fingerprint_groups v)"

definition humanPeerState :: "peer_status \<Rightarrow> string" where
  "humanPeerState x =
     (if ps_State x = Trusted
      then (if sx_Connected (ps_Stats x) then ''paired and connected'' else ''paired, currently offline'')
      else if ps_State x = Pending then ''waiting for approval''
      else if ps_State x = Rejected then ''rejected''
      else ''available to pair'')"

section \<open>Reports\<close>

definition printPairingIdentity :: "peer_status \<Rightarrow> string" where
  "printPairingIdentity x =
     ln ''Compare these on both devices:''
     @ ln (''  Code:        '' @ p_ComparisonCode (ps_Peer x))
     @ ln (''  Fingerprint: '' @ groupedFingerprint (p_Fingerprint (ps_Peer x))) @ ln []"

definition paired_device :: "formats \<Rightarrow> peer_status \<Rightarrow> string" where
  "paired_device fm x =
     (let st = ps_Stats x; state = (if sx_Connected st then ''connected'' else ''offline'')
      in ln (''  '' @ safeDeviceName (ps_Name x) @ dash @ state)
         @ (if sx_Address st \<noteq> [] then ln (''    Address:       '' @ sx_Address st)
            else if length (ps_Addresses x) > 0 then ln (''    Address:       '' @ ps_Addresses x ! 0)
            else [])
         @ (if sx_LastSent st \<noteq> zero_time
            then ln (''    Last sent:     '' @ friendlyTime fm (fm_nano fm (sx_LastSent st))
                     @ '' ('' @ byteCount (sx_SentBytes st) @ '')'') else [])
         @ (if sx_LastReceived st \<noteq> zero_time
            then ln (''    Last received: '' @ friendlyTime fm (fm_nano fm (sx_LastReceived st))
                     @ '' ('' @ byteCount (sx_ReceivedBytes st) @ '')'') else [])
         @ ln (''    Reconnects:    '' @ Itoa (sx_Reconnects st))
         @ (if sx_LastError st \<noteq> [] \<and> \<not> sx_Connected st
            then ln (''    Last error:    '' @ sx_LastError st) else []))"

definition printStatus :: "formats \<Rightarrow> status \<Rightarrow> string" where
  "printStatus fm st =
     (let clip = ss_Clipboard st;
          clipState = (if ch_Running clip then ''ready'' else ''needs attention'')
            @ (if ch_LastError clip \<noteq> [] then dash @ ch_LastError clip else []);
          seen = int_of (mapNumber (ss_Discovery st) ''peers_seen'');
          e = mapString (ss_Discovery st) ''last_error'';
          discovery = (if e \<noteq> [] then ''needs attention'' @ dash @ e else ''healthy'');
          lst = mapString (ss_Discovery st) ''last_browse'';
          trusted = filter (\<lambda>x. ps_State x = Trusted) (ss_Peers st)
      in ln (''Lanclip '' @ ss_Version st) @ ln []
         @ ln (''This device:  '' @ safeDeviceName (ss_Name st))
         @ ln (''Service:      running for '' @ ss_Uptime st)
         @ ''Clipboard:    '' @ clipState
         @ (if ch_LastEvent clip \<noteq> [] then '' (last activity '' @ friendlyTime fm (ch_LastEvent clip) @ '')'' else [])
         @ ln []
         @ ''Discovery:    '' @ discovery @ '' ('' @ plural seen ''device'' ''devices'' @ '' found''
         @ (if lst \<noteq> [] then '', checked '' @ friendlyTime fm lst else [])
         @ ln '')''
         @ ln [] @ ln ''Paired devices:''
         @ (if length trusted = 0 then ln ''  None. Run 'lanclip pair' to add one.''
            else concat (map (paired_device fm) trusted)))"

definition listed_device :: "formats \<Rightarrow> peer_status \<Rightarrow> string" where
  "listed_device fm x =
     ln (''  '' @ safeDeviceName (ps_Name x) @ dash @ humanPeerState x)
     @ (if ps_State x = Pending
        then ln (''    Code:        '' @ p_ComparisonCode (ps_Peer x))
             @ ln (''    Fingerprint: '' @ groupedFingerprint (p_Fingerprint (ps_Peer x)))
             @ ln (''    Next:        lanclip approve '' @ fm_quote fm (ps_Name x))
        else if sx_Address (ps_Stats x) \<noteq> [] then ln (''    Address:     '' @ sx_Address (ps_Stats x))
        else if length (ps_Addresses x) > 0 then ln (''    Address:     '' @ ps_Addresses x ! 0)
        else [])"

definition printPeers :: "formats \<Rightarrow> peer_status list \<Rightarrow> string" where
  "printPeers fm peers =
     ln ''Devices:''
     @ (if length peers = 0
        then ln ''  No devices found. Make sure Lanclip is running on the other device.''
        else concat (map (listed_device fm) peers))"

definition doctor_line :: "doctor_check \<Rightarrow> string" where
  "doctor_line c =
     ''  '' @ (if dc_OK c then ''[ok]'' else ''[!!]'') @ '' '' @ dc_Name c
     @ (if dc_Detail c \<noteq> [] then dash @ dc_Detail c else []) @ ln []"

definition printDoctor :: "doctor_check list \<Rightarrow> string" where
  "printDoctor checks =
     (let passed = foldl (\<lambda>n c. if dc_OK c then n + 1 else n) 0 checks
      in ln ''Lanclip doctor:'' @ concat (map doctor_line checks)
         @ (if passed = length checks then ln [] @ ln (''All '' @ decimal passed @ '' checks passed.'')
            else ln [] @ ln (decimal passed @ '' of '' @ decimal (length checks)
                   @ '' checks passed; review the items marked [!!].'')))"

definition printHelp :: string where
  "printHelp = concat (map ln
     [''Lanclip'' @ dash @ ''private clipboard sync for your local network'',
      [],
      ''Usage:'',
      ''  lanclip status              Show service and connection health'',
      ''  lanclip peers               List nearby and paired devices'',
      ''  lanclip pair [device]       Pair with a nearby device'',
      ''  lanclip approve [device]    Approve a matching pairing request'',
      ''  lanclip reject [device]     Reject a pairing request'',
      ''  lanclip unpair [device]     Remove a paired device'',
      ''  lanclip doctor              Check the local setup'',
      ''  lanclip version             Show the installed version'',
      [],
      ''Device names are optional. Without one, Lanclip presents a numbered menu.''])"

definition usageError :: string where
  "usageError = ''unknown or invalid command; run 'lanclip help' for usage''"

section \<open>What the reports tell\<close>

text \<open>The groups of a fingerprint are the fingerprint, cut every four characters.\<close>

lemma concat_fingerprint_groups [simp]: "concat (fingerprint_groups v) = v"
  by (induction v rule: fingerprint_groups.induct) (subst fingerprint_groups.simps, auto)

lemma fingerprint_groups_length: "g \<in> set (fingerprint_groups v) \<Longrightarrow> 0 < length g \<and> length g \<le> 4"
  by (induction v rule: fingerprint_groups.induct)
    (subst (asm) (2) fingerprint_groups.simps, auto split: if_splits)

lemma filter_join_space: "filter (\<lambda>c. c \<noteq> CHR '' '') (join_with '' '' gs) = filter (\<lambda>c. c \<noteq> CHR '' '') (concat gs)"
  by (induction gs rule: induct_list012) auto

lemma groupedFingerprint_inv:
  "CHR '' '' \<notin> set v \<Longrightarrow> filter (\<lambda>c. c \<noteq> CHR '' '') (groupedFingerprint v) = v"
  by (simp add: groupedFingerprint_def filter_join_space filter_id_conv) metis

lemma set_groupedFingerprint: "set (groupedFingerprint v) \<subseteq> insert (CHR '' '') (set v)"
proof -
  have "set (join_with '' '' gs) \<subseteq> insert (CHR '' '') (set (concat gs))" for gs
    by (induction gs rule: induct_list012) auto
  from this [of "fingerprint_groups v"] show ?thesis by (simp add: groupedFingerprint_def)
qed

lemma passed_count: "foldl (\<lambda>n c. if dc_OK c then n + 1 else n) k checks = k + length (filter dc_OK checks)"
  by (induction checks arbitrary: k) auto

end
