(* ===== verification/Command_Line.thy ===== *)
theory Command_Line
  imports Reports
begin

text \<open>
  \<open>runControl\<close> of \<open>cmd/lanclip/cli.go\<close>: a command line becomes requests to the daemon and
  text on the terminal.

  A call to the daemon is a state-passing function: it may be the daemon's own \<open>handleControl\<close>
  with whatever happens to the daemon in between, or any other server. What \<open>json.Unmarshal\<close>
  makes of the data of a response is an argument for each type it is decoded into.
\<close>

section \<open>Requests\<close>

type_synonym 'd caller = "control_request \<Rightarrow> 'd \<Rightarrow> (string + control_response) \<times> 'd"

record client =
  cl_lower :: "rune \<Rightarrow> rune"
  cl_fold :: "rune \<Rightarrow> rune"
  cl_formats :: formats
  cl_status :: "control_data \<Rightarrow> string + status"
  cl_peers :: "control_data \<Rightarrow> string + peer_status list"
  cl_checks :: "control_data \<Rightarrow> string + doctor_check list"
  cl_peer :: "control_data \<Rightarrow> string + peer"

definition plain_request :: "string \<Rightarrow> control_request" where
  "plain_request command = \<lparr>rq_Command = command, rq_Argument = [], rq_PairToken = [],
     rq_Fingerprint = [], rq_Code = []\<rparr>"

definition request :: "'d caller \<Rightarrow> control_request \<Rightarrow> 'd \<Rightarrow> (string + control_response) \<times> 'd" where
  "request call req d =
     (case call req d of
        (Inl e, d) \<Rightarrow> (Inl (''Lanclip service is unavailable: '' @ e), d)
      | (Inr resp, d) \<Rightarrow> if \<not> rs_OK resp then (Inl (rs_Error resp), d) else (Inr resp, d))"

definition actions :: "string list" where
  "actions = [''pair'', ''approve'', ''reject'', ''unpair'']"

definition reports :: "string list" where
  "reports = [''status'', ''peers'', ''doctor'']"

section \<open>Reports\<close>

definition run_report :: "client \<Rightarrow> 'd caller \<Rightarrow> string \<Rightarrow> io \<Rightarrow> 'd \<Rightarrow> string option \<times> io \<times> 'd" where
  "run_report cl call command s d =
     (case request call (plain_request command) d of
        (Inl e, d) \<Rightarrow> (Some e, s, d)
      | (Inr resp, d) \<Rightarrow>
          if command = ''status'' then
            (case decode (cl_status cl) (rs_Data resp) of
               Inl e \<Rightarrow> (Some e, s, d)
             | Inr st \<Rightarrow> (None, put (printStatus (cl_formats cl) st) s, d))
          else if command = ''peers'' then
            (case decodePeers (cl_peers cl) (rs_Data resp) of
               Inl e \<Rightarrow> (Some e, s, d)
             | Inr peers \<Rightarrow> (None, put (printPeers (cl_formats cl) peers) s, d))
          else if command = ''doctor'' then
            (case decode (cl_checks cl) (rs_Data resp) of
               Inl e \<Rightarrow> (Some e, s, d)
             | Inr checks \<Rightarrow> (None, put (printDoctor checks) s, d))
          else (None, s, d))"

section \<open>Actions\<close>

definition no_device :: "client \<Rightarrow> string \<Rightarrow> string \<Rightarrow> string" where
  "no_device cl query command =
     ''no device named '' @ fm_quote (cl_formats cl) query @ '' is available to '' @ command
       @ ''; run 'lanclip peers' to see available devices''"

definition select_device ::
  "client \<Rightarrow> string \<Rightarrow> string list \<Rightarrow> peer_status list \<Rightarrow> io \<Rightarrow> (string + peer_status) \<times> io" where
  "select_device cl command rest candidates s =
     (case rest of
        [query] \<Rightarrow> (case findPeer (cl_fold cl) candidates query of
            Some x \<Rightarrow> (Inr x, s) | None \<Rightarrow> (Inl (no_device cl query command), s))
      | _ \<Rightarrow> choosePeer command candidates s)"

definition approve_question :: string where
  "approve_question = ''Do the code and fingerprint match on both devices?''"

text \<open>\<open>Inr ()\<close> when the command goes ahead, else what \<open>runControl\<close> returns.\<close>

definition ask_user :: "client \<Rightarrow> string \<Rightarrow> peer_status \<Rightarrow> io \<Rightarrow> (string option + unit) \<times> io" where
  "ask_user cl command selected s =
     (if command = ''approve'' then
        (case confirm (cl_lower cl) approve_question False (put (printPairingIdentity selected) s) of
           (Inl e, s) \<Rightarrow> (Inl (Some e), s)
         | (Inr ok, s) \<Rightarrow>
             if \<not> ok then (Inl None, putln ''Approval cancelled. No trust was added.'' s) else (Inr (), s))
      else if command = ''reject'' \<or> command = ''unpair'' then
        (let verb = (if command = ''unpair'' then ''Remove'' else ''Reject'')
         in case confirm (cl_lower cl) (verb @ '' '' @ ps_Name selected @ ''?'') False s of
              (Inl e, s) \<Rightarrow> (Inl (Some e), s)
            | (Inr ok, s) \<Rightarrow>
                if \<not> ok then (Inl None, putln ''Cancelled. No changes were made.'' s) else (Inr (), s))
      else (Inr (), s))"

definition action_request :: "string \<Rightarrow> peer_status \<Rightarrow> control_request" where
  "action_request command selected =
     (let req = (plain_request command)\<lparr>rq_Argument := ps_ID selected\<rparr>
      in if command = ''approve''
         then req\<lparr>rq_PairToken := p_ApprovalToken (ps_Peer selected),
                  rq_Fingerprint := p_Fingerprint (ps_Peer selected),
                  rq_Code := p_ComparisonCode (ps_Peer selected)\<rparr>
         else req)"

definition pair_report :: "client \<Rightarrow> peer \<Rightarrow> string" where
  "pair_report cl p0 =
     (let p = p0\<lparr>p_Name := safeDeviceName (p_Name p0)\<rparr>
      in ln (''Pairing request sent to '' @ p_Name p @ ''.'') @ ln []
         @ printPairingIdentity \<lparr>ps_Peer = p, ps_Addresses = [], ps_Stats = zero_stats\<rparr>
         @ ln ''If both match, run this on each device:''
         @ ln (''  lanclip approve '' @ fm_quote (cl_formats cl) (p_Name p)))"

definition done_message :: "string \<Rightarrow> peer_status \<Rightarrow> string" where
  "done_message command selected =
     (if command = ''approve'' then ''Approved '' @ ps_Name selected @ ''. Clipboard sync will connect automatically.''
      else if command = ''reject'' then ''Rejected '' @ ps_Name selected @ ''.''
      else if command = ''unpair'' then ''Removed '' @ ps_Name selected @ ''. Run 'lanclip pair' to pair it again.''
      else [])"

definition run_action ::
  "client \<Rightarrow> 'd caller \<Rightarrow> string \<Rightarrow> string list \<Rightarrow> io \<Rightarrow> 'd \<Rightarrow> string option \<times> io \<times> 'd" where
  "run_action cl call command rest s d =
     (case request call (plain_request ''peers'') d of
        (Inl e, d) \<Rightarrow> (Some e, s, d)
      | (Inr peersResp, d) \<Rightarrow>
     (case decodePeers (cl_peers cl) (rs_Data peersResp) of
        Inl e \<Rightarrow> (Some e, s, d)
      | Inr peers \<Rightarrow>
     (case select_device cl command rest (eligiblePeers (cl_lower cl) command peers) s of
        (Inl e, s) \<Rightarrow> (Some e, s, d)
      | (Inr selected, s) \<Rightarrow>
     (case ask_user cl command selected s of
        (Inl e, s) \<Rightarrow> (e, s, d)
      | (Inr _, s) \<Rightarrow>
     (case request call (action_request command selected) d of
        (Inl e, d) \<Rightarrow> (Some e, s, d)
      | (Inr resp, d) \<Rightarrow>
          if command = ''pair'' then
            (case decode (cl_peer cl) (rs_Data resp) of
               Inl e \<Rightarrow> (Some e, s, d)
             | Inr p \<Rightarrow> (None, put (pair_report cl p) s, d))
          else (None, putln (done_message command selected) s, d))))))"

definition runControl ::
  "client \<Rightarrow> 'd caller \<Rightarrow> string \<Rightarrow> string list \<Rightarrow> io \<Rightarrow> 'd \<Rightarrow> string option \<times> io \<times> 'd" where
  "runControl cl call command rest s d =
     (if command \<notin> set actions \<and> command \<notin> set reports then (Some usageError, s, d)
      else if command \<in> set reports \<and> length rest \<noteq> 0 \<or> command \<in> set actions \<and> length rest > 1
        then (Some usageError, s, d)
      else if command \<in> set reports then run_report cl call command s d
      else run_action cl call command rest s d)"

section \<open>The dialogue\<close>

text \<open>What a line answers, by the rules \<open>confirm\<close> reads it with.\<close>

definition answered :: "(rune \<Rightarrow> rune) \<Rightarrow> bool \<Rightarrow> string \<Rightarrow> bool option" where
  "answered tab dflt line =
     (let answer = to_lower tab (trim_space line)
      in if answer = [] then Some dflt
         else if answer \<in> {''y'', ''yes''} then Some True
         else if answer \<in> {''n'', ''no''} then Some False else None)"

lemma confirm_unfold:
  assumes "ReadLine (put (q @ (if dflt then '' [Y/n]: '' else '' [y/N]: '')) s) = (line, stop, s1)"
  shows "confirm tab q dflt s =
    (case stop of
       Read_Error e \<Rightarrow> (Inl e, s1)
     | _ \<Rightarrow> (case answered tab dflt line of
         Some b \<Rightarrow> (Inr b, s1)
       | None \<Rightarrow> if stop = At_EOF then (Inl ''no confirmation entered'', s1)
                 else confirm tab q dflt (putln ''Please enter y or n.'' s1)))"
  by (subst confirm.simps) (simp add: assms answered_def Let_def split: read_end.splits)

text \<open>What one round of a dialogue does, as a step on the terminal.\<close>

lemma prompt_round:
  assumes "ReadLine (put p s) = (line, stop, s1)"
  shows "grows s s1" "io_in s = line @ io_in s1" "io_out s1 = io_out s @ p"
    "stop = No_Error \<Longrightarrow> length (io_in s1) < length (io_in s)"
  using grows_trans [OF grows_put(1) grows_ReadLine [OF assms]] ReadLine_splits [OF assms]
    ReadLine_fields [OF assms] ReadLine_shrinks [of "put p s" line s1] assms by auto

lemma confirm_dialogue:
  assumes "confirm tab q dflt s = (r, s')"
  shows "grows s s' \<and> prefix (io_out s @ q) (io_out s')
    \<and> (\<forall>b. r = Inr b \<longrightarrow> (\<exists>before line. io_in s = before @ line @ io_in s' \<and> answered tab dflt line = Some b))"
  using assms
proof (induction "length (io_in s)" arbitrary: s rule: less_induct)
  case less
  let ?p = "q @ (if dflt then '' [Y/n]: '' else '' [y/N]: '')"
  obtain line stop s1 where rl: "ReadLine (put ?p s) = (line, stop, s1)" by (cases "ReadLine (put ?p s)")
  note one = prompt_round [OF rl] and unfolded = less.prems [unfolded confirm_unfold [OF rl]]
  let ?s2 = "putln ''Please enter y or n.'' s1"
  have shown: "prefix (io_out s @ q) (io_out s1)" by (simp add: one(3))
  have here: ?case if "s' = s1" "\<forall>b. r = Inr b \<longrightarrow> answered tab dflt line = Some b"
  proof -
    have "io_in s = [] @ line @ io_in s'" using one(2) that(1) by simp
    with that one(1) shown show ?thesis by blast
  qed
  show ?case
  proof (cases "stop = No_Error \<and> answered tab dflt line = None")
    case True
    then have c: "confirm tab q dflt ?s2 = (r, s')" "length (io_in ?s2) < length (io_in s)"
      using unfolded one(4) by simp_all
    from less.hyps [OF c(2,1)] have ih: "grows ?s2 s'"
      "\<forall>b. r = Inr b \<longrightarrow> (\<exists>before line. io_in s1 = before @ line @ io_in s' \<and> answered tab dflt line = Some b)"
      by simp_all
    have g: "grows s1 s'" using ih(1) grows_put(2) grows_trans by blast
    then have "prefix (io_out s1) (io_out s')" by (simp add: grows_def)
    with shown have "prefix (io_out s @ q) (io_out s')" by (rule prefix_order.trans)
    moreover have "grows s s'" by (rule grows_trans [OF one(1) g])
    moreover have "\<exists>before line. io_in s = before @ line @ io_in s' \<and> answered tab dflt line = Some b"
      if "r = Inr b" for b
      using ih(2) that one(2) by (metis append.assoc)
    ultimately show ?thesis by blast
  next
    case False
    with unfolded show ?thesis by (intro here) (auto split: read_end.splits option.splits)
  qed
qed

lemma chosen_member: "chosen peers line = Some x \<Longrightarrow> x \<in> set peers"
  by (auto simp: chosen_def split: if_splits option.splits)

lemma choose_loop_dialogue:
  assumes "choose_loop peers s = (r, s')"
  shows "grows s s' \<and> (\<forall>x. r = Inr x \<longrightarrow>
    (\<exists>before line. io_in s = before @ line @ io_in s' \<and> chosen peers (trim_space line) = Some x))"
  using assms
proof (induction "length (io_in s)" arbitrary: s rule: less_induct)
  case less
  let ?p = "if length peers = 1 then ''Selection [1]: '' else ''Selection [1-'' @ decimal (length peers) @ '']: ''"
  obtain line stop s1 where rl: "ReadLine (put ?p s) = (line, stop, s1)" by (cases "ReadLine (put ?p s)")
  note one = prompt_round [OF rl]
  note unfolded = less.prems [unfolded choose_loop.simps [of peers s] Let_def rl prod.case]
  let ?s2 = "putln ''Enter the number shown next to the device.'' s1"
  have here: ?case if "s' = s1" "\<forall>x. r = Inr x \<longrightarrow> chosen peers (trim_space line) = Some x"
  proof -
    have "io_in s = [] @ line @ io_in s'" using one(2) that(1) by simp
    with that one(1) show ?thesis by blast
  qed
  show ?case
  proof (cases "stop = No_Error \<and> chosen peers (trim_space line) = None")
    case True
    then have c: "choose_loop peers ?s2 = (r, s')" "length (io_in ?s2) < length (io_in s)"
      using unfolded one(4) by simp_all
    from less.hyps [OF c(2,1)] have ih: "grows ?s2 s'" "\<forall>x. r = Inr x \<longrightarrow>
        (\<exists>before line. io_in s1 = before @ line @ io_in s' \<and> chosen peers (trim_space line) = Some x)"
      by simp_all
    have "grows s s'" using ih(1) one(1) grows_put(2) grows_trans by blast
    moreover have "\<exists>before line. io_in s = before @ line @ io_in s' \<and> chosen peers (trim_space line) = Some x"
      if "r = Inr x" for x
      using ih(2) that one(2) by (metis append.assoc)
    ultimately show ?thesis by blast
  next
    case False
    with unfolded show ?thesis by (intro here) (auto split: read_end.splits option.splits)
  qed
qed

section \<open>What a command does to the daemon\<close>

text \<open>
  \<open>confirmed\<close>: from terminal \<open>s\<close> to terminal \<open>s'\<close> the text was printed and a line read that
  answers yes, the last line read.
\<close>

definition consent_text :: "string \<Rightarrow> peer_status \<Rightarrow> string" where
  "consent_text command x =
     (if command = ''approve'' then printPairingIdentity x @ approve_question
      else (if command = ''unpair'' then ''Remove'' else ''Reject'') @ '' '' @ ps_Name x @ ''?'')"

definition confirmed :: "client \<Rightarrow> string \<Rightarrow> io \<Rightarrow> io \<Rightarrow> bool" where
  "confirmed cl shown s s' \<longleftrightarrow>
     (\<exists>out1 out2. io_out s' = io_out s @ out1 @ shown @ out2)
   \<and> (\<exists>before line. io_in s = before @ line @ io_in s' \<and> answered (cl_lower cl) False line = Some True)"

lemma confirmed_more:
  assumes "confirmed cl shown s1 s2" "grows s s1" "io_in s3 = io_in s2" "prefix (io_out s2) (io_out s3)"
  shows "confirmed cl shown s s3"
proof -
  obtain a b where out: "io_out s2 = io_out s1 @ a @ shown @ b" using assms(1) by (auto simp: confirmed_def)
  obtain i l where inp: "io_in s1 = i @ l @ io_in s2" "answered (cl_lower cl) False l = Some True"
    using assms(1) by (auto simp: confirmed_def)
  obtain c d e where "io_out s1 = io_out s @ c" "io_in s = d @ io_in s1" "io_out s3 = io_out s2 @ e"
    using assms(2,4) by (auto simp: grows_def prefix_def suffix_def)
  then have "io_out s3 = io_out s @ (c @ a) @ shown @ (b @ e)" "io_in s = (d @ i) @ l @ io_in s3"
    using out inp(1) assms(3) by simp_all
  with inp(2) show ?thesis unfolding confirmed_def by blast
qed

lemma confirm_confirmed:
  "confirm (cl_lower cl) q False s = (Inr True, s') \<Longrightarrow> confirmed cl q s s'"
  using confirm_dialogue [of "cl_lower cl" q False s "Inr True" s']
  by (fastforce simp: confirmed_def prefix_def)

lemma ask_user_confirmed:
  assumes "ask_user cl command x s = (Inr u, s')"
    and "command \<in> {''approve'', ''reject'', ''unpair''}"
  shows "confirmed cl (consent_text command x) s s'"
proof (cases "command = ''approve''")
  case True
  let ?s1 = "put (printPairingIdentity x) s"
  have "confirm (cl_lower cl) approve_question False ?s1 = (Inr True, s')"
    using assms(1) True by (auto simp: ask_user_def split: prod.splits sum.splits if_splits)
  from confirm_confirmed [OF this] obtain a b i l where
    c: "confirm (cl_lower cl) approve_question False ?s1 = (Inr True, s')"
      "io_in s = i @ l @ io_in s'" "answered (cl_lower cl) False l = Some True"
    using \<open>confirm _ _ _ _ = _\<close> by (auto simp: confirmed_def)
  from confirm_dialogue [OF c(1)] have "prefix (io_out s @ consent_text command x) (io_out s')"
    by (simp add: True consent_text_def)
  with c(2,3) show ?thesis unfolding confirmed_def by (fastforce simp: prefix_def)
next
  case False
  with assms have "confirm (cl_lower cl) (consent_text command x) False s = (Inr True, s')"
    by (auto simp: ask_user_def consent_text_def split: prod.splits sum.splits if_splits)
  then show ?thesis by (rule confirm_confirmed)
qed

lemma findPeer_Some:
  "findPeer tab peers query = Some x \<longleftrightarrow>
     filter (\<lambda>x. equal_fold tab (ps_Name x) (trim_space query) \<or> has_prefix (ps_ID x) (trim_space query)) peers = [x]"
  by (auto simp: findPeer_def Let_def length_Suc_conv split: if_splits)

lemma findPeer_member: "findPeer tab peers query = Some x \<Longrightarrow> x \<in> set peers"
  unfolding findPeer_Some by (metis filter_is_subset list.set_intros(1) subsetD)

lemma select_device_grows:
  assumes "select_device cl command rest candidates s = (r, s')"
  shows "grows s s'" "\<And>x. r = Inr x \<Longrightarrow> x \<in> set candidates"
proof -
  have loop: "grows s0 s1 \<and> (\<forall>x. r = Inr x \<longrightarrow> x \<in> set candidates)"
    if "choose_loop candidates s0 = (r, s1)" for s0 s1
    using choose_loop_dialogue [OF that] chosen_member by blast
  have choose: "grows s s' \<and> (\<forall>x. r = Inr x \<longrightarrow> x \<in> set candidates)"
    if "choosePeer command candidates s = (r, s')"
    using that loop [of "put (menu command candidates) s" s'] grows_trans [OF grows_put(1)] grows_refl
    by (auto simp: choosePeer_def split: if_splits)
  from assms choose findPeer_member grows_refl [of s]
  have "grows s s' \<and> (\<forall>x. r = Inr x \<longrightarrow> x \<in> set candidates)"
    by (auto simp: select_device_def split: list.splits option.splits)
  then show "grows s s'" "\<And>x. r = Inr x \<Longrightarrow> x \<in> set candidates" by blast+
qed

lemma request_call:
  assumes "request call q d = (r, d')"
  shows "d' = snd (call q d)" "\<And>resp. r = Inr resp \<Longrightarrow> fst (call q d) = Inr resp \<and> rs_OK resp"
  using assms by (auto simp: request_def split: prod.splits sum.splits if_splits)

lemma eligiblePeers_member: "x \<in> set (eligiblePeers tab command peers) \<longleftrightarrow> x \<in> set peers \<and> eligible command x"
  by (auto simp: eligiblePeers_def)

text \<open>What happens once the device is chosen and the user asked.\<close>

lemma run_action_cases:
  assumes "run_action cl call command rest s d = (e, s', d')"
  obtains (asked) "d' = snd (call (plain_request ''peers'') d)"
  | (sent) resp peers x s1 s2 u where
      "fst (call (plain_request ''peers'') d) = Inr resp"
      "decodePeers (cl_peers cl) (rs_Data resp) = Inr peers"
      "select_device cl command rest (eligiblePeers (cl_lower cl) command peers) s = (Inr x, s1)"
      "ask_user cl command x s1 = (Inr u, s2)"
      "d' = snd (call (action_request command x) (snd (call (plain_request ''peers'') d)))"
      "io_in s' = io_in s2" "prefix (io_out s2) (io_out s')"
proof -
  obtain r1 d1 where r1: "request call (plain_request ''peers'') d = (r1, d1)" by fastforce
  note d1 = request_call [OF r1]
  note run = assms [unfolded run_action_def r1]
  show thesis
  proof (cases r1)
    case (Inl a)
    with run d1(1) asked show ?thesis by simp
  next
    case (Inr resp)
    note run = run [unfolded Inr prod.case sum.case]
    show ?thesis
    proof (cases "decodePeers (cl_peers cl) (rs_Data resp)")
      case (Inl a)
      with run d1(1) asked show ?thesis by simp
    next
      case peers: (Inr peers)
      note run = run [unfolded peers sum.case]
      obtain r2 s1 where sel: "select_device cl command rest (eligiblePeers (cl_lower cl) command peers) s = (r2, s1)"
        by fastforce
      show ?thesis
      proof (cases r2)
        case (Inl a)
        with run sel d1(1) asked show ?thesis by simp
      next
        case x: (Inr x)
        note run = run [unfolded sel x prod.case sum.case]
        obtain r3 s2 where ask: "ask_user cl command x s1 = (r3, s2)" by fastforce
        show ?thesis
        proof (cases r3)
          case (Inl a)
          with run ask d1(1) asked show ?thesis by auto
        next
          case u: (Inr u)
          obtain r4 d2 where r4: "request call (action_request command x) d1 = (r4, d2)" by fastforce
          have "d' = d2 \<and> io_in s' = io_in s2 \<and> prefix (io_out s2) (io_out s')"
            using run [unfolded ask u prod.case sum.case r4] by (auto split: sum.splits if_splits)
          with sent [OF _ peers sel [unfolded x] ask [unfolded u]] d1 Inr request_call(1) [OF r4]
          show ?thesis by simp
        qed
      qed
    qed
  qed
qed

text \<open>The calls a whole command line makes, and what was shown and answered before the last one.\<close>

lemma runControl_cases:
  assumes "runControl cl call command rest s d = (e, s', d')"
  obtains (usage) "d' = d"
  | (report) "command \<in> set reports" "d' = snd (call (plain_request command) d)"
  | (asked) "command \<in> set actions" "d' = snd (call (plain_request ''peers'') d)"
  | (sent) resp peers x where "command \<in> set actions"
      "fst (call (plain_request ''peers'') d) = Inr resp" "decodePeers (cl_peers cl) (rs_Data resp) = Inr peers"
      "x \<in> set peers" "eligible command x"
      "d' = snd (call (action_request command x) (snd (call (plain_request ''peers'') d)))"
      "command = ''pair'' \<or> confirmed cl (consent_text command x) s s'"
proof -
  consider "e = Some usageError" "d' = d" | "command \<in> set reports" "run_report cl call command s d = (e, s', d')"
    | "command \<in> set actions" "run_action cl call command rest s d = (e, s', d')"
    using assms by (auto simp: runControl_def split: if_splits)
  then show thesis
  proof cases
    case 1
    then show ?thesis by (intro usage)
  next
    case 2
    obtain r d1 where r: "request call (plain_request command) d = (r, d1)" by fastforce
    with 2(2) have "d' = d1" by (auto simp: run_report_def split: sum.splits if_splits)
    with 2(1) request_call(1) [OF r] show ?thesis by (intro report) simp_all
  next
    case 3
    from 3(2) show ?thesis
    proof (cases rule: run_action_cases)
      case asked
      with 3(1) show ?thesis by (intro that(3))
    next
      case (sent resp peers x s1 s2 u)
      note sel = select_device_grows [OF sent(3)]
      have "command = ''pair'' \<or> confirmed cl (consent_text command x) s1 s2"
        using ask_user_confirmed [OF sent(4)] 3(1) by (auto simp: actions_def)
      then have "command = ''pair'' \<or> confirmed cl (consent_text command x) s s'"
        using confirmed_more [OF _ sel(1) sent(6,7)] by blast
      with sent(1,2,5) sel(2) [OF refl] 3(1) show ?thesis
        by (intro that(4) [of resp peers x]) (simp_all add: eligiblePeers_member)
    qed
  qed
qed

section \<open>Properties\<close>

text \<open>
  C21. Nothing is sent to the daemon without the user's consent. A command line makes at most two
  requests: a report command sends itself; an action asks for the devices and then sends at most
  one request, for a device of the answer that the action applies to. For approve, reject and
  unpair that second request is made only after the device's name, or its code and fingerprint,
  were printed and a line was read that says yes; an approval carries exactly the token, the
  fingerprint and the code of the device that was shown.
\<close>

theorem nothing_is_sent_without_consent:
  assumes "runControl cl call command rest s d = (e, s', d')"
  shows "d' = d
    \<or> command \<in> set reports \<and> d' = snd (call (plain_request command) d)
    \<or> command \<in> set actions \<and> (let (r, d1) = call (plain_request ''peers'') d in d' = d1
       \<or> (\<exists>resp peers x. r = Inr resp \<and> decodePeers (cl_peers cl) (rs_Data resp) = Inr peers
            \<and> x \<in> set peers \<and> eligible command x \<and> d' = snd (call (action_request command x) d1)
            \<and> (command = ''pair'' \<or> confirmed cl (consent_text command x) s s')))"
  using assms by (cases rule: runControl_cases) (auto simp: case_prod_beta)

text \<open>
  The device chosen is the one whose number was typed. After the menu was printed, the last
  line read is the number that stands before the device returned, or it is empty and there is
  only one device; what is not such a number is asked again, and the dialogue always ends.
\<close>

theorem choice_is_what_was_typed:
  assumes "choosePeer action peers s = (Inr x, s')"
  shows "prefix (io_out s @ menu action peers) (io_out s')
    \<and> (\<exists>before line i. io_in s = before @ line @ io_in s' \<and> i < length peers \<and> x = peers ! i
        \<and> (Atoi (trim_space line) = Some (int i + 1) \<or> trim_space line = [] \<and> length peers = 1))"
proof -
  from assms have ne: "peers \<noteq> []" and loop: "choose_loop peers (put (menu action peers) s) = (Inr x, s')"
    by (auto simp: choosePeer_def split: if_splits)
  from choose_loop_dialogue [OF loop] obtain before line where
    d: "grows (put (menu action peers) s) s'" "io_in s = before @ line @ io_in s'"
      "chosen peers (trim_space line) = Some x"
    by auto
  from d(3) have "\<exists>i < length peers. x = peers ! i
      \<and> (Atoi (trim_space line) = Some (int i + 1) \<or> trim_space line = [] \<and> length peers = 1)"
  proof (cases "trim_space line = [] \<and> length peers = 1")
    case True
    with d(3) show ?thesis by (intro exI [of _ 0]) (auto simp: chosen_def)
  next
    case False
    with d(3) obtain n where "Atoi (trim_space line) = Some n" "1 \<le> n" "n \<le> int (length peers)" "x = peers ! nat (n - 1)"
      by (auto simp: chosen_def split: option.splits if_splits)
    then show ?thesis by (intro exI [of _ "nat (n - 1)"]) auto
  qed
  with d(1,2) show ?thesis by (auto simp: grows_def)
qed

section \<open>Samples\<close>

definition sample_shown :: peer_status where
  "sample_shown = \<lparr>ps_Peer = \<lparr>p_ID = ''a'', p_Name = ''B'', p_Fingerprint = ''ff'', p_State = Pending,
     p_ComparisonCode = ''code'', p_ApprovalToken = ''72'', p_UpdatedAt = 2\<rparr>, ps_Addresses = [], ps_Stats = zero_stats\<rparr>"

definition sample_client :: client where
  "sample_client = \<lparr>cl_lower = (\<lambda>r. r), cl_fold = (\<lambda>r. r),
     cl_formats = \<lparr>fm_parse = (\<lambda>_. None), fm_now = 1, fm_local = (\<lambda>_. []), fm_nano = (\<lambda>_. []), fm_quote = (\<lambda>s. s)\<rparr>,
     cl_status = (\<lambda>_. Inl ''status''), cl_peers = (\<lambda>x. if x = Peers_Data [sample_shown] then Inr [sample_shown] else Inl ''peers''),
     cl_checks = (\<lambda>_. Inl ''checks''), cl_peer = (\<lambda>_. Inl ''peer'')\<rparr>"

definition sample_io :: io where
  "sample_io = \<lparr>io_in = ''y'' @ [newline], io_err = None, io_out = []\<rparr>"

definition counting :: "nat caller" where
  "counting q n = (Inr (ok_data (Peers_Data [sample_shown])), n + 1)"

lemma sample_yes: "answered (\<lambda>r. r) False (''y'' @ [newline]) = Some True"
proof -
  have "visible ''y''" by (simp add: visible_def)
  have "from_runes [121] = ''y''" by code_simp
  then have "to_lower (\<lambda>r. r) (trim_space (''y'' @ [newline])) = ''y''"
    unfolding trim_space_typed [OF \<open>visible ''y''\<close>]
    using \<open>from_runes [121] = ''y''\<close> \<open>visible ''y''\<close> by (simp add: to_lower_visible fold_rune_def)
  then show ?thesis unfolding answered_def Let_def by simp
qed

lemma sample_decode: "decodePeers (cl_peers sample_client) (Peers_Data [sample_shown]) = Inr [sample_shown]"
  by (simp add: decodePeers_def decode_def sample_client_def sample_shown_def normalize_B set_name_def)

lemma sample_find: "findPeer (\<lambda>r. r) (eligiblePeers (\<lambda>r. r) ''approve'' [sample_shown]) ''a'' = Some sample_shown"
  by (simp add: findPeer_Some eligiblePeers_def eligible_def sample_shown_def trim_space_ascii has_prefix_def)

lemma sample_confirm: "fst (confirm (\<lambda>r. r) q False (put t sample_io)) = Inr True"
proof -
  have "ReadLine (put (q @ (if False then '' [Y/n]: '' else '' [y/N]: '')) (put t sample_io))
      = (''y'' @ [newline], No_Error, \<lparr>io_in = [], io_err = None, io_out = t @ q @ '' [y/N]: ''\<rparr>)"
    by (simp add: ReadLine_def sample_io_def put_def newline_def)
  from confirm_unfold [OF this] sample_yes show ?thesis by simp
qed

text \<open>The command \<open>approve a\<close>, answered yes: the daemon is asked twice.\<close>

lemma sample_ask:
  "fst (ask_user sample_client ''approve'' sample_shown sample_io) = Inr ()"
proof -
  obtain s2 where "confirm (\<lambda>r. r) approve_question False (put (printPairingIdentity sample_shown) sample_io) = (Inr True, s2)"
    using sample_confirm [of approve_question "printPairingIdentity sample_shown"] by (metis prod.collapse)
  then show ?thesis by (simp add: ask_user_def sample_client_def)
qed

lemma sample_select:
  "select_device sample_client ''approve'' [''a''] (eligiblePeers (cl_lower sample_client) ''approve'' [sample_shown]) sample_io
     = (Inr sample_shown, sample_io)"
  using sample_find by (simp add: select_device_def sample_client_def)

lemma run_approve:
  assumes "fst (call (plain_request ''peers'') d) = Inr resp" "rs_OK resp"
    and "rs_Data resp = Peers_Data [sample_shown]"
  shows "snd (snd (runControl sample_client call ''approve'' [''a''] sample_io d))
    = snd (call (action_request ''approve'' sample_shown) (snd (call (plain_request ''peers'') d)))"
proof -
  obtain s2 where ask: "ask_user sample_client ''approve'' sample_shown sample_io = (Inr (), s2)"
    using sample_ask by (metis prod.collapse)
  obtain d1 where peers: "request call (plain_request ''peers'') d = (Inr resp, d1)" "d1 = snd (call (plain_request ''peers'') d)"
    using assms(1,2) by (cases "call (plain_request ''peers'') d") (simp add: request_def)
  obtain r d2 where final: "request call (action_request ''approve'' sample_shown) d1 = (r, d2)" by fastforce
  have "snd (snd (run_action sample_client call ''approve'' [''a''] sample_io d)) = d2"
    unfolding run_action_def peers(1) prod.case sum.case assms(3) sample_decode sample_select ask final
    by (simp split: sum.split)
  then show ?thesis
    using peers(2) request_call(1) [OF final] by (simp add: runControl_def actions_def reports_def)
qed

theorem nothing_is_sent_without_consent_witness:
  "\<exists>x. confirmed sample_client (consent_text ''approve'' x) sample_io
     (fst (snd (runControl sample_client counting ''approve'' [''a''] sample_io 0)))"
proof -
  obtain e s' d' where run: "runControl sample_client counting ''approve'' [''a''] sample_io 0 = (e, s', d')"
    by (cases "runControl sample_client counting ''approve'' [''a''] sample_io 0")
  have "d' = 2"
    using run_approve [of counting 0 "ok_data (Peers_Data [sample_shown])"]
    by (simp add: counting_def ok_data_def run)
  with nothing_is_sent_without_consent [OF run]
  show ?thesis by (auto simp: run counting_def reports_def)
qed

theorem choice_is_what_was_typed_witness:
  "\<exists>line. trim_space line = [] \<and> prefix (menu ''unpair'' [sample_shown])
     (io_out (snd (choosePeer ''unpair'' [sample_shown] (sample_io\<lparr>io_in := [newline]\<rparr>))))"
proof -
  have "trim_space ([] @ [newline]) = []" by (rule trim_space_typed) (simp add: visible_def)
  moreover from this have "fst (choosePeer ''unpair'' [sample_shown] (sample_io\<lparr>io_in := [newline]\<rparr>)) = Inr sample_shown"
    by (subst choosePeer_def, subst choose_loop.simps)
      (simp add: ReadLine_def put_def chosen_def sample_io_def newline_def)
  then obtain s' where s': "choosePeer ''unpair'' [sample_shown] (sample_io\<lparr>io_in := [newline]\<rparr>) = (Inr sample_shown, s')"
    by (metis prod.collapse)
  moreover have "prefix (io_out (sample_io\<lparr>io_in := [newline]\<rparr>) @ menu ''unpair'' [sample_shown]) (io_out s')"
    using choice_is_what_was_typed [OF s'] by blast
  ultimately show ?thesis by (intro exI [of _ "[newline]"]) (simp add: sample_io_def)
qed

end
