(* ===== verification/Control_Socket.thy ===== *)
theory Control_Socket
  imports Command_Line
begin

text \<open>
  The control socket (\<open>internal/control/control.go\<close>) between the command line and the daemon, and
  the interface it puts between them: a service that keeps its invariant and trusts a new
  fingerprint only when it is told to approve it. The daemon's \<open>handleControl\<close> provides it.

  JSON encoding and decoding are arguments, and so is what the connection delivers of the bytes
  written in each direction before the deadline.
\<close>

section \<open>Listen, serve, Call\<close>

text \<open>
  A socket file is its permission bits, while it exists. \<open>Listen\<close> gives its result and the
  states of the file, one after each system call; \<open>umask\<close> is the process's.
\<close>

definition Listen ::
  "nat \<Rightarrow> string option \<Rightarrow> string option \<Rightarrow> nat option \<Rightarrow> string option \<times> nat option list" where
  "Listen created listen chmod old =
     (let removed = None
      in case listen of
           Some e \<Rightarrow> (Some e, [old, removed])
         | None \<Rightarrow>
        (case chmod of
           Some e \<Rightarrow> (Some e, [old, removed, Some created, None])
         | None \<Rightarrow> (None, [old, removed, Some created, Some 384])))"

text \<open>\<open>Close\<close>, whether there is a listener, and the error of the removal.\<close>

definition server_Close :: "bool \<Rightarrow> string option \<Rightarrow> nat option \<Rightarrow> bool \<times> string option \<times> nat option" where
  "server_Close listening remove file = (listening, remove, if remove = None then None else file)"

record wire =
  w_enc_request :: "control_request \<Rightarrow> string + string"
  w_dec_request :: "string \<Rightarrow> string + control_request"
  w_enc_response :: "control_response \<Rightarrow> string option"
  w_dec_response :: "string \<Rightarrow> string + control_response"

definition send_response :: "wire \<Rightarrow> control_response \<Rightarrow> string" where
  "send_response w resp = (case w_enc_response w resp of Some b \<Rightarrow> b | None \<Rightarrow> [])"

text \<open>One connection: the bytes that arrive, and the bytes sent back.\<close>

definition serve_conn ::
  "wire \<Rightarrow> (control_request \<Rightarrow> 'd \<Rightarrow> control_response \<times> 'd) \<Rightarrow> string \<Rightarrow> 'd \<Rightarrow> string \<times> 'd" where
  "serve_conn w handle bytes d =
     (case w_dec_request w bytes of
        Inl e \<Rightarrow> (send_response w \<lparr>rs_OK = False, rs_Error = ''invalid request: '' @ e, rs_Data = No_Data\<rparr>, d)
      | Inr req \<Rightarrow> let (resp, d) = handle req d in (send_response w resp, d))"

text \<open>What happens to one connection of the client: the dial, and what gets through.\<close>

record link =
  lk_dial :: "string option"
  lk_up :: "string \<Rightarrow> string"
  lk_down :: "string \<Rightarrow> string"

definition Call :: "wire \<Rightarrow> link \<Rightarrow> (string \<Rightarrow> 'd \<Rightarrow> string \<times> 'd) \<Rightarrow> 'd caller" where
  "Call w lk server req d =
     (case lk_dial lk of
        Some e \<Rightarrow> (Inl e, d)
      | None \<Rightarrow>
     (case w_enc_request w req of
        Inl e \<Rightarrow> (Inl e, d)
      | Inr b \<Rightarrow>
          let (answer, d) = server (lk_up lk b) d
          in case w_dec_response w (lk_down lk answer) of
               Inl e \<Rightarrow> (Inl e, d)
             | Inr resp \<Rightarrow>
                 if \<not> rs_OK resp \<and> rs_Error resp = [] then (Inl ''daemon returned an invalid response'', d)
                 else (Inr resp, d)))"

text \<open>
  The client's view of the daemon: each call runs over a connection of its own, and the daemon
  has gone on in between (\<open>meanwhile\<close>).
\<close>

definition remote ::
  "wire \<Rightarrow> (control_request \<Rightarrow> link) \<Rightarrow> (control_request \<Rightarrow> 'd \<Rightarrow> 'd)
     \<Rightarrow> (control_request \<Rightarrow> 'd \<Rightarrow> control_response \<times> 'd) \<Rightarrow> 'd caller" where
  "remote w lk meanwhile handle req d = Call w (lk req) (serve_conn w handle) req (meanwhile req d)"

lemma listening_socket_is_private:
  "Listen created listen chmod old = (None, states) \<Longrightarrow> last states = Some 384 \<and> open_bits 384 = 0"
  by (auto simp: Listen_def open_bits_def Let_def split: option.splits)

text \<open>
  What a call does to the daemon is what the handler does for the request that arrived, or
  nothing.
\<close>

lemma remote_effect:
  "snd (remote w lk meanwhile handle req d) = meanwhile req d
   \<or> (\<exists>b q. w_enc_request w req = Inr b \<and> w_dec_request w (lk_up (lk req) b) = Inr q
        \<and> snd (remote w lk meanwhile handle req d) = snd (handle q (meanwhile req d)))"
  by (auto simp: remote_def Call_def serve_conn_def Let_def split: option.splits sum.splits prod.splits)

lemma plain_request_simps [simp]:
  "rq_Command (plain_request c) = c" "rq_Command (action_request c x) = c"
  "rq_Fingerprint (action_request ''approve'' x) = p_Fingerprint (ps_Peer x)"
  by (simp_all add: plain_request_def action_request_def Let_def)

text \<open>
  \<open>encoding/json\<close> keeps a string as it is only when it is valid UTF-8, and writes the replacement
  character for the bytes that are not; what it decodes is always valid.
\<close>

definition utf8_request :: "control_request \<Rightarrow> bool" where
  "utf8_request q \<longleftrightarrow> utf8_valid (rq_Command q) \<and> utf8_valid (rq_Argument q) \<and> utf8_valid (rq_PairToken q)
     \<and> utf8_valid (rq_Fingerprint q) \<and> utf8_valid (rq_Code q)"

definition utf8_peer :: "peer_status \<Rightarrow> bool" where
  "utf8_peer x \<longleftrightarrow> utf8_valid (ps_ID x) \<and> utf8_valid (p_ApprovalToken (ps_Peer x))
     \<and> utf8_valid (p_Fingerprint (ps_Peer x)) \<and> utf8_valid (p_ComparisonCode (ps_Peer x))"

lemma utf8_requests:
  "command \<in> set (actions @ reports) \<Longrightarrow> utf8_request (plain_request command)"
  "command \<in> set actions \<Longrightarrow> utf8_peer x \<Longrightarrow> utf8_request (action_request command x)"
  by (auto simp: utf8_request_def utf8_peer_def plain_request_def action_request_def actions_def reports_def
      Let_def intro: utf8_ascii)

lemma decodePeers_utf8:
  assumes "decodePeers unmarshal data = Inr peers" "x \<in> set peers"
    and "\<And>ps y. unmarshal data = Inr ps \<Longrightarrow> y \<in> set ps \<Longrightarrow> utf8_peer y"
  shows "utf8_peer x"
  using assms
  by (fastforce simp: decodePeers_def decode_def Let_def set_name_def utf8_peer_def split: sum.splits if_splits)

section \<open>The interface between the command line and the daemon\<close>

text \<open>
  \<open>granted d q fp\<close>: what the service found in its state \<open>d\<close> when the request \<open>q\<close> made it trust \<open>fp\<close>.
\<close>

locale control_service =
  fixes handle :: "control_request \<Rightarrow> 'd \<Rightarrow> control_response \<times> 'd"
    and ok :: "'d \<Rightarrow> bool"
    and trusts :: "'d \<Rightarrow> string \<Rightarrow> bool"
    and granted :: "'d \<Rightarrow> control_request \<Rightarrow> 'd \<Rightarrow> string \<Rightarrow> bool"
  assumes handle_ok: "ok d \<Longrightarrow> ok (snd (handle q d))"
    and only_approve_trusts: "ok d \<Longrightarrow> trusts (snd (handle q d)) fp \<Longrightarrow> \<not> trusts d fp
      \<Longrightarrow> rq_Command q = ''approve'' \<and> granted d q (snd (handle q d)) fp"
begin

text \<open>A connection that delivers the request as written, or nothing that decodes.\<close>

lemma remote_trust:
  assumes "ok (meanwhile req d)" "trusts (snd (remote w lk meanwhile handle req d)) fp" "\<not> trusts (meanwhile req d) fp"
    and "\<And>b q. w_enc_request w req = Inr b \<Longrightarrow> w_dec_request w (lk_up (lk req) b) = Inr q \<Longrightarrow> q = req"
  shows "rq_Command req = ''approve'' \<and> granted (meanwhile req d) req (snd (remote w lk meanwhile handle req d)) fp"
  using remote_effect [of w lk meanwhile handle req d] assms only_approve_trusts by metis

text \<open>Of the calls a command line makes, only a confirmed approval can make a fingerprint trusted.\<close>

lemma trust_was_shown:
  assumes "runControl cl (remote w lk meanwhile handle) command rest s d = (e, s', d')"
    and meanwhile: "\<And>q d. ok d \<Longrightarrow> ok (meanwhile q d)"
      "\<And>q d fp. ok d \<Longrightarrow> trusts (meanwhile q d) fp \<Longrightarrow> trusts d fp"
    and faithful: "\<And>q b q'. utf8_request q \<Longrightarrow> w_enc_request w q = Inr b \<Longrightarrow> w_dec_request w (lk_up (lk q) b) = Inr q'
      \<Longrightarrow> q' = q"
    and decoded: "\<And>data ps x. cl_peers cl data = Inr ps \<Longrightarrow> x \<in> set ps \<Longrightarrow> utf8_peer x"
    and "ok d" "trusts d' fp" "\<not> trusts d fp"
  shows "command = ''approve'' \<and> (\<exists>x resp peers. confirmed cl (consent_text ''approve'' x) s s'
    \<and> fst (remote w lk meanwhile handle (plain_request ''peers'') d) = Inr resp
    \<and> decodePeers (cl_peers cl) (rs_Data resp) = Inr peers \<and> x \<in> set peers
    \<and> granted (meanwhile (action_request ''approve'' x) (snd (remote w lk meanwhile handle (plain_request ''peers'') d)))
        (action_request ''approve'' x) d' fp)"
proof -
  let ?call = "remote w lk meanwhile handle"
  have call: "ok (snd (?call q d))" "utf8_request q \<Longrightarrow> trusts (snd (?call q d)) fp \<Longrightarrow> \<not> trusts d fp
      \<Longrightarrow> rq_Command q = ''approve'' \<and> granted (meanwhile q d) q (snd (?call q d)) fp" if "ok d" for q d
  proof -
    have m: "ok (meanwhile q d)" by (rule meanwhile(1) [OF that])
    then show "ok (snd (?call q d))" using remote_effect [of w lk meanwhile handle q d] handle_ok by metis
    show "rq_Command q = ''approve'' \<and> granted (meanwhile q d) q (snd (?call q d)) fp"
      if t: "utf8_request q" "trusts (snd (?call q d)) fp" "\<not> trusts d fp"
    proof -
      have "\<not> trusts (meanwhile q d) fp" using meanwhile(2) [OF \<open>ok d\<close>] t(3) by blast
      then show ?thesis by (rule remote_trust [OF m t(2)]) (rule faithful [OF t(1)])
    qed
  qed
  let ?d1 = "snd (?call (plain_request ''peers'') d)"
  have report: "\<not> trusts (snd (?call (plain_request c) d)) fp" if "c \<in> set reports" for c
    using call(2) [OF \<open>ok d\<close>, of "plain_request c"] that utf8_requests(1) [of c] \<open>\<not> trusts d fp\<close>
    by (auto simp: reports_def)
  have d1: "ok ?d1" "\<not> trusts ?d1 fp"
    using call(1) [OF \<open>ok d\<close>] report [of "''peers''"] by (auto simp: reports_def)
  show ?thesis
    using assms(1)
  proof (cases rule: runControl_cases)
    case (sent resp peers x)
    have "utf8_peer x" by (rule decodePeers_utf8 [OF sent(3,4) decoded])
    note g = call(2) [OF d1(1) utf8_requests(2) [OF sent(1) this], folded sent(6), OF \<open>trusts d' fp\<close> d1(2)]
    then have c: "command = ''approve''" by simp
    from g sent(7) have "granted (meanwhile (action_request ''approve'' x) ?d1) (action_request ''approve'' x) d' fp"
      "confirmed cl (consent_text ''approve'' x) s s'" unfolding c by simp_all
    with c sent(2-4) show ?thesis by blast
  qed (use report d1(2) assms in auto)
qed

end

end
