(* ===== verification/Remote_Control.thy ===== *)
theory Remote_Control
  imports Control_Socket
begin

text \<open>
  The daemon as the service behind the control socket: what each command does to the trust store,
  as a sequence of the store's own operations, and what that gives for the whole path from the
  command line over the socket to the store.
\<close>

section \<open>What a command does to the store\<close>

lemma pair_store:
  "snd (snd (pair own cfgName tab ifaces nowFind query certOK dial nowVerify rnd exchange now now' token d s)) = s
   \<or> (\<exists>p. snd (snd (pair own cfgName tab ifaces nowFind query certOK dial nowVerify rnd exchange now now' token d s))
        = snd (PutPending now now' token p s))"
proof -
  let ?r = "pair own cfgName tab ifaces nowFind query certOK dial nowVerify rnd exchange now now' token d s"
  have "snd (snd ?r) = s \<or> (\<exists>p e. PutPending now now' token p s = (e, snd (snd ?r)))"
    by (simp only: pair_def Let_def split: prod.split option.split sum.split if_split) auto
  then show ?thesis by (metis snd_conv)
qed

fun not_approval :: "store_event \<Rightarrow> bool" where
  "not_approval (EvApprove _ _ _ _ _ _ _) \<longleftrightarrow> False"
| "not_approval _ \<longleftrightarrow> True"

text \<open>The store operation of \<open>approve\<close>: the fields of the request, and two readings of the clock.\<close>

definition approval_event :: "control_env \<Rightarrow> control_request \<Rightarrow> store_event" where
  "approval_event cx q = EvApprove (cx_store cx) (cx_clock cx 0) (cx_clock cx 1) (rq_Argument q) (rq_PairToken q)
     (rq_Fingerprint q) (rq_Code q)"

lemma look_store: "snd (ListPeers now s) = store_apply (EvLook now) s" "prune_pending now s = store_apply (EvLook now) s"
  by (simp_all add: ListPeers_store)

lemma peerStatuses_pt_store: "pt_store (snd (peerStatuses t1 t2 pt)) = store_apply (EvLook t2) (pt_store pt)"
  by (simp add: peerStatuses_def Let_def split: prod.splits)

lemma status_of_store: "pt_store (snd (status_of ab clip t0 t1 t2 t3 pt)) = store_apply (EvLook t3) (pt_store pt)"
proof -
  obtain seen d where p: "Peers t1 (pt_disc pt) = (seen, d)" by fastforce
  obtain ps pt1 where "peerStatuses t2 t3 (pt\<lparr>pt_disc := d\<rparr>) = (ps, pt1)" by fastforce
  with p peerStatuses_pt_store [of t2 t3 "pt\<lparr>pt_disc := d\<rparr>"] show ?thesis
    by (simp add: status_of_def Let_def split: prod.splits)
qed

lemma doctor_store: "pt_store (snd (doctor mc clip t1 t2 pt)) = store_apply (EvLook t1) (pt_store pt)"
  by (simp only: doctor_def Let_def case_prod_beta snd_conv) simp

lemma handleControl_store:
  obtains (approve) "rq_Command q = ''approve''"
      "pt_store (snd (handleControl cx q pt)) = store_apply (approval_event cx q) (pt_store pt)"
  | (other) es where "pt_store (snd (handleControl cx q pt)) = fold store_apply es (pt_store pt)"
      "list_all not_approval es"
proof -
  let ?pt' = "snd (handleControl cx q pt)" and ?now = "cx_clock cx"
  note events = that(2)
  have one: thesis if "pt_store ?pt' = store_apply e (pt_store pt)" "not_approval e" for e
    using that events [of "[e]"] by simp
  consider "rq_Command q = ''status''" | "rq_Command q = ''peers''" | "rq_Command q = ''pair''"
    | "rq_Command q = ''approve''" | "rq_Command q = ''reject''" | "rq_Command q = ''doctor''" | "rq_Command q = ''unpair''"
    | "rq_Command q \<notin> {''status'', ''peers'', ''pair'', ''approve'', ''reject'', ''unpair'', ''doctor''}"
    by blast
  then show thesis
  proof cases
    case 1
    then have "?pt' = snd (status_of (cx_about cx) (cx_clip cx) (?now 0) (?now 1) (?now 2) (?now 3) pt)"
      by (simp add: handleControl_def case_prod_beta Let_def)
    then show ?thesis by (intro one [of "EvLook (?now 3)"]) (simp_all only: status_of_store not_approval.simps)
  next
    case 2
    then have "?pt' = snd (peerStatuses (?now 0) (?now 1) pt)" by (simp add: handleControl_def case_prod_beta Let_def)
    then show ?thesis by (intro one [of "EvLook (?now 1)"]) (simp_all only: peerStatuses_pt_store not_approval.simps)
  next
    case 3
    let ?i = "cx_pair cx"
    let ?r = "pair (ab_own (cx_about cx)) (ab_name (cx_about cx)) (cx_fold cx) (pi_ifaces ?i) (pi_nowFind ?i)
      (rq_Argument q) (pi_certOK ?i) (pi_dial ?i) (pi_nowVerify ?i) (pi_nonce ?i) (pi_exchange ?i) (?now 0) (?now 1)
      (pi_token ?i) (pt_disc pt) (pt_store pt)"
    obtain res d s where r: "?r = (res, d, s)" by (cases ?r)
    with 3 have "pt_store ?pt' = s" by (cases res) (simp_all add: handleControl_def Let_def)
    with pair_store [where s = "pt_store pt"] r consider "pt_store ?pt' = pt_store pt"
      | p where "pt_store ?pt' = store_apply (EvPut (?now 0) (?now 1) (pi_token ?i) p) (pt_store pt)"
      by (metis snd_conv store_apply.simps(1))
    then show ?thesis
    proof cases
      case 1
      then show ?thesis using events [of "[]"] by simp
    next
      case (2 p)
      then show ?thesis by (rule one) simp
    qed
  next
    case 4
    then show ?thesis by (intro that(1)) (simp_all add: handleControl_def case_prod_beta Let_def approval_event_def)
  next
    case 5
    then show ?thesis
      by (intro one [of "EvReject (cx_store cx) (?now 0) (?now 1) (rq_Argument q)"])
        (simp_all add: handleControl_def case_prod_beta Let_def)
  next
    case 6
    then have "?pt' = snd (doctor (cx_machine cx) (cx_clip cx) (?now 0) (?now 1) pt)"
      by (simp add: handleControl_def case_prod_beta Let_def)
    then show ?thesis by (intro one [of "EvLook (?now 0)"]) (simp_all only: doctor_store not_approval.simps)
  next
    case 7
    let ?s = "prune_pending (?now 0) (pt_store pt)"
    have "pt_store ?pt' = ?s \<or> (\<exists>pid. pt_store ?pt' = store_apply (EvUnpair (cx_store cx) pid) ?s)"
      using 7 by (auto simp: handleControl_unpair Resolve_def Let_def split: sum.splits prod.splits) (metis snd_conv)
    then show ?thesis
      using events [of "[EvLook (?now 0)]"] events [of "[EvLook (?now 0), EvUnpair (cx_store cx) pid]" for pid]
      by (auto simp: ListPeers_store)
  next
    case 8
    then have "?pt' = pt" by (simp add: handleControl_def)
    then show ?thesis using events [of "[]"] by simp
  qed
qed

lemma fold_store_inv: "store_inv s \<Longrightarrow> store_inv (fold store_apply es s)"
  by (induction es arbitrary: s) (simp_all add: store_apply_inv)

text \<open>
  What an approval found that made a key trusted: the request's argument resolved to a pending
  request young enough, and its token, fingerprint and code were that request's.
\<close>

definition grants :: "control_env \<Rightarrow> parts \<Rightarrow> control_request \<Rightarrow> parts \<Rightarrow> string \<Rightarrow> bool" where
  "grants cx pt q pt' fp \<longleftrightarrow>
     (\<exists>pid r p. mget (st_pending (pt_store pt)) pid = Some r
        \<and> cx_clock cx 0 < p_UpdatedAt r + st_pendingTTL (pt_store pt)
        \<and> resolve_locked (ev_fold (cx_store cx)) (rq_Argument q) [Pending] (prune_pending (cx_clock cx 0) (pt_store pt))
            = Inr (pid, r)
        \<and> rq_PairToken q \<noteq> [] \<and> rq_PairToken q = p_ApprovalToken r
        \<and> rq_Fingerprint q = p_Fingerprint r \<and> rq_Code q = p_ComparisonCode r
        \<and> trusted_at (pt_store pt') pid p \<and> p_Fingerprint p = fp \<and> p_Fingerprint r = fp)"

definition trusts_key :: "store \<Rightarrow> string \<Rightarrow> bool" where
  "trusts_key s fp \<longleftrightarrow> TrustedFingerprint fp s \<noteq> None"

lemma trusts_key_iff:
  assumes "store_inv s"
  shows "trusts_key s fp \<longleftrightarrow> (\<exists>pid p. trusted_at s pid p \<and> p_Fingerprint p = fp)"
proof
  assume "trusts_key s fp"
  then show "\<exists>pid p. trusted_at s pid p \<and> p_Fingerprint p = fp"
    using TrustedFingerprint_entry [OF assms] by (auto simp: trusts_key_def)
next
  assume "\<exists>pid p. trusted_at s pid p \<and> p_Fingerprint p = fp"
  then show "trusts_key s fp"
    by (auto simp: trusts_key_def TrustedFingerprint_def trusted_at_def find_None_iff dest!: mget_Some_mem) 
qed

lemma other_trusts_key:
  assumes "store_inv s" "list_all not_approval es" "trusts_key (fold store_apply es s) fp"
  shows "trusts_key s fp"
  using assms
proof (induction es arbitrary: s)
  case (Cons e es)
  note inv = store_apply_inv [OF Cons.prems(1), of e]
  from Cons.IH [OF inv] Cons.prems(2,3) have "trusts_key (store_apply e s) fp" by simp
  then obtain pid p where "trusted_at (store_apply e s) pid p" "p_Fingerprint p = fp"
    using trusts_key_iff [OF inv] by blast
  with apply_trust_origin [OF Cons.prems(1), of e pid p] Cons.prems(2) show ?case
    unfolding trusts_key_iff [OF Cons.prems(1)] by (cases e) (auto simp: approves_def)
qed simp

lemma approval_grants:
  assumes inv: "store_inv (pt_store pt)" and new: "trusts_key (pt_store pt') fp" "\<not> trusts_key (pt_store pt) fp"
    and st: "pt_store pt' = store_apply (approval_event cx q) (pt_store pt)"
  shows "grants cx pt q pt' fp"
proof -
  note inv' = store_apply_inv [OF inv, of "approval_event cx q"]
  from new(1) obtain pid p where p: "trusted_at (pt_store pt') pid p" "p_Fingerprint p = fp"
    unfolding st using trusts_key_iff [OF inv'] by blast
  from apply_trust_origin [OF inv p(1) [unfolded st]] new(2) p(2)
  obtain r where "approves (approval_event cx q) (pt_store pt) pid r" "p_Fingerprint r = fp"
    unfolding trusts_key_iff [OF inv] by blast
  with p show ?thesis
    unfolding grants_def approves_def approval_event_def
    by (intro exI [of _ pid] exI [of _ r] exI [of _ p]) auto
qed

interpretation daemon_control: control_service "\<lambda>q. handleControl (cx q) q" "\<lambda>pt :: parts. store_inv (pt_store pt)"
    "\<lambda>pt :: parts. trusts_key (pt_store pt)" "\<lambda>pt q. grants (cx q) pt q" for cx :: "control_request \<Rightarrow> control_env"
proof unfold_locales
  fix pt :: parts and q fp
  let ?pt' = "snd (handleControl (cx q) q pt)"
  assume inv: "store_inv (pt_store pt)"
  show "store_inv (pt_store ?pt')"
    by (rule handleControl_store [of q "cx q" pt]) (use fold_store_inv [OF inv] store_apply_inv [OF inv] in simp_all)
  assume new: "trusts_key (pt_store ?pt') fp" "\<not> trusts_key (pt_store pt) fp"
  show "rq_Command q = ''approve'' \<and> grants (cx q) pt q ?pt' fp"
  proof (rule handleControl_store [of q "cx q" pt])
    assume "rq_Command q = ''approve''" "pt_store ?pt' = store_apply (approval_event (cx q) q) (pt_store pt)"
    with approval_grants [OF inv new] show ?thesis by simp
  next
    fix es
    assume "pt_store ?pt' = fold store_apply es (pt_store pt)" "list_all not_approval es"
    with other_trusts_key [OF inv] new show ?thesis by simp
  qed
qed

section \<open>From the command line to the store\<close>

text \<open>
  C2. A key becomes trusted only after the user saw it. Whatever command line is given, whatever
  the daemon does in between (short of approving the key for another client) and whatever the
  connection loses, if a key is trusted after \<open>runControl\<close> that was not trusted before, the
  command was \<open>approve\<close>, and there is one device of the daemon's list that was shown: its code and
  its fingerprint, which is the key, were printed with the question whether they match on both
  devices, the user's last line said yes, and when the approval reached the daemon, its ID named a
  pending request with exactly that code, that fingerprint and the token that was listed with
  them; the device of that request is the one that is trusted afterwards.
\<close>

theorem trusted_keys_were_confirmed:
  assumes "runControl cl (remote w lk meanwhile (\<lambda>q. handleControl (cx q) q)) command rest s pt = (e, s', pt')"
    and "store_inv (pt_store pt)"
    and "\<And>q pt. store_inv (pt_store pt) \<Longrightarrow> store_inv (pt_store (meanwhile q pt))"
    and "\<And>q pt fp. store_inv (pt_store pt) \<Longrightarrow> trusts_key (pt_store (meanwhile q pt)) fp \<Longrightarrow> trusts_key (pt_store pt) fp"
    and "\<And>q b q'. utf8_request q \<Longrightarrow> w_enc_request w q = Inr b \<Longrightarrow> w_dec_request w (lk_up (lk q) b) = Inr q' \<Longrightarrow> q' = q"
    and "\<And>data ps x. cl_peers cl data = Inr ps \<Longrightarrow> x \<in> set ps \<Longrightarrow> utf8_peer x"
    and "trusts_key (pt_store pt') fp" "\<not> trusts_key (pt_store pt) fp"
  shows "command = ''approve''
    \<and> (\<exists>x resp peers pid r p. confirmed cl (consent_text ''approve'' x) s s' \<and> p_Fingerprint (ps_Peer x) = fp
        \<and> fst (remote w lk meanwhile (\<lambda>q. handleControl (cx q) q) (plain_request ''peers'') pt) = Inr resp
        \<and> decodePeers (cl_peers cl) (rs_Data resp) = Inr peers \<and> x \<in> set peers
        \<and> (let q = action_request ''approve'' x;
               asked = snd (remote w lk meanwhile (\<lambda>q. handleControl (cx q) q) (plain_request ''peers'') pt);
               now = cx_clock (cx q) 0; store = pt_store (meanwhile q asked)
           in mget (st_pending store) pid = Some r \<and> now < p_UpdatedAt r + st_pendingTTL store
            \<and> resolve_locked (ev_fold (cx_store (cx q))) (ps_ID x) [Pending] (prune_pending now store) = Inr (pid, r))
        \<and> p_ComparisonCode r = p_ComparisonCode (ps_Peer x) \<and> p_Fingerprint r = fp
        \<and> p_ApprovalToken r = p_ApprovalToken (ps_Peer x) \<and> p_ApprovalToken r \<noteq> []
        \<and> trusted_at (pt_store pt') pid p \<and> p_Fingerprint p = fp)"
proof -
  have fields: "rq_Argument (action_request ''approve'' x) = ps_ID x"
    "rq_PairToken (action_request ''approve'' x) = p_ApprovalToken (ps_Peer x)"
    "rq_Code (action_request ''approve'' x) = p_ComparisonCode (ps_Peer x)" for x
    by (simp_all add: action_request_def)
  let ?q = "\<lambda>x. action_request ''approve'' x"
  let ?asked = "remote w lk meanwhile (\<lambda>q. handleControl (cx q) q) (plain_request ''peers'') pt"
  let ?pt = "\<lambda>x. meanwhile (?q x) (snd ?asked)"
  have "command = ''approve'' \<and> (\<exists>x resp peers. confirmed cl (consent_text ''approve'' x) s s'
      \<and> fst ?asked = Inr resp \<and> decodePeers (cl_peers cl) (rs_Data resp) = Inr peers \<and> x \<in> set peers
      \<and> grants (cx (?q x)) (?pt x) (?q x) pt' fp)"
    by (rule daemon_control.trust_was_shown [OF assms(1)]) (use assms in auto)
  then obtain x resp peers where seen: "command = ''approve''" "confirmed cl (consent_text ''approve'' x) s s'"
      "fst ?asked = Inr resp" "decodePeers (cl_peers cl) (rs_Data resp) = Inr peers" "x \<in> set peers"
    and "grants (cx (?q x)) (?pt x) (?q x) pt' fp" by blast
  from this(6) obtain pid r p where "mget (st_pending (pt_store (?pt x))) pid = Some r"
      "cx_clock (cx (?q x)) 0 < p_UpdatedAt r + st_pendingTTL (pt_store (?pt x))"
      "resolve_locked (ev_fold (cx_store (cx (?q x)))) (ps_ID x) [Pending]
         (prune_pending (cx_clock (cx (?q x)) 0) (pt_store (?pt x))) = Inr (pid, r)"
      "p_ApprovalToken (ps_Peer x) \<noteq> []" "p_ApprovalToken (ps_Peer x) = p_ApprovalToken r"
      "p_Fingerprint (ps_Peer x) = p_Fingerprint r" "p_ComparisonCode (ps_Peer x) = p_ComparisonCode r"
      "trusted_at (pt_store pt') pid p" "p_Fingerprint p = fp" "p_Fingerprint r = fp"
    unfolding grants_def fields plain_request_simps by blast
  with seen show ?thesis
    by (intro conjI exI [of _ x] exI [of _ resp] exI [of _ peers] exI [of _ pid] exI [of _ r] exI [of _ p])
      (simp_all add: Let_def)
qed

section \<open>A sample\<close>

text \<open>A daemon with one pending request, and a wire that carries the two requests of \<open>approve a\<close>.\<close>

definition sample_waiting :: parts where
  "sample_waiting = sample_parts\<lparr>pt_store := sample_pending_store\<rparr>"

definition sample_service_env :: control_env where
  "sample_service_env = sample_control\<lparr>cx_clock := (\<lambda>k. 3 + int k)\<rparr>"

definition sample_wire :: wire where
  "sample_wire = \<lparr>w_enc_request = (\<lambda>q. if q = plain_request ''peers'' then Inr ''p''
       else if q = action_request ''approve'' sample_shown then Inr ''a'' else Inl ''unsupported''),
     w_dec_request = (\<lambda>b. if b = ''p'' then Inr (plain_request ''peers'')
       else if b = ''a'' then Inr (action_request ''approve'' sample_shown) else Inl ''syntax''),
     w_enc_response = (\<lambda>_. Some ''r''), w_dec_response = (\<lambda>_. Inr (ok_data (Peers_Data [sample_shown])))\<rparr>"

definition sample_link :: "control_request \<Rightarrow> link" where
  "sample_link q = \<lparr>lk_dial = None, lk_up = (\<lambda>b. b), lk_down = (\<lambda>b. b)\<rparr>"

lemma sample_requests:
  "plain_request ''peers'' \<noteq> action_request ''approve'' sample_shown"
  "rq_Command (action_request ''approve'' sample_shown) = ''approve''"
  "rq_Argument (action_request ''approve'' sample_shown) = ''a''"
  "rq_PairToken (action_request ''approve'' sample_shown) = ''72''"
  "p_Fingerprint (ps_Peer sample_shown) = ''ff''"
  "rq_Code (action_request ''approve'' sample_shown) = ''code''"
  by (simp_all add: plain_request_def action_request_def sample_shown_def)

lemma sample_remote:
  assumes "q = plain_request ''peers'' \<or> q = action_request ''approve'' sample_shown"
  shows "remote sample_wire sample_link (\<lambda>q d. d) handle q d
     = (Inr (ok_data (Peers_Data [sample_shown])), snd (handle q d))"
  using assms sample_requests(1)
  by (auto simp: remote_def Call_def sample_link_def sample_wire_def serve_conn_def send_response_def ok_data_def
      split: prod.splits)

lemma sample_peers_step:
  "pt_store (snd (handleControl sample_service_env (plain_request ''peers'') sample_waiting)) = sample_pending_store"
proof -
  have "snd (handleControl sample_service_env (plain_request ''peers'') sample_waiting)
      = snd (peerStatuses 3 4 sample_waiting)"
    by (simp add: handleControl_def plain_request_def sample_service_env_def case_prod_beta Let_def)
  moreover have "prune_pending 4 sample_pending_store = sample_pending_store"
    by (simp add: sample_pending_store_def sample_eval sample_request_def defaultPendingTTL_def)
  ultimately show ?thesis by (simp add: peerStatuses_pt_store sample_waiting_def ListPeers_store)
qed

lemma sample_approve_step:
  assumes "pt_store pt = sample_pending_store"
  shows "pt_store (snd (handleControl sample_service_env (action_request ''approve'' sample_shown) pt)) = sample_trusted_store"
  using assms sample_approve_eval
  by (simp add: handleControl_def sample_requests sample_service_env_def sample_control_def Let_def)

theorem trusted_keys_were_confirmed_witness:
  "\<exists>x. p_Fingerprint (ps_Peer x) = ''ff'' \<and> confirmed sample_client (consent_text ''approve'' x) sample_io
     (fst (snd (runControl sample_client (remote sample_wire sample_link (\<lambda>q d. d) (handleControl sample_service_env))
        ''approve'' [''a''] sample_io sample_waiting)))"
proof -
  let ?call = "remote sample_wire sample_link (\<lambda>q d. d) (handleControl sample_service_env)"
  obtain e s' pt' where run: "runControl sample_client ?call ''approve'' [''a''] sample_io sample_waiting = (e, s', pt')"
    by (cases "runControl sample_client ?call ''approve'' [''a''] sample_io sample_waiting")
  have "snd (snd (runControl sample_client ?call ''approve'' [''a''] sample_io sample_waiting))
      = snd (?call (action_request ''approve'' sample_shown) (snd (?call (plain_request ''peers'') sample_waiting)))"
    by (rule run_approve [of _ _ "ok_data (Peers_Data [sample_shown])"]) (simp_all add: sample_remote ok_data_def)
  then have st: "pt_store pt' = sample_trusted_store"
    using sample_approve_step [OF sample_peers_step] by (simp add: run sample_remote)
  have inv: "store_inv (pt_store sample_waiting)" using sample_invs(2) by (simp add: sample_waiting_def)
  have "trusts_key (pt_store pt') ''ff''"
  proof -
    have "p_Fingerprint sample_trusted = ''ff''" by (simp add: sample_trusted_def)
    then show ?thesis using trusts_key_iff [OF sample_invs(3)] sample_trusted_at st by metis
  qed
  moreover have "\<not> trusts_key (pt_store sample_waiting) ''ff''"
    by (simp add: trusts_key_def TrustedFingerprint_def sample_waiting_def sample_pending_store_def empty_store_def)
  moreover have "q' = q" if "w_enc_request sample_wire q = Inr b"
    "w_dec_request sample_wire (lk_up (sample_link q) b) = Inr q'" for q b q'
    using that by (auto simp: sample_wire_def sample_link_def split: if_splits)
  moreover have "utf8_peer x" if "cl_peers sample_client data = Inr ps" "x \<in> set ps" for data ps x
    using that by (auto simp: sample_client_def utf8_peer_def sample_shown_def intro: utf8_ascii split: if_splits)
  ultimately show ?thesis
    using trusted_keys_were_confirmed [OF run inv, of "''ff''"] by (auto simp: run)
qed

end
