(* ===== verification/Pairing_Restart.thy ===== *)
theory Pairing_Restart
  imports Pairing_Trust
begin

text \<open>
  \<open>Load\<close> (\<open>internal/pairing/store.go\<close>) and what a restart of the daemon recovers. The JSON codec is
  \<open>encoding/json\<close>'s: its encoder \<open>enc\<close> is the \<open>ev_encode\<close> of every event and its decoder \<open>dec\<close>
  an argument of \<open>Load\<close>; the one law used is that decoding an encoded map gives that map back, for
  maps whose strings are valid UTF-8 (\<open>encoding/json\<close> writes the replacement character for others).
\<close>

section \<open>What Load builds\<close>

definition loaded_version :: "peer \<Rightarrow> peer" where
  "loaded_version p = p\<lparr>p_ApprovalToken := [], p_ComparisonCode := []\<rparr>"

definition loaded_peers :: "peer_map \<Rightarrow> peer_map" where
  "loaded_peers loaded =
     foldl (\<lambda>m (pid, p). mput pid (loaded_version p) m) []
       (filter (\<lambda>(pid, p). p_State p \<noteq> Pending) loaded)"

lemma foldl_mput:
  "distinct (mkeys xs) \<Longrightarrow> wf_map (foldl (\<lambda>m (k, v). mput k (f v) m) [] xs)
     \<and> mget (foldl (\<lambda>m (k, v). mput k (f v) m) [] xs) = (\<lambda>k. map_option f (mget xs k))"
proof (induction xs rule: rev_induct)
  case (snoc x xs)
  then show ?case
    by (cases x) (auto simp: gomap_simps fun_eq_iff map_add_def map_of_eq_None_iff [symmetric]
        split: option.splits)
qed (simp add: fun_eq_iff)

lemma loaded_peers_spec:
  assumes "wf_map loaded"
  shows "wf_map (loaded_peers loaded)"
    "mget (loaded_peers loaded) pid = (case mget loaded pid of None \<Rightarrow> None
       | Some p \<Rightarrow> if p_State p = Pending then None else Some (loaded_version p))"
proof -
  let ?kept = "filter (\<lambda>(pid, p). p_State p \<noteq> Pending) loaded"
  have "distinct (mkeys ?kept)" using assms by (simp add: wf_map_def distinct_map_filter)
  note spec = foldl_mput [OF this, of loaded_version]
  from spec show "wf_map (loaded_peers loaded)" by (simp add: loaded_peers_def)
  from spec show "mget (loaded_peers loaded) pid = (case mget loaded pid of None \<Rightarrow> None
       | Some p \<Rightarrow> if p_State p = Pending then None else Some (loaded_version p))"
    by (simp add: loaded_peers_def mget_filter [OF assms] split: option.split)
qed

lemma Load_file:
  assumes "dk_target d = Some b" "dec b = Some loaded"
  shows "Load ev dec None d =
     (let s = \<lparr>st_disk = d, st_peers = loaded_peers loaded, st_pending = [],
               st_pendingTTL = defaultPendingTTL, st_maxPending = defaultMaxPending\<rparr>
      in if list_ex (\<lambda>(pid, p). p_State p = Pending) loaded
         then (case save_locked ev s of (Some e, _) \<Rightarrow> Inl e | (None, s) \<Rightarrow> Inr s)
         else Inr s)"
  using assms by (simp add: Load_def loaded_peers_def loaded_version_def Let_def)

text \<open>
  Loading an existing file. If it succeeds, no request is pending, every stored entry of the
  file is there with its ID, name, fingerprint and state, stripped of any code and token, and
  entries that an older release wrote in state pending are dropped (the file is then
  rewritten as the encoding of what was kept).
\<close>

theorem load_keeps_trust_drops_pending:
  assumes "dk_target d = Some b" "dec b = Some loaded" "wf_map loaded" "Load ev dec read d = Inr s"
  shows "st_pending s = [] \<and> wf_map (st_peers s)
    \<and> (\<forall>pid. mget (st_peers s) pid = (case mget loaded pid of None \<Rightarrow> None
         | Some p \<Rightarrow> if p_State p = Pending then None
                    else Some (p\<lparr>p_ApprovalToken := [], p_ComparisonCode := []\<rparr>)))
    \<and> (if list_ex (\<lambda>(pid, p). p_State p = Pending) loaded
       then \<exists>c. ev_encode ev (st_peers s) = Some c \<and> dk_target (st_disk s) = Some (c @ [CHR 0x0A])
       else st_disk s = d)"
proof -
  let ?s = "\<lparr>st_disk = d, st_peers = loaded_peers loaded, st_pending = [],
             st_pendingTTL = defaultPendingTTL, st_maxPending = defaultMaxPending\<rparr>"
  note spec = loaded_peers_spec [OF assms(3)]
  have "read = None" using assms(4) by (cases read) (simp_all add: Load_def)
  then have l: "Load ev dec None d = Inr s" using assms(4) by simp
  have "st_pending s = [] \<and> st_peers s = loaded_peers loaded
    \<and> (if list_ex (\<lambda>(pid, p). p_State p = Pending) loaded
       then \<exists>c. ev_encode ev (st_peers s) = Some c \<and> dk_target (st_disk s) = Some (c @ [CHR 0x0A])
       else st_disk s = d)"
    by (rule save_locked_cases [of ev ?s])
      (use l Load_file [where d = d and dec = dec and b = b and ev = ev, OF assms(1,2)]
        in \<open>auto simp: Let_def split: if_splits\<close>)
  with spec show ?thesis unfolding loaded_version_def by (auto split: if_splits)
qed

theorem load_keeps_trust_drops_pending_witness:
  "\<exists>s. Load sample_env (\<lambda>_. Some [(''a'', sample_trusted\<lparr>p_ComparisonCode := ''c''\<rparr>)]) None
         \<lparr>dk_target = Some [], dk_temps = []\<rparr> = Inr s
     \<and> st_pending s = [] \<and> mget (st_peers s) ''a'' = Some sample_trusted"
proof -
  let ?d = "\<lparr>dk_target = Some [], dk_temps = []\<rparr>" and ?m = "[(''a'', sample_trusted\<lparr>p_ComparisonCode := ''c''\<rparr>)]"
  obtain s where "Load sample_env (\<lambda>_. Some ?m) None ?d = Inr s"
    by (simp add: Load_file [where d = ?d and b = "[]"] sample_trusted_def Let_def)
  with load_keeps_trust_drops_pending [where d = ?d and b = "[]" and loaded = ?m and s = s
      and ev = sample_env and dec = "\<lambda>_. Some ?m"]
  show ?thesis by (auto simp: sample_trusted_def wf_map_def)
qed

section \<open>The file follows the trust\<close>

definition utf8_peers :: "peer_map \<Rightarrow> bool" where
  "utf8_peers m \<longleftrightarrow> (\<forall>pid p. mget m pid = Some p \<longrightarrow> list_all utf8_valid
     [pid, p_ID p, p_Name p, p_Fingerprint p, p_State p, p_ComparisonCode p, p_ApprovalToken p])"

definition file_in_sync :: "(peer_map \<Rightarrow> string option) \<Rightarrow> store \<Rightarrow> bool" where
  "file_in_sync enc s \<longleftrightarrow> (\<exists>m b. wf_map m \<and> same_map m (st_peers s) \<and> enc m = Some b
     \<and> dk_target (st_disk s) = Some (b @ [CHR 0x0A]))"

fun uses_codec :: "(peer_map \<Rightarrow> string option) \<Rightarrow> store_event \<Rightarrow> bool" where
  "uses_codec enc (EvPut _ _ _ _) = True"
| "uses_codec enc (EvApprove ev _ _ _ _ _ _) = (ev_encode ev = enc)"
| "uses_codec enc (EvReject ev _ _ _) = (ev_encode ev = enc)"
| "uses_codec enc (EvUnpair ev _) = (ev_encode ev = enc)"
| "uses_codec enc (EvRename ev _ _ _) = (ev_encode ev = enc)"
| "uses_codec enc (EvLook _) = True"

lemma sync_rolled_back:
  "rolled_back s s' \<Longrightarrow> file_in_sync enc s \<Longrightarrow> file_in_sync enc s'"
  by (auto simp: file_in_sync_def rolled_back_def same_map_def)

lemma sync_prune [simp]: "file_in_sync enc (prune_pending now s) = file_in_sync enc s"
  by (simp add: file_in_sync_def)

lemma sync_saved:
  "wf_map (st_peers s) \<Longrightarrow> enc (st_peers s) = Some b \<Longrightarrow>
     dk_target (st_disk s) = Some (b @ [CHR 0x0A]) \<Longrightarrow> file_in_sync enc s"
  by (auto simp: file_in_sync_def intro!: exI [of _ "st_peers s"])

lemma apply_sync:
  assumes inv: "store_inv s" and sync: "file_in_sync enc s" and codec: "uses_codec enc e"
  shows "file_in_sync enc (store_apply e s)"
proof -
  note wf = store_invD(1) [OF inv]
  show ?thesis
  proof (cases e)
    case (EvPut now now' rnd p)
    show ?thesis
      by (rule PutPending_cases [of now now' rnd p s])
        (use EvPut sync in \<open>auto simp: file_in_sync_def\<close>)
  next
    case (EvApprove ev now now' query token fp code)
    show ?thesis
      by (rule Approve_cases [OF inv, of ev now now' query token fp code])
        (use EvApprove codec wf sync in \<open>auto intro: sync_saved sync_rolled_back\<close>)
  next
    case (EvReject ev now now' query)
    show ?thesis
      by (rule Reject_cases [OF inv, of ev now now' query])
        (use EvReject codec wf sync in \<open>auto intro: sync_saved sync_rolled_back\<close>)
  next
    case (EvUnpair ev query)
    show ?thesis
      by (rule Unpair_cases [OF inv, of ev query])
        (use EvUnpair codec wf sync in \<open>auto intro: sync_saved sync_rolled_back\<close>)
  next
    case (EvRename ev now pid name)
    show ?thesis
      by (rule UpdateName_cases [OF inv, of ev now pid name])
        (use EvRename codec wf sync in \<open>auto intro: sync_saved sync_rolled_back\<close>)
  next
    case (EvLook now)
    with sync show ?thesis by (simp add: ListPeers_def Let_def)
  qed
qed

lemma run_sync:
  "store_run es s0 s \<Longrightarrow> store_inv s0 \<Longrightarrow> file_in_sync enc s0 \<Longrightarrow> list_all (uses_codec enc) es
     \<Longrightarrow> file_in_sync enc s"
proof (induction rule: store_run.induct)
  case (event es s0 s e)
  then show ?case using store_run_inv [of es s0 s] apply_sync by simp
next
  case (rewalk es s0 s ps qs)
  then have "store_inv s" "file_in_sync enc s" using store_run_inv [of es s0 s] by simp_all
  with rewalk.hyps rewalk_rolled_back [of s ps qs] show ?case by (auto intro: sync_rolled_back)
qed

text \<open>
  C10. A restart recovers exactly the trust in memory. Take any history of operations, failed
  saves included, from a store whose file matches it, that ends with entries whose strings are
  valid UTF-8; kill the daemon at any point between operations and load the file it left: if the
  file can be read, loading succeeds, every peer entry reads as it did in memory, and nothing is
  pending; and if it cannot be read, loading fails and leaves the file alone.
\<close>

theorem restart_recovers_trust:
  assumes codec: "\<And>m b. wf_map m \<Longrightarrow> utf8_peers m \<Longrightarrow> enc m = Some b \<Longrightarrow>
      \<exists>m'. dec (b @ [CHR 0x0A]) = Some m' \<and> wf_map m' \<and> same_map m' m"
    and run: "store_run es s0 s" "store_inv s0" "file_in_sync enc s0" "list_all (uses_codec enc) es"
    and valid: "utf8_peers (st_peers s)"
  shows "case Load ev dec read (st_disk s) of
      Inr s' \<Rightarrow> read = None \<and> mget (st_peers s') = mget (st_peers s) \<and> st_pending s' = [] \<and> st_disk s' = st_disk s
    | Inl e \<Rightarrow> (\<exists>text. read = Some text \<and> e = ReadFailed text)"
proof -
  note inv = store_run_inv [OF run(1,2)]
  from run_sync [OF run] obtain m b where m: "wf_map m" "same_map m (st_peers s)" "enc m = Some b"
      "dk_target (st_disk s) = Some (b @ [CHR 0x0A])" by (auto simp: file_in_sync_def)
  have "utf8_peers m" using valid m(2) by (simp add: utf8_peers_def same_map_def)
  from codec [OF m(1) this m(3)] obtain m' where m': "dec (b @ [CHR 0x0A]) = Some m'" "wf_map m'"
      "same_map m' m" by blast
  with m(2) have view: "mget m' = mget (st_peers s)" by (simp add: same_map_def)
  have ok: "p_State p \<noteq> Pending \<and> loaded_version p = p" if "mget m' pid = Some p" for pid p
    using store_invD(5) [OF inv, of pid p] that by (simp add: view loaded_version_def)
  have "\<not> list_ex (\<lambda>(pid, p). p_State p = Pending) m'"
    using ok mem_mget [OF m'(2)] by (fastforce simp: list_ex_iff)
  then have "Load ev dec None (st_disk s) = Inr \<lparr>st_disk = st_disk s, st_peers = loaded_peers m', st_pending = [],
      st_pendingTTL = defaultPendingTTL, st_maxPending = defaultMaxPending\<rparr>"
    by (simp add: Load_file [where d = "st_disk s" and dec = dec, OF m(4) m'(1)] Let_def)
  moreover have "mget (loaded_peers m') pid = mget (st_peers s) pid" for pid
    using ok [of pid] by (simp add: loaded_peers_spec(2) [OF m'(2)] view split: option.split)
  ultimately show ?thesis by (cases read) (auto simp: Load_def)
qed

definition sample_enc :: "peer_map \<Rightarrow> string option" where
  "sample_enc m = (if m = [] then Some ''empty'' else if m = [(''a'', sample_trusted)]
     then Some ''one'' else None)"

definition sample_dec :: "string \<Rightarrow> peer_map option" where
  "sample_dec b = (if b = ''empty'' @ [CHR 0x0A] then Some []
     else if b = ''one'' @ [CHR 0x0A] then Some [(''a'', sample_trusted)] else None)"

definition sample_saved_store :: store where
  "sample_saved_store = sample_pending_store\<lparr>st_disk :=
     \<lparr>dk_target = Some (''empty'' @ [CHR 0x0A]), dk_temps = []\<rparr>\<rparr>"

theorem restart_recovers_trust_witness:
  "\<exists>s'. Load sample_env sample_dec None
      (st_disk (snd (Approve (sample_env\<lparr>ev_encode := sample_enc\<rparr>) 3 4 ''a'' ''72'' ''ff'' ''code'' sample_saved_store)))
      = Inr s' \<and> mget (st_peers s') ''a'' = Some sample_trusted"
proof -
  let ?ev = "sample_env\<lparr>ev_encode := sample_enc\<rparr>"
  let ?s = "snd (Approve ?ev 3 4 ''a'' ''72'' ''ff'' ''code'' sample_saved_store)"
  let ?e = "EvApprove ?ev 3 4 ''a'' ''72'' ''ff'' ''code''"
  have run: "store_run [?e] sample_saved_store (snd (Approve ?ev 3 4 ''a'' ''72'' ''ff'' ''code'' sample_saved_store))"
    using store_run.event [OF store_run.start, of ?e sample_saved_store] by simp
  have after: "mget (st_peers (snd (Approve ?ev 3 4 ''a'' ''72'' ''ff'' ''code'' sample_saved_store))) ''a''
      = Some sample_trusted" by code_simp
  have inv: "store_inv sample_saved_store"
    using sample_invs(2) by (simp add: sample_saved_store_def store_inv_def)
  have sync: "file_in_sync sample_enc sample_saved_store"
    unfolding file_in_sync_def
    by (intro exI [of _ "[]"] exI [of _ "''empty''"])
      (simp add: sample_saved_store_def sample_pending_store_def empty_store_def sample_enc_def)
  have law: "\<exists>m'. sample_dec (b @ [CHR 0x0A]) = Some m' \<and> wf_map m' \<and> same_map m' m"
    if "wf_map m" "utf8_peers m" "sample_enc m = Some b" for m b
    using that by (auto simp: sample_enc_def sample_dec_def split: if_splits)
  have "st_peers ?s = [(''a'', sample_trusted)]" by code_simp
  then have valid: "utf8_peers (st_peers ?s)"
    by (auto simp: utf8_peers_def sample_trusted_def Trusted_def intro!: utf8_ascii split: if_splits)
  have "case Load sample_env sample_dec None (st_disk ?s) of
      Inr s' \<Rightarrow> (None :: string option) = None \<and> mget (st_peers s') = mget (st_peers ?s) \<and> st_pending s' = [] \<and> st_disk s' = st_disk ?s
    | Inl e \<Rightarrow> (\<exists>text. None = Some text \<and> e = ReadFailed text)"
    by (rule restart_recovers_trust [OF _ run inv sync _ valid]) (simp_all add: law)
  with after show ?thesis by (auto split: sum.splits)
qed

end
