(* ===== verification/Mailbox.thy ===== *)
theory Mailbox
  imports Prelude "HOL-Library.Sublist"
begin

text \<open>
  The coalescing mailboxes of \<open>internal/daemon/daemon.go\<close>: a channel with room for one value
  (\<open>peerConn.out\<close>, \<open>Daemon.clipWrites\<close>) that \<open>enqueuePeer\<close> and \<open>enqueueClipboard\<close> fill so that a
  newer value replaces an unread older one. An enqueue is a sequence of \<open>select\<close> statements,
  between which other goroutines run; a \<open>select\<close> with several ready cases picks any of them.

  The two functions differ in where they begin: \<open>enqueuePeer\<close> first looks at \<open>done\<close>. They also
  differ in who calls them: only \<open>localLoop\<close> puts into a connection's mailbox, while the read
  loop of every connection puts into \<open>clipWrites\<close>.
\<close>

section \<open>One enqueue\<close>

record 'a mailbox =
  mb_out :: "'a option"
  mb_done :: bool

text \<open>Where an enqueue of a value stands: before each of its \<open>select\<close> statements.\<close>

datatype 'a enqueue = Check 'a | Try 'a | Drain 'a | Place 'a

inductive enqueue_step :: "'a enqueue \<Rightarrow> 'a mailbox \<Rightarrow> 'a enqueue option \<Rightarrow> 'a mailbox \<Rightarrow> bool" where
  check_done: "mb_done b \<Longrightarrow> enqueue_step (Check m) b None b"
| check_open: "\<not> mb_done b \<Longrightarrow> enqueue_step (Check m) b (Some (Try m)) b"
| try_room: "mb_out b = None \<Longrightarrow> enqueue_step (Try m) b None (b\<lparr>mb_out := Some m\<rparr>)"
| try_full: "mb_out b \<noteq> None \<Longrightarrow> enqueue_step (Try m) b (Some (Drain m)) b"
| drain: "enqueue_step (Drain m) b (Some (Place m)) (b\<lparr>mb_out := None\<rparr>)"
| place: "mb_out b = None \<Longrightarrow> enqueue_step (Place m) b None (b\<lparr>mb_out := Some m\<rparr>)"
| place_done: "mb_done b \<Longrightarrow> enqueue_step (Place m) b None b"

inductive_cases enqueue_stepE:
  "enqueue_step (Check m) b e b'" "enqueue_step (Try m) b e b'"
  "enqueue_step (Drain m) b e b'" "enqueue_step (Place m) b e b'"

definition enqueuePeer_start :: "'a \<Rightarrow> 'a enqueue" where
  "enqueuePeer_start m = Check m"

definition enqueueClipboard_start :: "'a \<Rightarrow> 'a enqueue" where
  "enqueueClipboard_start m = Try m"

fun enqueue_value :: "'a enqueue \<Rightarrow> 'a" where
  "enqueue_value (Check m) = m"
| "enqueue_value (Try m) = m"
| "enqueue_value (Drain m) = m"
| "enqueue_value (Place m) = m"

fun enqueue_rank :: "'a enqueue \<Rightarrow> nat" where
  "enqueue_rank (Check m) = 3"
| "enqueue_rank (Try m) = 2"
| "enqueue_rank (Drain m) = 1"
| "enqueue_rank (Place m) = 0"

definition placing :: "'a enqueue option \<Rightarrow> bool" where
  "placing e \<longleftrightarrow> (\<exists>m. e = Some (Place m))"

text \<open>
  The same calls when nobody else touches the mailbox meanwhile (for \<open>enqueueClipboard\<close>: while
  the daemon's context is not done).
\<close>

definition enqueuePeer :: "'a \<Rightarrow> 'a mailbox \<Rightarrow> 'a mailbox" where
  "enqueuePeer m b =
     (if mb_done b then b
      else if mb_out b = None then b\<lparr>mb_out := Some m\<rparr>
      else let b = b\<lparr>mb_out := None\<rparr> in b\<lparr>mb_out := Some m\<rparr>)"

definition enqueueClipboard :: "'a \<Rightarrow> 'a mailbox \<Rightarrow> 'a mailbox" where
  "enqueueClipboard m b =
     (if mb_out b = None then b\<lparr>mb_out := Some m\<rparr>
      else let b = b\<lparr>mb_out := None\<rparr> in b\<lparr>mb_out := Some m\<rparr>)"

lemma enqueuePeer_eq: "enqueuePeer m b = (if mb_done b then b else b\<lparr>mb_out := Some m\<rparr>)"
  by (simp add: enqueuePeer_def Let_def)

lemma enqueueClipboard_eq: "enqueueClipboard m b = b\<lparr>mb_out := Some m\<rparr>"
  by (simp add: enqueueClipboard_def Let_def)

lemma enqueue_step_value:
  "enqueue_step e b (Some e') b' \<Longrightarrow> enqueue_value e' = enqueue_value e \<and> enqueue_rank e' < enqueue_rank e"
  by (erule enqueue_step.cases) auto

section \<open>Producers and the consumer\<close>

text \<open>
  Producers are numbered; \<open>mp_active\<close> is what each is doing. The lists are the history: values
  whose enqueue began, values put into the channel, values the consumer received.
\<close>

record 'a pipe =
  mp_box :: "'a mailbox"
  mp_active :: "nat \<Rightarrow> 'a enqueue option"
  mp_begun :: "'a list"
  mp_placed :: "'a list"
  mp_got :: "'a list"

definition new_pipe :: "'a pipe" where
  "new_pipe = \<lparr>mp_box = \<lparr>mb_out = None, mb_done = False\<rparr>, mp_active = (\<lambda>_. None),
     mp_begun = [], mp_placed = [], mp_got = []\<rparr>"

definition held :: "'a pipe \<Rightarrow> 'a list" where
  "held p = mp_got p @ (case mb_out (mp_box p) of Some m \<Rightarrow> [m] | None \<Rightarrow> [])"

inductive pipe_step :: "('a \<Rightarrow> 'a enqueue) \<Rightarrow> nat set \<Rightarrow> 'a pipe \<Rightarrow> 'a pipe \<Rightarrow> bool"
  for start :: "'a \<Rightarrow> 'a enqueue" and P :: "nat set" where
  begins: "i \<in> P \<Longrightarrow> mp_active p i = None
    \<Longrightarrow> pipe_step start P p (p\<lparr>mp_active := (mp_active p)(i := Some (start m)),
          mp_begun := mp_begun p @ [m]\<rparr>)"
| advances: "mp_active p i = Some e \<Longrightarrow> enqueue_step e (mp_box p) e' b
    \<Longrightarrow> placed = (if e' = None \<and> mb_out b \<noteq> mb_out (mp_box p) then [enqueue_value e] else [])
    \<Longrightarrow> pipe_step start P p (p\<lparr>mp_box := b, mp_active := (mp_active p)(i := e'),
          mp_placed := mp_placed p @ placed\<rparr>)"
| receives: "mb_out (mp_box p) = Some m
    \<Longrightarrow> pipe_step start P p (p\<lparr>mp_box := (mp_box p)\<lparr>mb_out := None\<rparr>, mp_got := mp_got p @ [m]\<rparr>)"
| closes: "pipe_step start P p (p\<lparr>mp_box := (mp_box p)\<lparr>mb_done := True\<rparr>\<rparr>)"

abbreviation pipe_run :: "('a \<Rightarrow> 'a enqueue) \<Rightarrow> nat set \<Rightarrow> 'a pipe \<Rightarrow> 'a pipe \<Rightarrow> bool" where
  "pipe_run start P \<equiv> (pipe_step start P)\<^sup>*\<^sup>*"

section \<open>The contract of a mailbox\<close>

text \<open>What makes a mailbox coalescing is that an enqueue begins before its last \<open>select\<close>.\<close>

locale coalescing =
  fixes start :: "'a \<Rightarrow> 'a enqueue"
  assumes start_value: "enqueue_value (start m) = m"
    and start_early: "enqueue_rank (start m) > 0"
begin

definition pipe_inv :: "'a pipe \<Rightarrow> bool" where
  "pipe_inv p \<longleftrightarrow> subseq (held p) (mp_placed p) \<and> set (mp_placed p) \<subseteq> set (mp_begun p)
     \<and> (\<forall>i e. mp_active p i = Some e \<longrightarrow> enqueue_value e \<in> set (mp_begun p))
     \<and> (\<not> mb_done (mp_box p) \<longrightarrow> (\<forall>i. \<not> placing (mp_active p i)) \<longrightarrow> mp_placed p \<noteq> [] \<longrightarrow>
          held p \<noteq> [] \<and> last (held p) = last (mp_placed p))"

lemma start_not_placing [simp]: "\<not> placing (Some (start m))"
  using start_early [of m] by (auto simp: placing_def)

lemma new_pipe_inv: "pipe_inv new_pipe"
  by (simp add: pipe_inv_def new_pipe_def held_def)

lemma advance_inv:
  assumes inv: "pipe_inv p" and e: "mp_active p i = Some e" and st: "enqueue_step e (mp_box p) e' b"
    and placed: "placed = (if e' = None \<and> mb_out b \<noteq> mb_out (mp_box p) then [enqueue_value e] else [])"
  shows "pipe_inv (p\<lparr>mp_box := b, mp_active := (mp_active p)(i := e'), mp_placed := mp_placed p @ placed\<rparr>)"
    (is "pipe_inv ?p")
proof -
  let ?box = "mp_box p"
  have sub: "subseq (held p) (mp_placed p)" and mem: "set (mp_placed p) \<subseteq> set (mp_begun p)"
      "enqueue_value e \<in> set (mp_begun p)"
    using inv e by (auto simp: pipe_inv_def)
  have vals: "\<forall>j x. mp_active ?p j = Some x \<longrightarrow> enqueue_value x \<in> set (mp_begun p)"
  proof (intro allI impI)
    fix j x assume "mp_active ?p j = Some x"
    then consider "j = i" "e' = Some x" | "mp_active p j = Some x" by (auto split: if_splits)
    then show "enqueue_value x \<in> set (mp_begun p)"
      by cases (use st mem(2) inv enqueue_step_value in \<open>fastforce simp: pipe_inv_def\<close>)+
  qed
  consider (filled) "mb_out ?box = None" "b = ?box\<lparr>mb_out := Some (enqueue_value e)\<rparr>" "e' = None"
    | (drained) m where "b = ?box\<lparr>mb_out := None\<rparr>" "e' = Some (Place m)"
    | (same) "b = ?box" "\<not> placing e'" "\<not> placing (Some e) \<or> mb_done ?box"
    using st by cases (auto simp: placing_def)
  then show ?thesis
  proof cases
    case filled
    then have "placed = [enqueue_value e]" "held ?p = held p @ [enqueue_value e]"
      by (auto simp: placed held_def)
    then show ?thesis
      using sub mem vals filled by (simp add: pipe_inv_def)
  next
    case drained
    then have "placed = []" "placing (mp_active ?p i)" by (auto simp: placed placing_def)
    moreover have "subseq (held ?p) (held p)" using drained by (auto simp: held_def)
    ultimately show ?thesis
      using sub mem vals unfolding pipe_inv_def by (auto intro: subseq_order.trans)
  next
    case same
    then have p: "placed = []" "held ?p = held p" by (auto simp: placed held_def)
    have "\<forall>j. \<not> placing (mp_active p j)" if "\<forall>j. \<not> placing (mp_active ?p j)" "\<not> mb_done ?box"
    proof
      fix j show "\<not> placing (mp_active p j)"
        using that(1) [rule_format, of j] that(2) same(3) e by (cases "j = i") auto
    qed
    with inv p sub mem vals same show ?thesis unfolding pipe_inv_def by simp
  qed
qed

lemma pipe_step_inv: "pipe_step start P p p' \<Longrightarrow> pipe_inv p \<Longrightarrow> pipe_inv p'"
proof (induction rule: pipe_step.induct)
  case (begins i p m)
  have "\<not> placing (mp_active p i)" using begins(2) by (simp add: placing_def)
  then have "(\<forall>j. \<not> placing (((mp_active p)(i := Some (start m))) j)) \<longrightarrow> (\<forall>j. \<not> placing (mp_active p j))"
    by (metis fun_upd_apply)
  with begins(3) show ?case by (auto simp: pipe_inv_def held_def start_value)
next
  case (advances p i e e' b placed)
  then show ?case by (intro advance_inv)
next
  case (receives p m)
  then have "held (p\<lparr>mp_box := (mp_box p)\<lparr>mb_out := None\<rparr>, mp_got := mp_got p @ [m]\<rparr>) = held p"
    by (simp add: held_def)
  with receives(2) show ?case by (simp add: pipe_inv_def)
next
  case (closes p)
  then show ?case by (simp add: pipe_inv_def held_def)
qed

lemma pipe_run_inv: "pipe_run start P new_pipe p \<Longrightarrow> pipe_inv p"
  by (induction rule: rtranclp_induct) (auto intro: new_pipe_inv pipe_step_inv)

text \<open>With one producer the channel is empty when it is about to place a value.\<close>

definition lone_inv :: "nat \<Rightarrow> 'a pipe \<Rightarrow> bool" where
  "lone_inv i p \<longleftrightarrow> (\<forall>j. j \<noteq> i \<longrightarrow> mp_active p j = None)
     \<and> (placing (mp_active p i) \<longrightarrow> mb_out (mp_box p) = None)
     \<and> (\<not> mb_done (mp_box p) \<longrightarrow> mp_begun p = mp_placed p @
          (case mp_active p i of None \<Rightarrow> [] | Some e \<Rightarrow> [enqueue_value e]))"

lemma lone_step_inv: "pipe_step start {i} p p' \<Longrightarrow> lone_inv i p \<Longrightarrow> lone_inv i p'"
proof (induction rule: pipe_step.induct)
  case (begins j p m)
  then show ?case by (auto simp: lone_inv_def start_value)
next
  case (advances p j e e' b placed)
  then have j: "j = i" by (auto simp: lone_inv_def)
  from advances(2) show ?case
    by cases (use advances j in \<open>auto simp: lone_inv_def placing_def\<close>)
next
  case (receives p m)
  then show ?case by (auto simp: lone_inv_def)
next
  case (closes p)
  then show ?case by (auto simp: lone_inv_def)
qed

lemma lone_run_inv: "pipe_run start {i} new_pipe p \<Longrightarrow> lone_inv i p"
proof (induction rule: rtranclp_induct)
  case base
  show ?case by (simp add: lone_inv_def new_pipe_def placing_def)
next
  case (step p p')
  then show ?case by (blast intro: lone_step_inv)
qed

lemma lone_never_blocks:
  assumes "pipe_run start {i} new_pipe p" "mp_active p i = Some e"
  shows "\<exists>e' b. enqueue_step e (mp_box p) e' b"
proof (cases e)
  case (Check m)
  then show ?thesis by (cases "mb_done (mp_box p)") (auto intro: enqueue_step.intros)
next
  case (Try m)
  then show ?thesis by (cases "mb_out (mp_box p) = None") (auto intro: enqueue_step.intros)
next
  case (Drain m)
  then show ?thesis by (auto intro: enqueue_step.intros)
next
  case (Place m)
  then have "mb_out (mp_box p) = None"
    using lone_run_inv [OF assms(1)] assms(2) by (auto simp: lone_inv_def placing_def)
  then show ?thesis by (auto simp: Place intro: enqueue_step.intros)
qed

end

interpretation peer_out: coalescing enqueuePeer_start
  by unfold_locales (simp_all add: enqueuePeer_start_def)

interpretation clip_writes: coalescing enqueueClipboard_start
  by unfold_locales (simp_all add: enqueueClipboard_start_def)

section \<open>Properties\<close>

inductive enqueue_alone :: "'a enqueue \<Rightarrow> 'a mailbox \<Rightarrow> 'a mailbox \<Rightarrow> bool" where
  returns: "enqueue_step e b None b' \<Longrightarrow> enqueue_alone e b b'"
| goes_on: "enqueue_step e b (Some e') b1 \<Longrightarrow> enqueue_alone e' b1 b' \<Longrightarrow> enqueue_alone e b b'"

lemma alone_iff:
  "enqueue_alone e b b' \<longleftrightarrow> enqueue_step e b None b'
     \<or> (\<exists>e' b1. enqueue_step e b (Some e') b1 \<and> enqueue_alone e' b1 b')"
  by (auto elim: enqueue_alone.cases intro: enqueue_alone.intros)

lemma enqueue_step_iff:
  "enqueue_step (Check m) b e b' \<longleftrightarrow> b' = b \<and> e = (if mb_done b then None else Some (Try m))"
  "enqueue_step (Try m) b e b' \<longleftrightarrow> (if mb_out b = None then e = None \<and> b' = b\<lparr>mb_out := Some m\<rparr>
     else e = Some (Drain m) \<and> b' = b)"
  "enqueue_step (Drain m) b e b' \<longleftrightarrow> e = Some (Place m) \<and> b' = b\<lparr>mb_out := None\<rparr>"
  "enqueue_step (Place m) b e b' \<longleftrightarrow> e = None \<and> (mb_out b = None \<and> b' = b\<lparr>mb_out := Some m\<rparr>
     \<or> mb_done b \<and> b' = b)"
  by (auto elim: enqueue_step.cases intro: enqueue_step.intros)

lemma alone_unfold:
  "enqueue_alone (Place m) b b' \<longleftrightarrow> mb_out b = None \<and> b' = b\<lparr>mb_out := Some m\<rparr> \<or> mb_done b \<and> b' = b"
  "enqueue_alone (Drain m) b b' \<longleftrightarrow> enqueue_alone (Place m) (b\<lparr>mb_out := None\<rparr>) b'"
  "enqueue_alone (Try m) b b' \<longleftrightarrow> (if mb_out b = None then b' = b\<lparr>mb_out := Some m\<rparr>
     else enqueue_alone (Drain m) b b')"
  "enqueue_alone (Check m) b b' \<longleftrightarrow> (if mb_done b then b' = b else enqueue_alone (Try m) b b')"
  by (rule trans [OF alone_iff], (auto simp: enqueue_step_iff) [1])+

text \<open>
  Select by select, an undisturbed enqueue does what its sequential reading says:
  \<open>enqueuePeer\<close> leaves a finished connection's mailbox alone and otherwise makes the new value
  the one waiting; \<open>enqueueClipboard\<close> does the same, except that at shutdown it may drop the old
  value without placing the new one.
\<close>

theorem enqueue_alone_is_sequential:
  "(enqueue_alone (enqueuePeer_start m) b b' \<longleftrightarrow> b' = enqueuePeer m b)
   \<and> (enqueue_alone (enqueueClipboard_start m) b b' \<longleftrightarrow> b' = enqueueClipboard m b
       \<or> mb_done b \<and> mb_out b \<noteq> None \<and> b' = b\<lparr>mb_out := None\<rparr>)"
  by (auto simp: enqueuePeer_start_def enqueueClipboard_start_def enqueuePeer_eq enqueueClipboard_eq
      alone_unfold)

text \<open>
  C33. A slow peer holds nobody up. Only one goroutine puts into a connection's mailbox; whatever
  the writer on the other side does, the next \<open>select\<close> of its \<open>enqueuePeer\<close> can always go ahead,
  and after at most four of them the call returns.
\<close>

theorem enqueue_peer_never_waits:
  assumes "pipe_run enqueuePeer_start {i} new_pipe p" "mp_active p i = Some e"
  shows "(\<exists>e' b. enqueue_step e (mp_box p) e' b)
    \<and> (\<forall>e' b. enqueue_step e (mp_box p) (Some e') b \<longrightarrow> enqueue_rank e' < enqueue_rank e)
    \<and> enqueue_rank e < 4"
proof (intro conjI allI impI)
  show "\<exists>e' b. enqueue_step e (mp_box p) e' b" by (rule peer_out.lone_never_blocks [OF assms])
  show "enqueue_rank e' < enqueue_rank e" if "enqueue_step e (mp_box p) (Some e') b" for e' b
    using enqueue_step_value [OF that] by simp
  show "enqueue_rank e < 4" by (cases e) auto
qed

text \<open>
  C14. The newest clipboard value reaches the peer. Between calls, while the connection is up, the
  last value handed to \<open>enqueuePeer\<close> is either the last one the writer took or the one waiting
  for it, and what the writer takes is a subsequence of what was handed over: older values may be
  skipped, never reordered, and the latest is never lost.
\<close>

theorem newest_value_survives:
  assumes "pipe_run enqueuePeer_start {i} new_pipe p"
    and "\<not> mb_done (mp_box p)" "mp_active p i = None" "mp_begun p \<noteq> []"
  shows "held p \<noteq> [] \<and> last (held p) = last (mp_begun p) \<and> subseq (held p) (mp_begun p)"
proof -
  have lone: "peer_out.lone_inv i p" by (rule peer_out.lone_run_inv [OF assms(1)])
  have "mp_active p j = None" for j
    using lone assms(3) by (cases "j = i") (auto simp: peer_out.lone_inv_def)
  then have "mp_begun p = mp_placed p" "\<forall>j. \<not> placing (mp_active p j)"
    using lone assms(2) by (auto simp: peer_out.lone_inv_def placing_def)
  then show ?thesis
    using peer_out.pipe_run_inv [OF assms(1)] assms(2,4) by (simp add: peer_out.pipe_inv_def)
qed

text \<open>
  The clipboard writer's mailbox, which the read loops of all connections fill at once:
  everything the writer takes was received from some peer, in the order in which the values were
  placed, and when no read loop is in the middle of replacing a value the last value placed is
  the last one taken or the one waiting.
\<close>

theorem clipboard_mailbox_keeps_latest:
  assumes "pipe_run enqueueClipboard_start P new_pipe p"
  shows "set (held p) \<subseteq> set (mp_begun p) \<and> subseq (held p) (mp_placed p)
    \<and> (\<not> mb_done (mp_box p) \<longrightarrow> (\<forall>i. \<not> placing (mp_active p i)) \<longrightarrow> mp_placed p \<noteq> [] \<longrightarrow>
         held p \<noteq> [] \<and> last (held p) = last (mp_placed p))"
proof -
  have inv: "clip_writes.pipe_inv p" by (rule clip_writes.pipe_run_inv [OF assms])
  then have "subseq (held p) (mp_placed p)" "set (mp_placed p) \<subseteq> set (mp_begun p)"
    by (auto simp: clip_writes.pipe_inv_def)
  moreover have "set (held p) \<subseteq> set (mp_placed p)"
    using calculation(1) by (auto elim: list_emb_set)
  ultimately show ?thesis
    using inv by (auto simp: clip_writes.pipe_inv_def)
qed

section \<open>A run\<close>

text \<open>Producer 0 enqueues 1 and then 2 while nobody reads.\<close>

definition sample_pipe :: "nat option \<Rightarrow> nat enqueue option \<Rightarrow> nat list \<Rightarrow> nat list \<Rightarrow> nat pipe" where
  "sample_pipe out e begun placed = \<lparr>mp_box = \<lparr>mb_out = out, mb_done = False\<rparr>,
     mp_active = (\<lambda>_. None)(0 := e), mp_begun = begun, mp_placed = placed, mp_got = []\<rparr>"

lemma sample_begins:
  "pipe_step start {0} (sample_pipe out None bs ps) (sample_pipe out (Some (start m)) (bs @ [m]) ps)"
  using pipe_step.begins [of 0 "{0}" "sample_pipe out None bs ps" start m]
  by (simp add: sample_pipe_def)

lemma sample_advances:
  assumes "enqueue_step e \<lparr>mb_out = out, mb_done = False\<rparr> e' \<lparr>mb_out = out', mb_done = False\<rparr>"
  shows "pipe_step start {0} (sample_pipe out (Some e) bs ps)
      (sample_pipe out' e' bs (ps @ (if e' = None \<and> out' \<noteq> out then [enqueue_value e] else [])))"
  using pipe_step.advances [of "sample_pipe out (Some e) bs ps" 0 e e' "\<lparr>mb_out = out', mb_done = False\<rparr>"] assms
  by (simp add: sample_pipe_def)

lemma sample_enqueue_first:
  "pipe_step start {0} (sample_pipe None (Some (Try m)) bs ps) (sample_pipe (Some m) None bs (ps @ [m]))"
  using sample_advances [of "Try m" None None "Some m"] by (simp add: enqueue_step_iff)

lemma sample_enqueue_again:
  "(pipe_step start {0})\<^sup>*\<^sup>* (sample_pipe (Some x) (Some (Try m)) bs ps)
     (sample_pipe (Some m) None bs (ps @ [m]))"
proof -
  have "pipe_step start {0} (sample_pipe (Some x) (Some (Try m)) bs ps) (sample_pipe (Some x) (Some (Drain m)) bs ps)"
    "pipe_step start {0} (sample_pipe (Some x) (Some (Drain m)) bs ps) (sample_pipe None (Some (Place m)) bs ps)"
    "pipe_step start {0} (sample_pipe None (Some (Place m)) bs ps) (sample_pipe (Some m) None bs (ps @ [m]))"
    using sample_advances [of "Try m" "Some x" "Some (Drain m)" "Some x" start bs ps]
      sample_advances [of "Drain m" "Some x" "Some (Place m)" None start bs ps]
      sample_advances [of "Place m" None None "Some m" start bs ps]
    by (simp_all add: enqueue_step_iff)
  then show ?thesis by (meson converse_rtranclp_into_rtranclp rtranclp.rtrancl_refl)
qed

lemma sample_checked:
  "pipe_step start {0} (sample_pipe out (Some (Check m)) bs ps) (sample_pipe out (Some (Try m)) bs ps)"
  using sample_advances [of "Check m" out "Some (Try m)" out start bs ps] by (simp add: enqueue_step_iff)

lemma new_pipe_sample: "new_pipe = sample_pipe None None [] []"
  by (simp add: new_pipe_def sample_pipe_def)

lemma sample_peer_first:
  "pipe_run enqueuePeer_start {0} new_pipe (sample_pipe (Some 1) None [1] [1])"
  using sample_begins [of enqueuePeer_start None "[]" "[]" 1]
    sample_checked [of enqueuePeer_start None 1 "[1]" "[]"]
    sample_enqueue_first [of enqueuePeer_start 1 "[1]" "[]"]
  unfolding new_pipe_sample enqueuePeer_start_def
  by (auto intro: converse_rtranclp_into_rtranclp)

lemma sample_peer_begun:
  "pipe_run enqueuePeer_start {0} new_pipe (sample_pipe (Some 1) (Some (Check 2)) [1, 2] [1])"
  using sample_peer_first sample_begins [of enqueuePeer_start "Some 1" "[1]" "[1]" 2]
  by (simp add: enqueuePeer_start_def rtranclp.rtrancl_into_rtrancl)

lemma sample_peer_second:
  "pipe_run enqueuePeer_start {0} new_pipe (sample_pipe (Some 2) None [1, 2] [1, 2])"
  using rtranclp_trans [OF rtranclp.rtrancl_into_rtrancl [OF sample_peer_begun
      sample_checked [of enqueuePeer_start "Some 1" 2 "[1, 2]" "[1]"]]
      sample_enqueue_again [of enqueuePeer_start 1 2 "[1, 2]" "[1]"]] by simp

theorem enqueue_peer_never_waits_witness:
  "\<exists>e' b. enqueue_step (Check 2) (mp_box (sample_pipe (Some 1) (Some (Check 2)) [1, 2] [1])) e' b"
  using enqueue_peer_never_waits [OF sample_peer_begun, of "Check 2"] by (simp add: sample_pipe_def)

theorem newest_value_survives_witness:
  "last (held (sample_pipe (Some 2) None [1, 2] [1, 2])) = last [1, 2]"
  using newest_value_survives [OF sample_peer_second] by (simp add: sample_pipe_def)

theorem clipboard_mailbox_keeps_latest_witness:
  "last (held (sample_pipe (Some 1) None [1] [1])) = last [1]"
proof -
  have "pipe_run enqueueClipboard_start {0} new_pipe (sample_pipe (Some 1) None [1] [1])"
    using sample_begins [of enqueueClipboard_start None "[]" "[]" 1]
      sample_enqueue_first [of enqueueClipboard_start 1 "[1]" "[]"]
    unfolding new_pipe_sample enqueueClipboard_start_def
    by (auto intro: converse_rtranclp_into_rtranclp)
  from clipboard_mailbox_keeps_latest [OF this] show ?thesis
    by (simp add: sample_pipe_def placing_def)
qed

end
