(* ===== verification/Suppression.thy ===== *)
theory Suppression
  imports Digest
begin

text \<open>
  \<open>internal/sync/suppression.go\<close>: the short-lived table of content hashes that stops a clipboard
  value received from a peer from being sent back. The clock reading \<open>s.now()\<close> is an argument of
  each operation; \<open>Add\<close> reads it twice (to prune and to stamp), so it takes two instants.
  The \<open>copy\<close> of the trimming branch is written with Go's meaning of \<open>copy\<close> on overlapping
  slices of one array.
\<close>

section \<open>State and operations\<close>

record suppression_entry =
  se_eventID :: string
  se_hash :: string
  se_expires :: time

record suppressor =
  sup_ttl :: duration
  sup_entries :: "suppression_entry list"

definition maxSuppressionEntries :: nat where
  "maxSuppressionEntries = 256"

definition NewSuppressor :: "duration \<Rightarrow> suppressor" where
  "NewSuppressor ttl = \<lparr>sup_ttl = ttl, sup_entries = []\<rparr>"

text \<open>The loop of \<open>prune\<close> appends every unexpired entry to the emptied slice.\<close>

definition suppress_prune :: "time \<Rightarrow> suppressor \<Rightarrow> suppressor" where
  "suppress_prune now s =
     s\<lparr>sup_entries := foldl (\<lambda>out e. if time_before now (se_expires e) then out @ [e] else out)
                       [] (sup_entries s)\<rparr>"

definition go_copy :: "'a list \<Rightarrow> 'a list \<Rightarrow> 'a list" where
  "go_copy dst src = take (length dst) src @ drop (length src) dst"

definition suppress_add :: "time \<Rightarrow> time \<Rightarrow> string \<Rightarrow> string \<Rightarrow> suppressor \<Rightarrow> suppressor" where
  "suppress_add now now' eventID content s =
     (let s = suppress_prune now s;
          es = sup_entries s;
          es = (if length es \<ge> maxSuppressionEntries
                then take (maxSuppressionEntries - 1)
                       (go_copy es (drop (length es - maxSuppressionEntries + 1) es))
                else es)
      in s\<lparr>sup_entries := es @ [\<lparr>se_eventID = eventID, se_hash = sha256 content,
                                 se_expires = time_add now' (sup_ttl s)\<rparr>]\<rparr>)"

text \<open>The loop of \<open>Consume\<close>: the first entry with the hash is cut out.\<close>

fun cut_hash :: "string \<Rightarrow> suppression_entry list \<Rightarrow> suppression_entry list option" where
  "cut_hash h [] = None"
| "cut_hash h (e # es) =
     (if se_hash e = h then Some es else map_option (\<lambda>es'. e # es') (cut_hash h es))"

definition suppress_consume :: "time \<Rightarrow> string \<Rightarrow> suppressor \<Rightarrow> bool \<times> suppressor" where
  "suppress_consume now content s =
     (let s = suppress_prune now s
      in case cut_hash (sha256 content) (sup_entries s) of
           None \<Rightarrow> (False, s)
         | Some es \<Rightarrow> (True, s\<lparr>sup_entries := es\<rparr>))"

section \<open>Pruning\<close>

lemma foldl_keep: "foldl (\<lambda>out e. if P e then out @ [e] else out) acc es = acc @ filter P es"
  by (induction es arbitrary: acc) auto

lemma suppress_prune_eq:
  "suppress_prune now s = s\<lparr>sup_entries := filter (\<lambda>e. now < se_expires e) (sup_entries s)\<rparr>"
  by (simp add: suppress_prune_def foldl_keep time_simps)

definition suppress_live :: "suppressor \<Rightarrow> time \<Rightarrow> suppression_entry \<Rightarrow> bool" where
  "suppress_live s now = (\<lambda>e. now < se_expires e)"

lemma go_copy_suffix: "n \<le> length es \<Longrightarrow> take (length es - n) (go_copy es (drop n es)) = drop n es"
  by (simp add: go_copy_def)

lemma suppress_add_eq:
  "suppress_add now now' ev content s =
     (let es = filter (\<lambda>e. now < se_expires e) (sup_entries s);
          kept = (if 256 \<le> length es then drop (length es - 255) es else es)
      in s\<lparr>sup_entries := kept @ [\<lparr>se_eventID = ev, se_hash = sha256 content,
                                   se_expires = now' + sup_ttl s\<rparr>]\<rparr>)"
proof -
  have "take 255 (go_copy es (drop (length es - 256 + 1) es)) = drop (length es - 255) es"
    if "256 \<le> length es" for es :: "suppression_entry list"
  proof -
    have "length es - 256 + 1 = length es - 255" "length es - (length es - 255) = 255"
      using that by linarith+
    with go_copy_suffix [of "length es - 255" es] show ?thesis by simp
  qed
  then show ?thesis
    by (simp add: suppress_add_def suppress_prune_eq maxSuppressionEntries_def time_add_def Let_def)
qed

interpretation sup: bounded_table suppress_prune sup_entries suppress_live
    "\<lambda>now (now', ev, content) s. suppress_add now now' ev content s" "\<lambda>_. maxSuppressionEntries"
  by unfold_locales
    (auto simp: suppress_prune_eq suppress_live_def suppress_add_eq Let_def
       maxSuppressionEntries_def fun_eq_iff)

section \<open>Exactly-once consumption\<close>

definition pending_hash :: "string \<Rightarrow> suppressor \<Rightarrow> nat" where
  "pending_hash h s = length (filter (\<lambda>e. se_hash e = h) (sup_entries s))"

lemma cut_hash_None: "cut_hash h es = None \<longleftrightarrow> (\<forall>e \<in> set es. se_hash e \<noteq> h)"
  by (induction es) auto

lemma cut_hash_SomeD:
  "cut_hash h es = Some es' \<Longrightarrow>
     \<exists>xs e ys. es = xs @ e # ys \<and> se_hash e = h \<and> (\<forall>x \<in> set xs. se_hash x \<noteq> h) \<and> es' = xs @ ys"
proof (induction es arbitrary: es')
  case (Cons a es)
  show ?case
  proof (cases "se_hash a = h")
    case True
    with Cons.prems show ?thesis by (intro exI [of _ "[]"] exI [of _ a] exI [of _ es]) auto
  next
    case False
    with Cons.prems obtain es'' where "cut_hash h es = Some es''" and es': "es' = a # es''" by auto
    with Cons.IH obtain xs e ys where "es = xs @ e # ys" "se_hash e = h"
        "\<forall>x \<in> set xs. se_hash x \<noteq> h" "es'' = xs @ ys" by blast
    with False es' show ?thesis by (intro exI [of _ "a # xs"] exI [of _ e] exI [of _ ys]) auto
  qed
qed simp

lemma consume_cases:
  obtains (hit) xs e ys where "filter (\<lambda>e. now < se_expires e) (sup_entries s) = xs @ e # ys"
      "se_hash e = sha256 content" "\<forall>x \<in> set xs. se_hash x \<noteq> sha256 content"
      "suppress_consume now content s = (True, s\<lparr>sup_entries := xs @ ys\<rparr>)"
  | (miss) "\<forall>e \<in> set (sup_entries s). now < se_expires e \<longrightarrow> se_hash e \<noteq> sha256 content"
      "suppress_consume now content s = (False, suppress_prune now s)"
proof (cases "cut_hash (sha256 content) (sup_entries (suppress_prune now s))")
  case None
  then have "suppress_consume now content s = (False, suppress_prune now s)"
    by (simp add: suppress_consume_def)
  with None show thesis by (intro miss) (auto simp: cut_hash_None suppress_prune_eq)
next
  case (Some es)
  then obtain xs e ys where "sup_entries (suppress_prune now s) = xs @ e # ys"
      "se_hash e = sha256 content" "\<forall>x \<in> set xs. se_hash x \<noteq> sha256 content" "es = xs @ ys"
    by (auto dest!: cut_hash_SomeD)
  with Some show thesis
    by (intro hit [of xs e ys]) (auto simp: suppress_consume_def suppress_prune_eq)
qed

text \<open>A history of the suppressor: additions and consumptions, each with its clock readings.\<close>

datatype suppress_op =
    SAdd time time string string
  | SConsume time string

fun suppress_run :: "suppress_op list \<Rightarrow> suppressor \<Rightarrow> bool list \<times> suppressor" where
  "suppress_run [] s = ([], s)"
| "suppress_run (SAdd now now' ev content # ops) s =
     suppress_run ops (suppress_add now now' ev content s)"
| "suppress_run (SConsume now content # ops) s =
     (let (hit, s) = suppress_consume now content s; (hits, s) = suppress_run ops s
      in (hit # hits, s))"

text \<open>How often a content was added, and how often a consumption of it succeeded.\<close>

fun adds_of :: "string \<Rightarrow> suppress_op list \<Rightarrow> nat" where
  "adds_of h [] = 0"
| "adds_of h (SAdd now now' ev content # ops) = (if sha256 content = h then 1 else 0) + adds_of h ops"
| "adds_of h (SConsume now content # ops) = adds_of h ops"

fun hits_of :: "string \<Rightarrow> suppress_op list \<Rightarrow> suppressor \<Rightarrow> nat" where
  "hits_of h [] s = 0"
| "hits_of h (SAdd now now' ev content # ops) s = hits_of h ops (suppress_add now now' ev content s)"
| "hits_of h (SConsume now content # ops) s =
     (let (hit, s) = suppress_consume now content s
      in (if hit \<and> sha256 content = h then 1 else 0) + hits_of h ops s)"

lemma pending_hash_prune: "pending_hash h (suppress_prune now s) \<le> pending_hash h s"
  by (simp add: pending_hash_def suppress_prune_eq length_filter_filter_le del: filter_filter)

lemma pending_hash_add:
  "pending_hash h (suppress_add now now' ev content s)
     \<le> pending_hash h s + (if sha256 content = h then 1 else 0)"
proof -
  let ?es = "filter (\<lambda>e. now < se_expires e) (sup_entries s)"
  have "length (filter (\<lambda>e. se_hash e = h) ?es) \<le> pending_hash h s"
    using pending_hash_prune [of h now s] by (simp add: pending_hash_def suppress_prune_eq)
  moreover have "length (filter (\<lambda>e. se_hash e = h) (drop (length ?es - 255) ?es))
      \<le> length (filter (\<lambda>e. se_hash e = h) ?es)"
    by (rule length_filter_drop)
  ultimately show ?thesis
    by (auto simp: pending_hash_def suppress_add_eq Let_def)
qed

lemma pending_hash_consume:
  "suppress_consume now content s = (hit, s') \<Longrightarrow>
     pending_hash h s' + (if hit \<and> sha256 content = h then 1 else 0) \<le> pending_hash h s"
proof -
  assume eq: "suppress_consume now content s = (hit, s')"
  show ?thesis
  proof (cases rule: consume_cases [where now = now and s = s and content = content])
    case (hit xs e ys)
    have "pending_hash h (suppress_prune now s) \<le> pending_hash h s" by (rule pending_hash_prune)
    with hit eq show ?thesis
      by (auto simp: pending_hash_def suppress_prune_eq)
  next
    case miss
    with eq pending_hash_prune [of h now s] show ?thesis by auto
  qed
qed

lemma hits_le_pending_plus_adds:
  "hits_of h ops s \<le> pending_hash h s + adds_of h ops"
proof (induction ops arbitrary: s)
  case (Cons op ops)
  show ?case
  proof (cases op)
    case (SAdd now now' ev content)
    have "hits_of h ops (suppress_add now now' ev content s)
        \<le> pending_hash h (suppress_add now now' ev content s) + adds_of h ops"
      by (rule Cons.IH)
    with pending_hash_add [of h now now' ev content s] show ?thesis by (simp add: SAdd)
  next
    case (SConsume now content)
    obtain hit s' where eq: "suppress_consume now content s = (hit, s')" by fastforce
    have "hits_of h ops s' \<le> pending_hash h s' + adds_of h ops" by (rule Cons.IH)
    with pending_hash_consume [OF eq, of h] show ?thesis by (simp add: SConsume eq)
  qed
qed simp

lemma consume_shrinks: "length (sup_entries (snd (suppress_consume now content s))) \<le> length (sup_entries s)"
proof (cases rule: consume_cases [where now = now and content = content and s = s])
  case (hit xs e ys)
  have "length (xs @ e # ys) \<le> length (sup_entries s)" by (metis hit(1) length_filter_le)
  with hit show ?thesis by simp
next
  case miss
  then show ?thesis using sup.pruned_length [of now s] by simp
qed

section \<open>How long an entry stays\<close>

text \<open>Operations before a deadline that do not consume a given digest.\<close>

fun leaves_alone :: "time \<Rightarrow> string \<Rightarrow> suppress_op \<Rightarrow> bool" where
  "leaves_alone d h (SAdd now now' ev content) \<longleftrightarrow> now < d"
| "leaves_alone d h (SConsume now content) \<longleftrightarrow> now < d \<and> sha256 content \<noteq> h"

fun is_add :: "suppress_op \<Rightarrow> bool" where
  "is_add (SAdd _ _ _ _) = True"
| "is_add (SConsume _ _) = False"

lemma suppress_fields [simp]:
  "sup_ttl (suppress_add now now' ev content s) = sup_ttl s"
  "sup_ttl (suppress_prune now s) = sup_ttl s"
  "sup_ttl (snd (suppress_consume now content s)) = sup_ttl s"
  by (simp_all add: suppress_add_eq suppress_prune_eq Let_def)
    (cases rule: consume_cases [where now = now and content = content and s = s];
      simp add: suppress_prune_eq)

lemma add_keeps_entry:
  assumes "sup_entries s = xs @ e # ys" "now < se_expires e" "length ys < 255"
  shows "\<exists>xs' ys'. sup_entries (suppress_add now now' ev content s) = xs' @ e # ys' \<and> length ys' \<le> Suc (length ys)"
proof -
  let ?P = "\<lambda>e. now < se_expires e"
  let ?new = "\<lparr>se_eventID = ev, se_hash = sha256 content, se_expires = now' + sup_ttl s\<rparr>"
  have live: "filter ?P (sup_entries s) = filter ?P xs @ e # filter ?P ys" (is "?es = ?as @ e # ?bs")
    using assms by simp
  have bs: "length ?bs \<le> length ys" by simp
  show ?thesis
  proof (cases "256 \<le> length ?es")
    case True
    have "length ?bs - 254 = 0" using assms(3) bs by linarith
    then have "drop (length ?es - 255) ?es = drop (length ?es - 255) ?as @ e # ?bs"
      unfolding live by simp
    with True bs show ?thesis
      by (intro exI [of _ "drop (length ?es - 255) ?as"] exI [of _ "?bs @ [?new]"])
        (simp add: suppress_add_eq Let_def)
  next
    case False
    with bs show ?thesis
      by (intro exI [of _ "?as"] exI [of _ "?bs @ [?new]"]) (simp add: suppress_add_eq Let_def live)
  qed
qed

lemma consume_keeps_entry:
  assumes "sup_entries s = xs @ e # ys" "now < se_expires e" "sha256 content \<noteq> se_hash e"
  shows "\<exists>xs' ys'. sup_entries (snd (suppress_consume now content s)) = xs' @ e # ys' \<and> length ys' \<le> length ys"
proof -
  let ?P = "\<lambda>e. now < se_expires e"
  have live: "filter ?P (sup_entries s) = filter ?P xs @ e # filter ?P ys" (is "_ = ?as @ e # ?bs")
    using assms by simp
  have bs: "length ?bs \<le> length ys" by simp
  show ?thesis
  proof (cases rule: consume_cases [where now = now and content = content and s = s])
    case (hit us f vs)
    with live have "us @ f # vs = ?as @ e # ?bs" "f \<noteq> e" using assms(3) by auto
    then consider ws where "us = ?as @ e # ws" "?bs = ws @ f # vs"
      | ws where "us @ f # ws = ?as" "vs = ws @ e # ?bs"
      by (auto simp: append_eq_append_conv2 Cons_eq_append_conv append_eq_Cons_conv)
    then show ?thesis
    proof cases
      case 1
      then have "length (ws @ vs) \<le> length ys" using bs by simp
      with 1 hit(4) show ?thesis by (intro exI [of _ ?as] exI [of _ "ws @ vs"]) simp
    next
      case 2
      then show ?thesis using bs hit(4) by (intro exI [of _ "us @ ws"] exI [of _ ?bs]) simp
    qed
  next
    case miss
    with live bs show ?thesis
      by (intro exI [of _ ?as] exI [of _ ?bs]) (simp add: suppress_prune_eq)
  qed
qed

lemma entry_survives:
  assumes "sup_entries s = xs @ e # ys" "list_all (leaves_alone (se_expires e) (se_hash e)) ops"
    "length ys + length (filter is_add ops) \<le> 255"
  shows "e \<in> set (sup_entries (snd (suppress_run ops s)))"
  using assms
proof (induction ops arbitrary: s xs ys)
  case (Cons op ops)
  show ?case
  proof (cases op)
    case (SAdd now now' ev content)
    with Cons.prems obtain xs' ys' where "sup_entries (suppress_add now now' ev content s) = xs' @ e # ys'"
        "length ys' \<le> Suc (length ys)"
      using add_keeps_entry [OF Cons.prems(1), of now now' ev content] by auto
    with Cons.IH [OF this(1)] Cons.prems show ?thesis by (simp add: SAdd)
  next
    case (SConsume now content)
    with Cons.prems obtain xs' ys' where
        "sup_entries (snd (suppress_consume now content s)) = xs' @ e # ys'" "length ys' \<le> length ys"
      using consume_keeps_entry [OF Cons.prems(1), of now content] by auto
    with Cons.IH [OF this(1)] Cons.prems show ?thesis
      by (simp add: SConsume split: prod.splits) (metis snd_conv)
  qed
qed simp

text \<open>
  A recorded content is consumed by the first local event with it before its deadline, whatever
  happens to other contents meanwhile, as long as at most 255 more are recorded.
\<close>

lemma recorded_is_consumed:
  assumes "list_all (leaves_alone (now' + sup_ttl s) (sha256 content)) ops"
    and "length (filter is_add ops) \<le> 255" "t < now' + sup_ttl s"
  shows "fst (suppress_consume t content (snd (suppress_run ops (suppress_add now now' ev content s))))"
proof -
  let ?e = "\<lparr>se_eventID = ev, se_hash = sha256 content, se_expires = now' + sup_ttl s\<rparr>"
  obtain xs where "sup_entries (suppress_add now now' ev content s) = xs @ ?e # []"
    by (auto simp: suppress_add_eq Let_def)
  from entry_survives [OF this] assms(1,2)
  have "?e \<in> set (sup_entries (snd (suppress_run ops (suppress_add now now' ev content s))))" by simp
  with assms(3) show ?thesis
    by (cases rule: consume_cases [where now = t and content = content
          and s = "snd (suppress_run ops (suppress_add now now' ev content s))"]) auto
qed

section \<open>Properties\<close>

text \<open>
  An echo is stopped: once a received content has been recorded, the first local clipboard
  event with that content before the entry's deadline is consumed, however full the table was,
  whatever other contents are recorded or consumed in between, up to 255 further recordings.
\<close>

theorem echo_is_suppressed:
  assumes "list_all (leaves_alone (now' + sup_ttl s) (sha256 content)) ops"
    and "length (filter is_add ops) \<le> 255" "t < now' + sup_ttl s"
  shows "fst (suppress_consume t content (snd (suppress_run ops (suppress_add now now' ev content s))))"
  using assms by (rule recorded_is_consumed)

theorem echo_is_suppressed_witness:
  "fst (suppress_consume 5 ''hi'' (snd (suppress_run [SAdd 2 3 ''e2'' ''ho'']
     (suppress_add 0 1 ''ev'' ''hi'' (NewSuppressor (5 * second))))))"
  by (rule echo_is_suppressed) (simp_all add: NewSuppressor_def second_def)

text \<open>
  Exactly-once consumption over any history: for every digest, the consumptions that
  succeed are at most the additions made (plus what the table held at the start), so an
  intentional repeated copy is not swallowed by an entry already used.
\<close>

theorem suppression_consumed_at_most_once:
  "hits_of h ops (NewSuppressor ttl) \<le> adds_of h ops"
  using hits_le_pending_plus_adds [of h ops "NewSuppressor ttl"]
  by (simp add: pending_hash_def NewSuppressor_def)

text \<open>
  A content that was never recorded, or whose entries have all expired, is never
  suppressed: success means that an unexpired entry with the content's digest was there, and
  exactly that one entry is removed while every other unexpired entry stays.
\<close>

theorem consume_iff_live_match:
  "(fst (suppress_consume now content s)
      \<longleftrightarrow> (\<exists>e \<in> set (sup_entries s). now < se_expires e \<and> se_hash e = sha256 content)) \<and>
   mset (sup_entries (snd (suppress_consume now content s)))
     + (if fst (suppress_consume now content s)
        then {# hd (filter (\<lambda>e. se_hash e = sha256 content) (sup_entries (suppress_prune now s))) #}
        else {#})
     = mset (sup_entries (suppress_prune now s))"
proof (cases rule: consume_cases [where now = now and content = content and s = s])
  case (hit xs e ys)
  have "e \<in> set (filter (\<lambda>e. now < se_expires e) (sup_entries s))" by (simp add: hit(1))
  then have "e \<in> set (sup_entries s)" and "now < se_expires e" by auto
  with hit show ?thesis by (auto simp: suppress_prune_eq)
next
  case miss
  then show ?thesis by auto
qed

text \<open>
  The table is bounded: whatever is added and whenever, it never holds more than 256
  entries.
\<close>

theorem suppressor_bounded:
  "length (sup_entries (snd (suppress_run ops (NewSuppressor ttl)))) \<le> maxSuppressionEntries"
proof -
  have "length (sup_entries (snd (suppress_run ops s))) \<le> maxSuppressionEntries"
    if "length (sup_entries s) \<le> maxSuppressionEntries" for s
    using that
  proof (induction ops arbitrary: s)
    case (Cons op ops)
    show ?case
    proof (cases op)
      case (SAdd now now' ev content)
      with Cons show ?thesis using sup.put_bounded [of s now "(now', ev, content)"] by simp
    next
      case (SConsume now content)
      obtain hit s' where eq: "suppress_consume now content s = (hit, s')" by fastforce
      from eq consume_shrinks [of now content s] Cons.prems have "length (sup_entries s') \<le> maxSuppressionEntries" by simp
      from Cons.IH [OF this] show ?thesis
        by (cases "suppress_run ops s'") (simp add: SConsume eq)
    qed
  qed simp
  then show ?thesis by (simp add: NewSuppressor_def)
qed

end
