(* ===== verification/Clipboard_Flow.thy ===== *)
theory Clipboard_Flow
  imports Sync_Session Mailbox Suppression
begin

text \<open>
  How a clipboard text travels through \<open>internal/daemon/daemon.go\<close>: \<open>localLoop\<close> turns a local
  change into a message in every connection's mailbox, \<open>writeLoop\<close> sends it, \<open>readLoop\<close> of the
  other side checks it and puts it into the clipboard writer's mailbox, \<open>clipboardWriteLoop\<close>
  writes it and records its hash so that the change it causes is not sent on.

  Each loop body is a function of the state it touches and of what it reads from outside: clock
  readings, random bytes, and the outcome of a write (\<open>None\<close> for success). The daemon's suppressor
  is made with a time to live of five seconds.
\<close>

section \<open>The reading side\<close>

record inbound_clipboard =
  ib_peerID :: string
  ib_eventID :: string
  ib_text :: string

record frame_window =
  fw_window :: time
  fw_count :: int

definition maxClipboardFramesPerSecond :: int where
  "maxClipboardFramesPerSecond = 30"

definition clipboard_mime :: string where
  "clipboard_mime = ''text/plain;charset=utf-8''"

definition frame_allowed :: "time \<Rightarrow> frame_window \<Rightarrow> bool \<times> frame_window" where
  "frame_allowed now w =
     (let w = (if time_sub now (fw_window w) \<ge> second then \<lparr>fw_window = now, fw_count = 0\<rparr> else w);
          w = w\<lparr>fw_count := fw_count w + 1\<rparr>
      in (\<not> fw_count w > maxClipboardFramesPerSecond, w))"

datatype read_action =
    Skip | Deliver inbound_clipboard | Reply message | RateExceeded

definition pong_message :: "string \<Rightarrow> message" where
  "pong_message nonce = empty_message\<lparr>m_Type := ''pong'', m_Nonce := nonce\<rparr>"

definition handle_frame ::
  "nat \<Rightarrow> string \<Rightarrow> time \<Rightarrow> message \<Rightarrow> frame_window \<Rightarrow> read_action \<times> frame_window" where
  "handle_frame maxBytes pid now m w =
     (if m_Type m = ''clipboard'' then
        (if m_Text m = [] \<or> m_MIME m \<noteq> clipboard_mime \<or> length (m_Text m) > maxBytes then (Skip, w)
         else let (ok, w) = frame_allowed now w
              in if \<not> ok then (RateExceeded, w)
                 else (Deliver \<lparr>ib_peerID = pid, ib_eventID = m_EventID m, ib_text = m_Text m\<rparr>, w))
      else if m_Type m = ''ping'' then (Reply (pong_message (m_Nonce m)), w)
      else (Skip, w))"

datatype conn_error = ReadFailed read_error | RateLimit

text \<open>
  The reading goroutine of a connection on the results of its successive \<open>protocol.Read\<close> calls,
  each with the clock reading that follows it: what it did, and the error that ended it.
\<close>

fun read_frames ::
  "nat \<Rightarrow> string \<Rightarrow> (time \<times> (read_error + message)) list \<Rightarrow> frame_window
     \<Rightarrow> (time \<times> read_action) list \<times> conn_error option" where
  "read_frames maxBytes pid [] w = ([], None)"
| "read_frames maxBytes pid ((now, Inl e) # rs) w = ([], Some (ReadFailed e))"
| "read_frames maxBytes pid ((now, Inr m) # rs) w =
     (case handle_frame maxBytes pid now m w of
        (RateExceeded, w) \<Rightarrow> ([], Some RateLimit)
      | (a, w) \<Rightarrow> let (as, e) = read_frames maxBytes pid rs w in ((now, a) # as, e))"

text \<open>The end of \<open>readLoop\<close>: an error other than EOF is recorded.\<close>

definition end_reading :: "(conn_error \<Rightarrow> string) \<Rightarrow> string \<Rightarrow> conn_error \<Rightarrow> registry \<Rightarrow> registry" where
  "end_reading describe pid e r =
     (if e \<noteq> ReadFailed EOF then recordError pid (Some (describe e)) r else r)"

section \<open>The writing side\<close>

definition local_message :: "nat \<Rightarrow> time \<Rightarrow> string option \<Rightarrow> string \<Rightarrow> suppressor \<Rightarrow> message option \<times> suppressor" where
  "local_message maxBytes now rnd e_Text sp =
     (if e_Text = [] \<or> length e_Text > maxBytes then (None, sp)
      else let (echo, sp) = suppress_consume now e_Text sp
           in if echo then (None, sp)
              else case UUID rnd of
                None \<Rightarrow> (None, sp)
              | Some event \<Rightarrow>
                  (Some (empty_message\<lparr>m_Type := ''clipboard'', m_EventID := event,
                           m_MIME := clipboard_mime, m_Text := e_Text\<rparr>), sp))"

text \<open>The mailboxes of the connections, by the identity of their \<open>peerConn\<close>.\<close>

type_synonym mailboxes = "nat \<Rightarrow> message mailbox"

definition localLoop_step ::
  "nat \<Rightarrow> time \<Rightarrow> string option \<Rightarrow> string \<Rightarrow> registry \<Rightarrow> suppressor \<Rightarrow> mailboxes
     \<Rightarrow> suppressor \<times> mailboxes" where
  "localLoop_step maxBytes now rnd e_Text r sp boxes =
     (case local_message maxBytes now rnd e_Text sp of
        (None, sp) \<Rightarrow> (sp, boxes)
      | (Some m, sp) \<Rightarrow>
          let conns = map (\<lambda>(_, c). pc_ref c) (rg_conns r)
          in (sp, foldl (\<lambda>boxes c. boxes(c := enqueuePeer m (boxes c))) boxes conns))"

definition writeLoop_step ::
  "peer_conn \<Rightarrow> time \<Rightarrow> string option \<Rightarrow> message \<Rightarrow> registry \<Rightarrow> bool \<times> registry" where
  "writeLoop_step pc now wrote m r =
     (case wrote of
        Some err \<Rightarrow> (False, close_socket (pc_conn pc) (recordError (pc_id pc) (Some err) r))
      | None \<Rightarrow> (True, recordSent (pc_id pc) now (length (m_Text m)) r))"

definition clipboardWriteLoop_step ::
  "time \<Rightarrow> time \<Rightarrow> time \<Rightarrow> time \<Rightarrow> string option \<Rightarrow> inbound_clipboard \<Rightarrow> suppressor \<Rightarrow> registry
     \<Rightarrow> suppressor \<times> registry" where
  "clipboardWriteLoop_step now now' nowFail nowDone wrote nxt sp r =
     (let sp = suppress_add now now' (ib_eventID nxt) (ib_text nxt) sp
      in case wrote of
           Some err \<Rightarrow>
             (let (_, sp) = suppress_consume nowFail (ib_text nxt) sp
              in (sp, recordError (ib_peerID nxt) (Some err) r))
         | None \<Rightarrow> (sp, recordReceived (ib_peerID nxt) nowDone (length (ib_text nxt)) r))"

definition daemon_suppressor :: suppressor where
  "daemon_suppressor = NewSuppressor (5 * second)"

section \<open>What is sent and what is accepted\<close>

lemma local_message_SomeD:
  assumes "local_message maxBytes now rnd x sp = (Some m, sp')"
  obtains event where "x \<noteq> []" "length x \<le> maxBytes" "UUID rnd = Some event"
    "suppress_consume now x sp = (False, sp')"
    "m = empty_message\<lparr>m_Type := ''clipboard'', m_EventID := event, m_MIME := clipboard_mime, m_Text := x\<rparr>"
  using assms by (auto simp: local_message_def split: if_splits prod.splits option.splits)

lemma handle_frame_local:
  assumes "local_message maxBytes now rnd x sp = (Some m, sp')" "maxBytes \<le> maxBytes'"
    "fst (frame_allowed now' w)"
  obtains w' where "handle_frame maxBytes' pid now' m w =
    (Deliver \<lparr>ib_peerID = pid, ib_eventID = m_EventID m, ib_text = x\<rparr>, w')"
  using assms
  by (cases "frame_allowed now' w")
    (auto simp: handle_frame_def empty_message_def elim!: local_message_SomeD)

lemma handle_frame_deliver:
  "handle_frame maxBytes pid now m w = (Deliver b, w') \<Longrightarrow>
     ib_peerID b = pid \<and> ib_text b = m_Text m \<and> ib_text b \<noteq> [] \<and> length (ib_text b) \<le> maxBytes
     \<and> frame_allowed now w = (True, w')"
  by (auto simp: handle_frame_def split: if_splits prod.splits)

section \<open>The frame limit as a window counter\<close>

fun is_deliver :: "read_action \<Rightarrow> bool" where
  "is_deliver (Deliver _) = True"
| "is_deliver _ = False"

text \<open>A reader that has stopped reads nothing more.\<close>

record reader =
  rd_window :: frame_window
  rd_stopped :: bool

definition frame_result :: "nat \<Rightarrow> string \<Rightarrow> time \<times> (read_error + message) \<Rightarrow> reader \<Rightarrow> read_action \<times> reader" where
  "frame_result maxBytes pid x rd =
     (if rd_stopped rd then (Skip, rd)
      else case snd x of
        Inl _ \<Rightarrow> (Skip, rd\<lparr>rd_stopped := True\<rparr>)
      | Inr m \<Rightarrow> (case handle_frame maxBytes pid (fst x) m (rd_window rd) of
          (a, w) \<Rightarrow> (a, \<lparr>rd_window = w, rd_stopped = (a = RateExceeded)\<rparr>)))"

definition reader_view :: "reader \<Rightarrow> (time \<times> nat) option" where
  "reader_view rd = Some (fw_window (rd_window rd), nat (min 30 (fw_count (rd_window rd))))"

lemma frame_allowed_cases:
  obtains (inside) "now < fw_window w + 1000000000"
      "frame_allowed now w = (fw_count w < 30, w\<lparr>fw_count := fw_count w + 1\<rparr>)"
  | (fresh) "fw_window w + 1000000000 \<le> now" "frame_allowed now w = (True, \<lparr>fw_window = now, fw_count = 1\<rparr>)"
proof (cases "second \<le> time_sub now (fw_window w)")
  case True
  then show thesis
    by (intro fresh) (auto simp: frame_allowed_def maxClipboardFramesPerSecond_def time_sub_ge_second)
next
  case False
  then show thesis
    by (intro inside) (auto simp: frame_allowed_def maxClipboardFramesPerSecond_def time_sub_ge_second)
qed

lemma handle_frame_window:
  obtains (kept) a where "handle_frame maxBytes pid now m w = (a, w)" "\<not> is_deliver a" "a \<noteq> RateExceeded"
  | (counted) b w' where "handle_frame maxBytes pid now m w = (Deliver b, w')" "frame_allowed now w = (True, w')"
  | (exceeded) w' where "handle_frame maxBytes pid now m w = (RateExceeded, w')" "frame_allowed now w = (False, w')"
proof (cases "m_Type m = ''clipboard'' \<and> \<not> (m_Text m = [] \<or> m_MIME m \<noteq> clipboard_mime \<or> length (m_Text m) > maxBytes)")
  case True
  obtain ok w' where f: "frame_allowed now w = (ok, w')" by fastforce
  with True show thesis
    by (cases ok) (auto intro: counted exceeded simp: handle_frame_def)
next
  case False
  then show thesis
    by (intro kept [of "fst (handle_frame maxBytes pid now m w)"]) (auto simp: handle_frame_def)
qed

interpretation frames: window_counter
    "\<lambda>x rd. snd (frame_result maxBytes pid x rd)" fst
    "\<lambda>x rd. is_deliver (fst (frame_result maxBytes pid x rd))" reader_view
    "\<lambda>rd. 0 \<le> fw_count (rd_window rd)" 1000000000 30
  for maxBytes pid
proof (unfold_locales, goal_cases)
  case (1 rd x)
  show ?case
  proof (cases "rd_stopped rd \<or> (\<exists>e. snd x = Inl e)")
    case False
    then obtain m where m: "snd x = Inr m" "\<not> rd_stopped rd" by (cases "snd x") auto
    show ?thesis
      by (rule handle_frame_window [of maxBytes pid "fst x" m "rd_window rd"];
          rule frame_allowed_cases [of "fst x" "rd_window rd"])
        (use 1 m in \<open>auto simp: frame_result_def\<close>)
  qed (use 1 in \<open>auto simp: frame_result_def\<close>)
next
  case (2 rd x)
  then obtain m where m: "snd x = Inr m" "\<not> rd_stopped rd"
    by (cases "snd x") (auto simp: frame_result_def split: if_splits)
  show ?case
    by (rule handle_frame_window [of maxBytes pid "fst x" m "rd_window rd"];
        rule frame_allowed_cases [of "fst x" "rd_window rd"])
      (use 2 m in \<open>auto simp: frame_result_def reader_view_def nat_add_distrib\<close>)
next
  case (3 rd x)
  show ?case
  proof (cases "rd_stopped rd \<or> (\<exists>e. snd x = Inl e)")
    case False
    then obtain m where m: "snd x = Inr m" "\<not> rd_stopped rd" by (cases "snd x") auto
    show ?thesis
      by (rule handle_frame_window [of maxBytes pid "fst x" m "rd_window rd"];
          rule frame_allowed_cases [of "fst x" "rd_window rd"])
        (use 3 m in \<open>auto simp: frame_result_def reader_view_def\<close>)
  qed (auto simp: frame_result_def reader_view_def)
next
  case 4
  show ?case by simp
qed

lemma frame_result_simps [simp]:
  "rd_stopped rd \<Longrightarrow> frame_result maxBytes pid x rd = (Skip, rd)"
  "\<not> rd_stopped rd \<Longrightarrow> frame_result maxBytes pid (t, Inl e) rd = (Skip, rd\<lparr>rd_stopped := True\<rparr>)"
  "\<not> rd_stopped rd \<Longrightarrow> handle_frame maxBytes pid t m (rd_window rd) = (a, w) \<Longrightarrow>
     frame_result maxBytes pid (t, Inr m) rd = (a, \<lparr>rd_window = w, rd_stopped = (a = RateExceeded)\<rparr>)"
  by (simp_all add: frame_result_def)

lemma stopped_reads_nothing:
  "rd_stopped rd \<Longrightarrow> let_through (\<lambda>x rd. is_deliver (fst (frame_result maxBytes pid x rd)))
     (\<lambda>x rd. snd (frame_result maxBytes pid x rd)) rs rd = []"
  by (induction rs arbitrary: rd) auto

lemma read_frames_let_through:
  "map fst (filter (\<lambda>(t, a). is_deliver a) (fst (read_frames maxBytes pid rs w))) =
     map fst (let_through (\<lambda>x rd. is_deliver (fst (frame_result maxBytes pid x rd)))
       (\<lambda>x rd. snd (frame_result maxBytes pid x rd)) rs \<lparr>rd_window = w, rd_stopped = False\<rparr>)"
proof (induction maxBytes pid rs w rule: read_frames.induct)
  case (2 maxBytes pid now e rs w)
  then show ?case by (simp add: stopped_reads_nothing)
next
  case (3 maxBytes pid now m rs w)
  obtain a w' where h: "handle_frame maxBytes pid now m w = (a, w')" by fastforce
  note IH = 3 [OF h [symmetric]]
  show ?case
    by (cases a) (use IH h in \<open>auto simp: stopped_reads_nothing split: prod.splits\<close>)
qed simp

section \<open>Where a message goes\<close>

lemma enqueuePeer_idem [simp]: "enqueuePeer m (enqueuePeer m b) = enqueuePeer m b"
  by (simp add: enqueuePeer_eq)

lemma enqueue_all:
  "foldl (\<lambda>boxes c. boxes(c := enqueuePeer m (boxes c))) boxes cs c =
     (if c \<in> set cs then enqueuePeer m (boxes c) else boxes c)"
  by (induction cs arbitrary: boxes) auto

lemma pending_hash_failed_write:
  "pending_hash h (snd (suppress_consume t x (suppress_add now now' ev x s))) \<le> pending_hash h s"
proof -
  let ?s = "suppress_add now now' ev x s"
  obtain hit s' where c: "suppress_consume t x ?s = (hit, s')" by fastforce
  note add = pending_hash_add [of h now now' ev x s]
  show ?thesis
  proof (cases "hit \<or> h \<noteq> sha256 x")
    case True
    with pending_hash_consume [OF c, of h] add show ?thesis by (auto simp: c split: if_splits)
  next
    case False
    then have "s' = suppress_prune t ?s" "\<forall>e \<in> set (sup_entries ?s). t < se_expires e \<longrightarrow> se_hash e \<noteq> h"
      by (cases rule: consume_cases [where now = t and content = x and s = ?s]; use c in auto)+
    then show ?thesis by (simp add: c pending_hash_def suppress_prune_eq filter_empty_conv) 
  qed
qed

section \<open>Properties\<close>

text \<open>
  C8. A text does not come back. A local change on device a becomes a message; device b accepts
  it, writes it to its clipboard, and its watcher reports the change within five seconds: the
  delivered text is the one copied, and b puts nothing into any mailbox. In between, before the
  five seconds are over, b may receive up to 255 other texts and its user may copy any texts but
  this one. (With more received texts the entry is evicted, and after it was consumed once the
  text counts as the user's own again: then it is sent.)
\<close>

theorem text_does_not_come_back:
  assumes "local_message maxA ta rnd_a x sp_a = (Some m, sp_a')"
    and "handle_frame maxB pid tb m w = (Deliver b, w')"
    and "clipboardWriteLoop_step now now' nowFail nowDone None b sp_b r = (sp_b', r')"
    and "sup_ttl sp_b = 5 * second"
    and "list_all (leaves_alone (now' + 5 * second) (sha256 x)) ops" "length (filter is_add ops) \<le> 255"
    and "t < now' + 5 * second"
  shows "ib_text b = x
    \<and> snd (localLoop_step maxB t rnd_b x r2 (snd (suppress_run ops sp_b')) boxes) = boxes"
proof -
  from assms(1) have "m_Text m = x" by (auto elim!: local_message_SomeD)
  with handle_frame_deliver [OF assms(2)] have same: "ib_text b = x" by simp
  with assms(3) have "sp_b' = suppress_add now now' (ib_eventID b) x sp_b"
    by (auto simp: clipboardWriteLoop_step_def Let_def)
  with recorded_is_consumed [of now' sp_b x ops t now "ib_eventID b"] assms(4-7)
  have "fst (suppress_consume t x (snd (suppress_run ops sp_b')))" by simp
  then have "fst (local_message maxB t rnd_b x (snd (suppress_run ops sp_b'))) = None"
    by (auto simp: local_message_def split: prod.splits)
  with same show ?thesis
    by (auto simp: localLoop_step_def split: prod.splits option.splits)
qed

text \<open>
  A text that could not be written does not silence the user. When the clipboard write fails,
  no digest is left recorded more often than before, so copying that very text locally is sent
  to every registered connection and to no other.
\<close>

theorem failed_write_suppresses_nothing:
  assumes "clipboardWriteLoop_step now now' nowFail nowDone (Some err) b sp r = (sp', r')"
    and "pending_hash (sha256 (ib_text b)) sp = 0"
    and "ib_text b \<noteq> []" "length (ib_text b) \<le> maxBytes" "length rb = 16"
  shows "\<exists>m. m_Text m = ib_text b \<and> (\<forall>c. snd (localLoop_step maxBytes t (Some rb) (ib_text b) r' sp' boxes) c
      = (if c \<in> pc_ref ` snd ` set (rg_conns r) then enqueuePeer m (boxes c) else boxes c))"
proof -
  let ?x = "ib_text b"
  have sp': "sp' = snd (suppress_consume nowFail ?x (suppress_add now now' (ib_eventID b) ?x sp))"
      and conns: "rg_conns r' = rg_conns r"
    using assms(1) by (auto simp: clipboardWriteLoop_step_def recordError_def Let_def split: prod.splits)
  have "pending_hash (sha256 ?x) sp' = 0"
    using pending_hash_failed_write [of "sha256 ?x" nowFail ?x now now' "ib_eventID b" sp] assms(2)
    by (simp add: sp')
  then have "\<not> fst (suppress_consume t ?x sp')"
    using pending_hash_consume [of t ?x sp' True _ "sha256 ?x"]
    by (cases "suppress_consume t ?x sp'") auto
  then obtain spx m where "local_message maxBytes t (Some rb) ?x sp' = (Some m, spx)" "m_Text m = ?x"
  proof -
    obtain spx where "suppress_consume t ?x sp' = (False, spx)"
      using \<open>\<not> fst (suppress_consume t ?x sp')\<close> by (cases "suppress_consume t ?x sp'") auto
    moreover obtain u where "UUID (Some rb) = Some u" by (simp add: UUID_def Let_def)
    ultimately show thesis
      using assms(3,4) by (intro that) (auto simp: local_message_def empty_message_def)
  qed
  then show ?thesis
    by (intro exI [of _ m]) (auto simp: localLoop_step_def conns enqueue_all image_iff split: prod.splits)
qed

text \<open>
  C29. A peer cannot flood the clipboard. On one connection, whatever the peer sends, at most 60
  texts are handed to the clipboard writer in any second (twice the limit of one window), and
  every one of them is non-empty and within the size limit.
\<close>

theorem clipboard_frames_are_bounded:
  assumes "sorted (map fst rs)" "\<forall>x \<in> set rs. 0 < fst x" "0 \<le> fw_count w"
  shows "length (filter (\<lambda>(t, a). is_deliver a \<and> t0 \<le> t \<and> t < t0 + second)
           (fst (read_frames maxBytes pid rs w))) \<le> 60
    \<and> (\<forall>(t, a) \<in> set (fst (read_frames maxBytes pid rs w)).
         \<forall>b. a = Deliver b \<longrightarrow> ib_peerID b = pid \<and> ib_text b \<noteq> [] \<and> length (ib_text b) \<le> maxBytes)"
proof
  let ?out = "fst (read_frames maxBytes pid rs w)" and ?rd = "\<lparr>rd_window = w, rd_stopped = False\<rparr>"
  let ?lt = "let_through (\<lambda>x rd. is_deliver (fst (frame_result maxBytes pid x rd)))
      (\<lambda>x rd. snd (frame_result maxBytes pid x rd)) rs ?rd"
  let ?in = "\<lambda>t. t0 \<le> t \<and> t < t0 + second"
  have "frames.within ?rd" using assms(3) by (simp add: frames.within_def reader_view_def)
  note bound = frames.burst_bound [OF this assms(1,2), of t0 maxBytes pid]
  have "length (filter (\<lambda>(t, a). is_deliver a \<and> ?in t) ?out)
      = length (filter ?in (map fst (filter (\<lambda>(t, a). is_deliver a) ?out)))"
    by (simp add: filter_map comp_def case_prod_unfold conj_commute)
  also have "\<dots> = length (filter (\<lambda>x. ?in (fst x)) ?lt)"
    unfolding read_frames_let_through by (simp add: filter_map comp_def)
  also have "\<dots> \<le> 60" using bound by (simp add: second_def)
  finally show "length (filter (\<lambda>(t, a). is_deliver a \<and> ?in t) ?out) \<le> 60" .
  show "\<forall>(t, a) \<in> set ?out. \<forall>b. a = Deliver b \<longrightarrow> ib_peerID b = pid \<and> ib_text b \<noteq> [] \<and> length (ib_text b) \<le> maxBytes"
    by (induction maxBytes pid rs w rule: read_frames.induct)
      (auto split: read_action.splits prod.splits dest: handle_frame_deliver)
qed

section \<open>Samples\<close>

definition sample_text_message :: message where
  "sample_text_message = empty_message\<lparr>m_Type := ''clipboard'', m_EventID := the (UUID (Some (replicate 16 CHR ''r''))),
     m_MIME := clipboard_mime, m_Text := ''hi''\<rparr>"

definition sample_inbound :: inbound_clipboard where
  "sample_inbound = \<lparr>ib_peerID = ''a'', ib_eventID = m_EventID sample_text_message, ib_text = ''hi''\<rparr>"

definition sample_registered_one :: registry where
  "sample_registered_one = new_registry\<lparr>rg_conns := [(''b'', \<lparr>pc_ref = 1, pc_id = ''b'', pc_conn = 1,
     pc_addr = [], pc_outbound = True\<rparr>)]\<rparr>"

lemma daemon_suppressor_consume [simp]:
  "suppress_consume t x daemon_suppressor = (False, daemon_suppressor)"
  by (simp add: suppress_consume_def suppress_prune_eq daemon_suppressor_def NewSuppressor_def)

lemma sample_local:
  "local_message 10 1 (Some (replicate 16 CHR ''r'')) ''hi'' daemon_suppressor
     = (Some sample_text_message, daemon_suppressor)"
proof -
  obtain u where "UUID (Some (replicate 16 CHR ''r'')) = Some u" by (simp add: UUID_def Let_def)
  then show ?thesis by (simp add: local_message_def sample_text_message_def)
qed

lemma sample_handled:
  "handle_frame 10 ''a'' 5 sample_text_message \<lparr>fw_window = 1, fw_count = 0\<rparr>
     = (Deliver sample_inbound, \<lparr>fw_window = 1, fw_count = 1\<rparr>)"
  by (simp add: handle_frame_def frame_allowed_def sample_text_message_def sample_inbound_def
      empty_message_def maxClipboardFramesPerSecond_def time_sub_def second_def min_int64_def max_int64_def)

theorem text_does_not_come_back_witness:
  "\<forall>boxes. snd (localLoop_step 10 9 None ''hi'' new_registry
     (fst (clipboardWriteLoop_step 6 7 8 8 None sample_inbound daemon_suppressor new_registry)) boxes) = boxes"
proof
  fix boxes
  obtain sp' r' where w: "clipboardWriteLoop_step 6 7 8 8 None sample_inbound daemon_suppressor new_registry = (sp', r')"
    by fastforce
  from text_does_not_come_back [OF sample_local sample_handled w, where ops = "[]" and t = 9
      and rnd_b = None and ?r2.0 = new_registry and boxes = boxes]
  have "snd (localLoop_step 10 9 None ''hi'' new_registry sp' boxes) = boxes"
    by (simp add: daemon_suppressor_def NewSuppressor_def second_def)
  then show "snd (localLoop_step 10 9 None ''hi'' new_registry
     (fst (clipboardWriteLoop_step 6 7 8 8 None sample_inbound daemon_suppressor new_registry)) boxes) = boxes"
    by (simp add: w)
qed

theorem failed_write_suppresses_nothing_witness:
  "\<forall>boxes. \<exists>m. m_Text m = ''hi'' \<and> (\<forall>c. snd (localLoop_step 10 9 (Some (replicate 16 CHR ''r'')) ''hi''
      (snd (clipboardWriteLoop_step 6 7 8 8 (Some ''denied'') sample_inbound daemon_suppressor sample_registered_one))
      (fst (clipboardWriteLoop_step 6 7 8 8 (Some ''denied'') sample_inbound daemon_suppressor sample_registered_one))
      boxes) c = (if c = 1 then enqueuePeer m (boxes c) else boxes c))"
  (is "\<forall>boxes. ?P boxes")
proof
  fix boxes
  obtain sp' r' where w: "clipboardWriteLoop_step 6 7 8 8 (Some ''denied'') sample_inbound daemon_suppressor
      sample_registered_one = (sp', r')"
    by fastforce
  have "ib_text sample_inbound = ''hi''" "pending_hash h daemon_suppressor = 0"
      "pc_ref ` snd ` set (rg_conns sample_registered_one) = {1}" for h
    by (simp_all add: sample_inbound_def pending_hash_def daemon_suppressor_def NewSuppressor_def
        sample_registered_one_def)
  with failed_write_suppresses_nothing [OF w, where maxBytes = 10 and rb = "replicate 16 CHR ''r''"
      and t = 9 and boxes = boxes]
  show "?P boxes" by (simp add: w)
qed

theorem clipboard_frames_are_bounded_witness:
  "length (filter (\<lambda>(t, a). is_deliver a \<and> 5 \<le> t \<and> t < 5 + second)
     (fst (read_frames 10 ''a'' [(5, Inr sample_text_message)] \<lparr>fw_window = 1, fw_count = 0\<rparr>))) \<le> 60"
  using clipboard_frames_are_bounded [of "[(5, Inr sample_text_message)]" "\<lparr>fw_window = 1, fw_count = 0\<rparr>" 5 10 "''a''"]
  by simp

end
