(* ===== verification/Admission.thy ===== *)
theory Admission
  imports Sync_Session
begin

text \<open>
  How connections are let in (\<open>internal/daemon/daemon.go\<close>): \<open>acceptLoop\<close> takes a connection from a
  directly connected address when one of 32 handshake slots is free, and \<open>handleTLS\<close> gives the
  slot back, either right after a successful handshake or, on every other path, when it returns.

  A slot is an element of the channel \<open>handshakes\<close>; \<open>handshakeDone\<close> takes one out. Outgoing
  connections (\<open>dialSync\<close>) hold no slot: their \<open>handshakeDone\<close> is nil.
\<close>

section \<open>handleTLS\<close>

datatype tls_route = Hang_Up | To_Pairing | To_Sync bool

text \<open>
  The route a connection takes and how often \<open>handshakeDone\<close> is called: inside the function and
  by the deferred call, which checks whether it is still set.
\<close>

definition handleTLS ::
  "string option \<Rightarrow> string option \<Rightarrow> string \<Rightarrow> bool \<Rightarrow> bool \<Rightarrow> tls_route \<times> nat \<times> nat" where
  "handleTLS deadline handshake negotiated outbound slot =
     (let deferred = (\<lambda>slot. if slot then 1 else 0)
      in if deadline \<noteq> None then (Hang_Up, 0, deferred slot)
         else if handshake \<noteq> None then (Hang_Up, 0, deferred slot)
         else
           let (called, slot) = (if slot then (1, False) else (0, slot));
               route = (if negotiated = ALPNPair then To_Pairing
                        else if negotiated = ALPNSync then To_Sync outbound
                        else Hang_Up)
           in (route, called, deferred slot))"

section \<open>acceptLoop\<close>

definition maxConcurrentHandshakes :: nat where
  "maxConcurrentHandshakes = 32"

datatype admission = Refused_Outside | Refused_Busy | Admitted

text \<open>
  One accepted connection: its remote address is \<open>None\<close> when it is not a TCP address; the result
  has the number of slots taken afterwards.
\<close>

definition accept_one ::
  "(rune \<Rightarrow> rune) \<Rightarrow> (string + net_interface list) \<Rightarrow> ip option option \<Rightarrow> nat \<Rightarrow> admission \<times> nat" where
  "accept_one tab ifaces remote slots =
     (case remote of
        None \<Rightarrow> (Refused_Outside, slots)
      | Some ip \<Rightarrow>
          if \<not> IsDirectLANIP tab ifaces ip then (Refused_Outside, slots)
          else if slots < maxConcurrentHandshakes then (Admitted, slots + 1)
          else (Refused_Busy, slots))"

section \<open>All connections\<close>

text \<open>
  The handlers of incoming connections that are running, and the slots taken. A handler is in its
  handshake, or it serves the connection and will make the deferred calls of \<open>handshakeDone\<close> that
  \<open>handleTLS\<close> has left for its return. Each call receives from the channel and waits when it is empty.
\<close>

datatype handler_phase = Handshaking | Serving tls_route nat

record admissions =
  ad_slots :: nat
  ad_handlers :: "(nat \<times> handler_phase) list"

inductive admission_step ::
  "(rune \<Rightarrow> rune) \<Rightarrow> (string + net_interface list) \<Rightarrow> admissions \<Rightarrow> admissions \<Rightarrow> bool"
  for tab and ifaces where
  accepted: "c \<notin> set (map fst (ad_handlers a)) \<Longrightarrow> accept_one tab ifaces remote (ad_slots a) = (Admitted, n)
    \<Longrightarrow> admission_step tab ifaces a (a\<lparr>ad_slots := n, ad_handlers := (c, Handshaking) # ad_handlers a\<rparr>)"
| refused: "accept_one tab ifaces remote (ad_slots a) = (r, n) \<Longrightarrow> r \<noteq> Admitted
    \<Longrightarrow> admission_step tab ifaces a (a\<lparr>ad_slots := n\<rparr>)"
| failed: "(c, Handshaking) \<in> set (ad_handlers a) \<Longrightarrow> deadline \<noteq> None \<or> handshake \<noteq> None
    \<Longrightarrow> handleTLS deadline handshake p False True = (route, called, deferred) \<Longrightarrow> called + deferred \<le> ad_slots a
    \<Longrightarrow> admission_step tab ifaces a (a\<lparr>ad_slots := ad_slots a - (called + deferred),
          ad_handlers := mdel c (ad_handlers a)\<rparr>)"
| handshaken: "(c, Handshaking) \<in> set (ad_handlers a)
    \<Longrightarrow> handleTLS None None p False True = (route, called, deferred) \<Longrightarrow> called \<le> ad_slots a
    \<Longrightarrow> admission_step tab ifaces a (a\<lparr>ad_slots := ad_slots a - called,
          ad_handlers := mput c (Serving route deferred) (ad_handlers a)\<rparr>)"
| returned: "(c, Serving route deferred) \<in> set (ad_handlers a) \<Longrightarrow> deferred \<le> ad_slots a
    \<Longrightarrow> admission_step tab ifaces a (a\<lparr>ad_slots := ad_slots a - deferred,
          ad_handlers := mdel c (ad_handlers a)\<rparr>)"

definition in_handshake :: "(nat \<times> handler_phase) list \<Rightarrow> nat" where
  "in_handshake hs = length (filter (\<lambda>(c, ph). ph = Handshaking) hs)"

definition admissions_ok :: "admissions \<Rightarrow> bool" where
  "admissions_ok a \<longleftrightarrow> wf_map (ad_handlers a) \<and> ad_slots a \<le> maxConcurrentHandshakes
     \<and> ad_slots a = in_handshake (ad_handlers a)
     \<and> (\<forall>c route n. (c, Serving route n) \<in> set (ad_handlers a) \<longrightarrow> n = 0)"

lemma in_handshake_simps [simp]:
  "in_handshake [] = 0" "in_handshake ((c, Handshaking) # hs) = in_handshake hs + 1"
  "in_handshake ((c, Serving route n) # hs) = in_handshake hs"
  by (simp_all add: in_handshake_def)

lemma in_handshake_pos: "(c, Handshaking) \<in> set hs \<Longrightarrow> 0 < in_handshake hs"
  by (force simp: in_handshake_def filter_empty_conv)

lemma in_handshake_change:
  assumes "wf_map hs" "(c, ph) \<in> set hs"
  shows "in_handshake (mdel c hs) = in_handshake hs - (if ph = Handshaking then 1 else 0)"
    and "in_handshake (mput c (Serving route n) hs) = in_handshake hs - (if ph = Handshaking then 1 else 0)"
  using assms
proof (induction hs)
  case (Cons e hs)
  {
    case 1
    show ?case
    proof (cases "fst e = c")
      case True
      with 1 have "e = (c, ph)" "mdel c hs = hs"
        by (auto simp: wf_map_def image_iff AList.delete_eq filter_id_conv)
      then show ?thesis by (cases ph) simp_all
    next
      case False
      with 1 have hs: "wf_map hs" "(c, ph) \<in> set hs" by (auto simp: wf_map_def)
      obtain i q where e: "e = (i, q)" by (cases e)
      from Cons.IH(1) [OF hs] in_handshake_pos [of c hs] hs(2) False show ?thesis
        unfolding e by (cases q) auto
    qed
  next
    case 2
    show ?case
    proof (cases "fst e = c")
      case True
      with 2 have "e = (c, ph)" by (auto simp: wf_map_def image_iff)
      then show ?thesis by (cases ph) simp_all
    next
      case False
      with 2 have hs: "wf_map hs" "(c, ph) \<in> set hs" by (auto simp: wf_map_def)
      obtain i q where e: "e = (i, q)" by (cases e)
      from Cons.IH(2) [OF hs] in_handshake_pos [of c hs] hs(2) False show ?thesis
        unfolding e by (cases q) auto
    qed
  }
qed simp_all

lemma accept_one_cases:
  "accept_one tab ifaces remote n = (r, n') \<Longrightarrow>
     (r = Admitted \<and> n' = n + 1 \<and> n < 32 \<and> (\<exists>ip. remote = Some ip \<and> IsDirectLANIP tab ifaces ip))
     \<or> (r \<noteq> Admitted \<and> n' = n)"
  by (auto simp: accept_one_def maxConcurrentHandshakes_def split: option.splits if_splits)

lemma admission_step_ok: "admission_step tab ifaces a a' \<Longrightarrow> admissions_ok a \<Longrightarrow> admissions_ok a'"
proof (induction rule: admission_step.induct)
  case (accepted c a remote n)
  with accept_one_cases [OF accepted(2)] show ?case
    by (auto simp: admissions_ok_def wf_map_def maxConcurrentHandshakes_def)
next
  case (refused remote a r n)
  with accept_one_cases [OF refused(1)] show ?case by (simp add: admissions_ok_def)
next
  case (failed c a deadline handshake p route called deferred)
  then have "called + deferred = 1" by (auto simp: handleTLS_def Let_def split: if_splits)
  with failed show ?case by (auto simp: admissions_ok_def in_handshake_change(1) set_mdel)
next
  case (handshaken c a p route called deferred)
  then have "called = 1" "deferred = 0" by (auto simp: handleTLS_def Let_def split: if_splits)
  with handshaken show ?case
    by (auto simp: admissions_ok_def in_handshake_change(2) dest!: mem_mputD)
next
  case (returned c route deferred a)
  then have "deferred = 0" by (auto simp: admissions_ok_def)
  with returned show ?case by (auto simp: admissions_ok_def in_handshake_change(1) set_mdel)
qed

section \<open>Properties\<close>

text \<open>
  C28. Strangers cannot exhaust the daemon. At every moment at most 32 incoming connections are
  before the end of their handshake, and the slots taken are exactly those connections: no path
  through a handler loses a slot or gives one back twice, so when no handshake is pending all 32
  slots are free; and a connection past its handshake will give nothing back when its handler
  returns, so no handler ever waits for a slot that is not there.
\<close>

theorem handshakes_are_bounded:
  assumes "(admission_step tab ifaces)\<^sup>*\<^sup>* \<lparr>ad_slots = 0, ad_handlers = []\<rparr> a"
  shows "in_handshake (ad_handlers a) = ad_slots a \<and> ad_slots a \<le> 32
    \<and> (\<forall>c route n. (c, Serving route n) \<in> set (ad_handlers a) \<longrightarrow> n = 0)"
proof -
  have "admissions_ok a"
    using assms
  proof (induction rule: rtranclp_induct)
    case base
    show ?case by (simp add: admissions_ok_def)
  qed (blast intro: admission_step_ok)
  then show ?thesis by (auto simp: admissions_ok_def maxConcurrentHandshakes_def)
qed

text \<open>
  A connection's slot is given back exactly once on every path through \<open>handleTLS\<close>, and its
  messages are read only after a successful handshake with one of the two protocols.
\<close>

theorem handshake_slot_released_once:
  "case handleTLS deadline handshake negotiated outbound slot of (route, called, deferred) \<Rightarrow>
     called + deferred = (if slot then 1 else 0)
     \<and> (route \<noteq> Hang_Up \<longleftrightarrow> deadline = None \<and> handshake = None \<and> negotiated \<in> {ALPNPair, ALPNSync})"
  by (auto simp: handleTLS_def Let_def ALPNPair_def ALPNSync_def)

theorem handshakes_are_bounded_witness:
  "in_handshake [(2, Handshaking), (1, Serving (To_Sync False) 0)] = (1::nat) \<and> (1::nat) \<le> 32"
proof -
  let ?step = "admission_step (\<lambda>r. r) (Inr [sample_iface])"
  have "IsDirectLANIP (\<lambda>r. r) (Inr [sample_iface]) (Some [192, 168, 1, 20])" by code_simp
  then have "accept_one (\<lambda>r. r) (Inr [sample_iface]) (Some (Some [192, 168, 1, 20])) 0 = (Admitted, 1)"
    by (simp add: accept_one_def maxConcurrentHandshakes_def)
  note accept = admission_step.accepted [where remote = "Some (Some [192, 168, 1, 20])" and n = 1, unfolded this]
  have "?step \<lparr>ad_slots = 0, ad_handlers = []\<rparr> \<lparr>ad_slots = 1, ad_handlers = [(1, Handshaking)]\<rparr>"
    using accept [of 1 "\<lparr>ad_slots = 0, ad_handlers = []\<rparr>"] \<open>accept_one _ _ _ 0 = _\<close> by simp
  moreover have "handleTLS None None ALPNSync False True = (To_Sync False, 1, 0)"
    by (simp add: handleTLS_def ALPNSync_def ALPNPair_def)
  then have "?step \<lparr>ad_slots = 1, ad_handlers = [(1, Handshaking)]\<rparr> \<lparr>ad_slots = 0, ad_handlers = [(1, Serving (To_Sync False) 0)]\<rparr>"
    using admission_step.handshaken [of 1 "\<lparr>ad_slots = 1, ad_handlers = [(1, Handshaking)]\<rparr>" ALPNSync "To_Sync False" 1 0]
    by simp
  moreover have "?step \<lparr>ad_slots = 0, ad_handlers = [(1, Serving (To_Sync False) 0)]\<rparr>
      \<lparr>ad_slots = 1, ad_handlers = [(2, Handshaking), (1, Serving (To_Sync False) 0)]\<rparr>"
    using accept [of 2 "\<lparr>ad_slots = 0, ad_handlers = [(1, Serving (To_Sync False) 0)]\<rparr>"] \<open>accept_one _ _ _ 0 = _\<close> by simp
  ultimately have "?step\<^sup>*\<^sup>* \<lparr>ad_slots = 0, ad_handlers = []\<rparr>
      \<lparr>ad_slots = 1, ad_handlers = [(2, Handshaking), (1, Serving (To_Sync False) 0)]\<rparr>"
    by (meson converse_rtranclp_into_rtranclp rtranclp.rtrancl_refl)
  from handshakes_are_bounded [OF this] show ?thesis by simp
qed

end
