(* ===== verification/Startup.thy ===== *)
theory Startup
  imports Config_File Identity_File Remote_Control Pairing_Restart Clipboard_Flow Rate_Limit Admission
begin

text \<open>
  From the command line to a running daemon: \<open>main\<close>, \<open>run\<close> and \<open>runDaemon\<close> of
  \<open>cmd/lanclip/main.go\<close>, \<open>runCLI\<close> of \<open>cmd/lanclip/cli.go\<close>, and \<open>New\<close>, \<open>Run\<close> and \<open>close\<close> of
  \<open>internal/daemon/daemon.go\<close>.
\<close>

section \<open>A daemon's life\<close>

text \<open>What \<open>New\<close> starts from.\<close>

record fresh_daemon =
  fd_cfg :: config
  fd_own :: identity
  fd_store :: store
  fd_started :: time
  fd_suppress :: suppressor
  fd_registry :: registry
  fd_clipWrites :: "inbound_clipboard mailbox"
  fd_handshakes :: nat
  fd_limiter :: rate_limiter

definition daemon_New :: "config \<Rightarrow> identity \<Rightarrow> store \<Rightarrow> time \<Rightarrow> fresh_daemon" where
  "daemon_New cfg own s now =
     \<lparr>fd_cfg = cfg, fd_own = own, fd_store = s, fd_started = now, fd_suppress = daemon_suppressor,
      fd_registry = new_registry, fd_clipWrites = \<lparr>mb_out = None, mb_done = False\<rparr>, fd_handshakes = 0,
      fd_limiter = new_limiter\<rparr>"

text \<open>
  A life is what is opened, shut and started, in this order: by \<open>Run\<close> and \<open>close\<close> themselves, and by
  the handlers of connections (accepted or dialled, whose handler closes them when it returns).
  \<open>Cut\<close> is the close of a connection by \<open>Daemon.close\<close>.
\<close>

datatype resource = R_Listener | R_Discovery | R_Clipboard | R_Control
datatype loop = L_Discovery | L_Accept | L_Local | L_ClipboardWrite | L_Connect
datatype handler_event = Connected nat | Hung_Up nat
datatype life_event = Opened resource | Shut resource | Started loop | Handler handler_event | Cut nat

record run_errors =
  re_tls :: "string option"
  re_listen :: "string option"
  re_discovery :: "string option"
  re_clipboard :: "string option"
  re_control :: "string option"

text \<open>
  The flags say which fields of the daemon are set. Of the connections that are open when the
  daemon stops, \<open>close\<close> knows the registered ones only: a connection in its handshake, its greeting
  or a pairing is left to its handler.
\<close>

definition daemon_close :: "bool \<Rightarrow> bool \<Rightarrow> bool \<Rightarrow> bool \<Rightarrow> registry \<Rightarrow> life_event list \<times> registry" where
  "daemon_close ctl listener disc clip r =
     ((if ctl then [Shut R_Control] else []) @ (if listener then [Shut R_Listener] else [])
      @ (if disc then [Shut R_Discovery] else []) @ (if clip then [Shut R_Clipboard] else [])
      @ map (\<lambda>(_, c). Cut (pc_conn c)) (rg_conns r), close_all r)"

text \<open>
  \<open>activity\<close> is what the handlers of connections do while the daemon runs, \<open>r\<close> the registry they have
  made of it when the daemon is told to stop.
\<close>

definition daemon_Run ::
  "run_errors \<Rightarrow> handler_event list \<Rightarrow> registry \<Rightarrow> string option \<times> life_event list \<times> registry" where
  "daemon_Run re activity r =
     (case re_tls re of Some e \<Rightarrow> (Some e, [], new_registry) | None \<Rightarrow>
     (case re_listen re of Some e \<Rightarrow> (Some (''listen: '' @ e), [], new_registry) | None \<Rightarrow>
      let opened = [Opened R_Listener] in
     (case re_discovery re of Some e \<Rightarrow> (Some (''discovery: '' @ e), opened @ [Shut R_Listener], new_registry) | None \<Rightarrow>
      let opened = opened @ [Opened R_Discovery] in
     (case re_clipboard re of
        Some e \<Rightarrow> (Some (''clipboard: '' @ e), opened @ [Shut R_Discovery, Shut R_Listener], new_registry) | None \<Rightarrow>
      let opened = opened @ [Opened R_Clipboard] in
     (case re_control re of
        Some e \<Rightarrow> (Some (''control: '' @ e), opened @ [Shut R_Clipboard, Shut R_Discovery, Shut R_Listener], new_registry)
      | None \<Rightarrow>
      let opened = opened @ [Opened R_Control];
          (closing, r) = daemon_close True True True True r in
      (None, opened @ map Started [L_Discovery, L_Accept, L_Local, L_ClipboardWrite, L_Connect]
         @ map Handler activity @ closing, r))))))"

section \<open>runDaemon\<close>

record world =
  wo_os :: os
  wo_peers :: disk

record start_env =
  se_faults :: faults
  se_marshal :: "config \<Rightarrow> string + string"
  se_unmarshal :: "string \<Rightarrow> string + config"
  se_device :: string
  se_tools :: key_tools
  se_pem :: "string \<Rightarrow> (string \<times> string) option \<times> string"
  se_x509 :: "string \<Rightarrow> certificate option"
  se_pkcs8 :: "string \<Rightarrow> private_key option"
  se_store :: store_env
  se_decode :: "string \<Rightarrow> peer_map option"
  se_read :: "string option"
  se_now :: time
  se_run :: run_errors
  se_activity :: "handler_event list"
  se_registry :: registry

datatype start_error =
    Start_Config config_error | Start_Identity identity_file_error | Start_Private private_error
  | Start_Store store_error | Start_Run string

text \<open>The result, the daemon that \<open>Run\<close> was called on, and what is left on disk.\<close>

definition runDaemon ::
  "start_env \<Rightarrow> paths \<Rightarrow> world \<Rightarrow> start_error option \<times> fresh_daemon option \<times> world" where
  "runDaemon en paths w =
     (case config_LoadOrCreate (se_faults en) (se_marshal en) (se_unmarshal en) (se_device en) paths (wo_os w) of
        (Inl e, s) \<Rightarrow> (Some (Start_Config e), None, w\<lparr>wo_os := s\<rparr>)
      | (Inr cfg, s) \<Rightarrow>
     (case identity_LoadOrCreate (se_faults en) (se_tools en) (se_pem en) (se_x509 en) (se_pkcs8 en) (se_now en)
             (pa_Identity paths) s of
        (Inl e, s) \<Rightarrow> (Some (Start_Identity e), None, w\<lparr>wo_os := s\<rparr>)
      | (Inr own, s) \<Rightarrow>
      let w = w\<lparr>wo_os := s\<rparr> in
     (case CheckPrivate (os_Stat (se_faults en) s) (pa_Identity paths) of
        Some e \<Rightarrow> (Some (Start_Private e), None, w)
      | None \<Rightarrow>
     (case Load (se_store en) (se_decode en) (se_read en) (wo_peers w) of
        Inl e \<Rightarrow> (Some (Start_Store e), None, w)
      | Inr store \<Rightarrow>
          let d = daemon_New cfg own store (se_now en)
          in (map_option Start_Run (fst (daemon_Run (se_run en) (se_activity en) (se_registry en))), Some d,
              w\<lparr>wo_peers := st_disk store\<rparr>)))))"

section \<open>runCLI and main\<close>

record cli_env =
  ce_version :: string
  ce_os :: string
  ce_arch :: string
  ce_paths :: "string + paths"
  ce_watch_event :: "string \<Rightarrow> int \<Rightarrow> string option"
  ce_daemon :: "paths \<Rightarrow> string option"

text \<open>\<open>ce_watch_event\<close> is \<open>SendWatchEvent\<close> to a socket with a limit, and \<open>ce_daemon\<close> is \<open>runDaemon\<close>.\<close>

definition runCLI ::
  "cli_env \<Rightarrow> client \<Rightarrow> (string \<Rightarrow> 'd caller) \<Rightarrow> string list \<Rightarrow> io \<Rightarrow> 'd \<Rightarrow> string option \<times> io \<times> 'd" where
  "runCLI ce cl call args s d =
     (if args = [] \<or> length args = 1 \<and> args ! 0 \<in> {''help'', ''-h'', ''--help''} then (None, put printHelp s, d)
      else if args ! 0 = ''version'' then
        (if length args \<noteq> 1 then (Some usageError, s, d)
         else (None, putln (''Lanclip '' @ ce_version ce @ '' ('' @ ce_os ce @ ''/'' @ ce_arch ce @ '')'') s, d))
      else if args ! 0 = ''clipboard-event'' then
        (if length args \<noteq> 2 then (Some ''invalid internal callback'', s, d) else (ce_watch_event ce (args ! 1) MaxPayload, s, d))
      else case ce_paths ce of
        Inl e \<Rightarrow> (Some e, s, d)
      | Inr paths \<Rightarrow>
          if args ! 0 = ''daemon'' then
            (if length args \<noteq> 1 then (Some usageError, s, d) else (ce_daemon ce paths, s, d))
          else runControl cl (call (pa_Socket paths)) (args ! 0) (tl args) s d)"

text \<open>The exit code and what is written to standard error.\<close>

definition main_exit :: "string option \<Rightarrow> nat \<times> string" where
  "main_exit e = (case e of Some e \<Rightarrow> (1, ln (''lanclip: '' @ e)) | None \<Rightarrow> (0, []))"

section \<open>Properties\<close>

definition opened_in :: "life_event list \<Rightarrow> resource list" where
  "opened_in es = List.map_filter (\<lambda>e. case e of Opened r \<Rightarrow> Some r | _ \<Rightarrow> None) es"

definition shut_in :: "life_event list \<Rightarrow> resource list" where
  "shut_in es = List.map_filter (\<lambda>e. case e of Shut r \<Rightarrow> Some r | _ \<Rightarrow> None) es"

lemma life_append [simp]:
  "opened_in (xs @ ys) = opened_in xs @ opened_in ys" "shut_in (xs @ ys) = shut_in xs @ shut_in ys"
  by (simp_all add: opened_in_def shut_in_def map_filter_def)

lemma life_simps [simp]:
  "opened_in [] = []" "opened_in (Opened r # es) = r # opened_in es" "opened_in (Shut r # es) = opened_in es"
  "opened_in (Started l # es) = opened_in es" "opened_in (Handler h # es) = opened_in es" "opened_in (Cut c # es) = opened_in es"
  "shut_in [] = []" "shut_in (Opened r # es) = shut_in es" "shut_in (Shut r # es) = r # shut_in es"
  "shut_in (Started l # es) = shut_in es" "shut_in (Handler h # es) = shut_in es" "shut_in (Cut c # es) = shut_in es"
  by (simp_all add: opened_in_def shut_in_def map_filter_def)

lemma life_maps [simp]:
  "opened_in (map Opened rs) = rs" "shut_in (map Opened rs) = []" "opened_in (map Shut rs) = []" "shut_in (map Shut rs) = rs"
  "opened_in (map Handler hs) = []" "shut_in (map Handler hs) = []"
  "opened_in (map (\<lambda>(_, c). Cut (f c)) cs) = []" "shut_in (map (\<lambda>(_, c). Cut (f c)) cs) = []"
proof -
  show "opened_in (map Opened rs) = rs" "shut_in (map Opened rs) = []" "opened_in (map Shut rs) = []" "shut_in (map Shut rs) = rs"
    by (induction rs) simp_all
  show "opened_in (map Handler hs) = []" "shut_in (map Handler hs) = []" by (induction hs) simp_all
  show "opened_in (map (\<lambda>(_, c). Cut (f c)) cs) = []" "shut_in (map (\<lambda>(_, c). Cut (f c)) cs) = []"
    by (induction cs) auto
qed

text \<open>What does not occur in the first part of a trace has all of that part before it.\<close>

lemma not_before:
  assumes "os @ ss = before @ x # after" "x \<notin> set os"
  obtains y where "before = os @ y" "ss = y @ x # after"
proof -
  from assms(1) consider y where "os = before @ y" "y @ ss = x # after" | y where "before = os @ y" "ss = y @ x # after"
    by (auto simp: append_eq_append_conv2)
  then show thesis
  proof cases
    case (1 y)
    with assms(2) have "y = []" by (cases y) auto
    with 1 show ?thesis by (intro that [of "[]"]) simp_all
  qed (rule that)
qed

text \<open>The two shapes of a run: what was opened and started, and then what is shut.\<close>

lemma daemon_Run_shape:
  assumes "daemon_Run re activity r = (e, es, r')"
  obtains (failed) n where "e \<noteq> None" "n < 4" "r' = new_registry"
      "es = map Opened (take n [R_Listener, R_Discovery, R_Clipboard]) @ map Shut (rev (take n [R_Listener, R_Discovery, R_Clipboard]))"
  | (ended) "e = None" "r' = close_all r" "es = (map Opened [R_Listener, R_Discovery, R_Clipboard, R_Control]
      @ map Started [L_Discovery, L_Accept, L_Local, L_ClipboardWrite, L_Connect] @ map Handler activity)
      @ map Shut [R_Control, R_Listener, R_Discovery, R_Clipboard] @ map (\<lambda>(_, c). Cut (pc_conn c)) (rg_conns r)"
proof -
  note failed = that(1) and ended = that(2)
  consider t where "re_tls re = Some t" | t where "re_tls re = None" "re_listen re = Some t"
    | t where "re_tls re = None" "re_listen re = None" "re_discovery re = Some t"
    | t where "re_tls re = None" "re_listen re = None" "re_discovery re = None" "re_clipboard re = Some t"
    | t where "re_tls re = None" "re_listen re = None" "re_discovery re = None" "re_clipboard re = None" "re_control re = Some t"
    | "re_tls re = None" "re_listen re = None" "re_discovery re = None" "re_clipboard re = None" "re_control re = None"
    by (metis option.exhaust)
  then show thesis
  proof cases
    case (1 t)
    with assms have "e = Some t \<and> es = [] \<and> r' = new_registry" by (auto simp: daemon_Run_def)
    then show ?thesis by (intro failed [of 0]) simp_all
  next
    case 2 then show ?thesis using assms by (intro failed [of 0]) (auto simp: daemon_Run_def)
  next
    case 3 then show ?thesis using assms by (intro failed [of 1]) (auto simp: daemon_Run_def Let_def)
  next
    case 4 then show ?thesis using assms by (intro failed [of 2]) (auto simp: daemon_Run_def Let_def numeral_2_eq_2)
  next
    case 5 then show ?thesis using assms by (intro failed [of 3]) (auto simp: daemon_Run_def Let_def numeral_3_eq_3)
  next
    case 6 then show ?thesis using assms by (intro ended) (auto simp: daemon_Run_def daemon_close_def Let_def)
  qed
qed

lemma undone:
  "opened_in (map Opened rs @ map Shut (rev rs)) = rs" "shut_in (map Opened rs @ map Shut (rev rs)) = rev rs"
  "Started l \<notin> set (map Opened rs @ map Shut (rev rs))" "Cut c \<notin> set (map Opened rs @ map Shut (rev rs))"
  "Handler h \<notin> set (map Opened rs @ map Shut (rev rs))"
  "map Opened rs @ map Shut (rev rs) = before @ Shut r # after \<Longrightarrow> r \<in> set (opened_in before)"
proof -
  show "opened_in (map Opened rs @ map Shut (rev rs)) = rs" "shut_in (map Opened rs @ map Shut (rev rs)) = rev rs"
    by (simp_all only: life_append life_maps append_Nil append_Nil2)
  show "Started l \<notin> set (map Opened rs @ map Shut (rev rs))" "Cut c \<notin> set (map Opened rs @ map Shut (rev rs))"
    "Handler h \<notin> set (map Opened rs @ map Shut (rev rs))" by auto
  assume "map Opened rs @ map Shut (rev rs) = before @ Shut r # after"
  then show "r \<in> set (opened_in before)"
  proof (rule not_before)
    fix y assume y: "before = map Opened rs @ y" "map Shut (rev rs) = y @ Shut r # after"
    from arg_cong [OF y(2), of set] have "Shut r \<in> set (map Shut (rev rs))" by simp
    then have "r \<in> set rs" by auto
    with y(1) show ?thesis by simp
  qed auto
qed

text \<open>
  C12. What \<open>Run\<close> opens it shuts. Whichever step of \<open>Run\<close> fails, each of the listener, the discovery,
  the clipboard watcher and the control socket is shut exactly once if it was opened, and after
  it was opened, and none is shut that was not open; no loop and no connection handler runs before
  all four are open. A run without an error has shut all four, has closed exactly the connections
  that were registered when it was told to stop, after everything their handlers did, and leaves
  no connection registered. (A connection that was in its handshake, its greeting or a pairing at
  that time is not in the registry, and \<open>Run\<close> does not close it: its handler does.)
\<close>

theorem resources_are_released_once:
  assumes "daemon_Run re activity r = (e, es, r')"
  shows "distinct (opened_in es) \<and> mset (shut_in es) = mset (opened_in es)
    \<and> (\<forall>before after x. es = before @ Shut x # after \<longrightarrow> x \<in> set (opened_in before))
    \<and> (\<forall>before after x. es = before @ x # after \<longrightarrow> x \<in> range Started \<union> range Handler
         \<longrightarrow> e = None \<and> set (opened_in before) = {R_Listener, R_Discovery, R_Clipboard, R_Control})
    \<and> (e = None \<longrightarrow> set (shut_in es) = {R_Listener, R_Discovery, R_Clipboard, R_Control})
    \<and> (\<forall>c. Cut c \<in> set es \<longleftrightarrow> e = None \<and> c \<in> (pc_conn \<circ> snd) ` set (rg_conns r))
    \<and> (\<forall>before after c. es = before @ Cut c # after \<longrightarrow> Handler ` set activity \<subseteq> set before)
    \<and> rg_conns r' = [] \<and> (e = None \<longrightarrow> (pc_conn \<circ> snd) ` set (rg_conns r) \<subseteq> set (rg_closed r'))"
  using assms
proof (cases rule: daemon_Run_shape)
  case (failed n)
  note undone = undone [where rs = "take n [R_Listener, R_Discovery, R_Clipboard]", folded failed(4)]
  have "distinct (opened_in es)" "mset (shut_in es) = mset (opened_in es)" unfolding undone by (auto intro: distinct_take)
  moreover have "\<not> es = before @ x # after" if "x \<in> range Started \<union> range Handler \<union> range Cut" for before x after
  proof
    assume "es = before @ x # after"
    then have "x \<in> set es" by simp
    with that undone(3-5) show False by blast
  qed
  moreover have "rg_conns r' = []" using failed(3) by (simp add: new_registry_def)
  moreover have "Cut c \<notin> set es" for c by (rule undone(4))
  ultimately show ?thesis using undone(6) failed(1) by blast
next
  case ended
  let ?all = "[R_Listener, R_Discovery, R_Clipboard, R_Control]"
  let ?loops = "map Started [L_Discovery, L_Accept, L_Local, L_ClipboardWrite, L_Connect] @ map Handler activity"
  let ?cuts = "map Shut [R_Control, R_Listener, R_Discovery, R_Clipboard] @ map (\<lambda>(_, c). Cut (pc_conn c)) (rg_conns r)"
  note es = ended(3) [unfolded append_assoc]
  have order: "x \<in> set (opened_in before)" if "es = before @ Shut x # after" for before after x
    by (rule not_before [OF that [unfolded es]]) (auto, cases x, auto)
  have loops: "set (opened_in before) = {R_Listener, R_Discovery, R_Clipboard, R_Control}"
    if x: "es = before @ x # after" "x \<in> range Started \<union> range Handler" for before after x
  proof (rule not_before [OF x(1) [unfolded es]])
    fix y assume y: "before = map Opened ?all @ y"
    have "opened_in es = ?all" by (simp add: es)
    then have "set (opened_in before) \<subseteq> set ?all" using x(1) by (metis Un_upper1 life_append(1) set_append)
    with y show ?thesis by auto
  qed (use x(2) in auto)
  have acts: "Handler ` set activity \<subseteq> set before" if "es = before @ Cut c # after" for before after c
    by (rule not_before [OF that [unfolded ended(3)]]) auto
  have own: "distinct (opened_in es)" "mset (shut_in es) = mset (opened_in es)"
    "set (shut_in es) = {R_Listener, R_Discovery, R_Clipboard, R_Control}"
    by (auto simp: es)
  have cuts: "Cut c \<in> set es \<longleftrightarrow> c \<in> (pc_conn \<circ> snd) ` set (rg_conns r)" for c
    by (force simp: es case_prod_beta)
  have reg: "rg_conns r' = []" "(pc_conn \<circ> snd) ` set (rg_conns r) \<subseteq> set (rg_closed r')"
    using close_all_closes [of r] by (auto simp: ended(2))
  show ?thesis
    by (intro conjI allI impI; (rule own reg order acts ended(1), assumption?)?; (rule loops, assumption+)?)
      (simp_all add: cuts ended(1))
qed

lemma Load_pending: "Load ev dec read d = Inr s \<Longrightarrow> st_pending s = []"
  by (auto simp: Load_def save_locked_def Let_def split: option.splits prod.splits if_splits)

text \<open>
  C34. The daemon runs only on sound ground. When \<open>runDaemon\<close> gets as far as \<open>Run\<close>, the
  configuration is valid, the identity is either fresh or passed every check of \<open>parse\<close>, its file
  is closed to group and others, nothing is pending in the trust store, and no connection,
  suppressed text, pairing attempt or handshake is carried over from before.
\<close>

theorem daemon_runs_on_sound_ground:
  assumes "runDaemon en paths w = (e, Some d, w')"
  shows "cf_Name (fd_cfg d) \<noteq> [] \<and> 1 \<le> cf_ListenPort (fd_cfg d) \<and> cf_ListenPort (fd_cfg d) \<le> 65535
    \<and> 1 \<le> cf_MaxClipboardBytes (fd_cfg d) \<and> cf_MaxClipboardBytes (fd_cfg d) \<le> MaxPayload
    \<and> CheckPrivate (os_Stat (se_faults en) (wo_os w')) (pa_Identity paths) = None
    \<and> st_pending (fd_store d) = [] \<and> rg_conns (fd_registry d) = [] \<and> fd_handshakes d = 0
    \<and> sup_entries (fd_suppress d) = [] \<and> pairRates (fd_limiter d) = []"
proof -
  obtain cfg s1 own s2 where c: "config_LoadOrCreate (se_faults en) (se_marshal en) (se_unmarshal en) (se_device en) paths (wo_os w) = (Inr cfg, s1)"
    and i: "identity_LoadOrCreate (se_faults en) (se_tools en) (se_pem en) (se_x509 en) (se_pkcs8 en) (se_now en) (pa_Identity paths) s1 = (Inr own, s2)"
    and p: "CheckPrivate (os_Stat (se_faults en) s2) (pa_Identity paths) = None"
    using assms by (auto simp: runDaemon_def Let_def split: prod.splits sum.splits option.splits)
  with assms obtain store where l: "Load (se_store en) (se_decode en) (se_read en) (wo_peers w) = Inr store"
    and d: "d = daemon_New cfg own store (se_now en)" "wo_os w' = s2"
    by (auto simp: runDaemon_def Let_def split: sum.splits)
  have "st_pending store = []" using Load_pending [OF l] .
  with loaded_config_valid [OF c] p d show ?thesis
    by (simp add: daemon_New_def new_registry_def daemon_suppressor_def NewSuppressor_def new_limiter_def)
qed

section \<open>Samples\<close>

definition sample_run :: run_errors where
  "sample_run = \<lparr>re_tls = None, re_listen = None, re_discovery = None, re_clipboard = None, re_control = Some ''in use''\<rparr>"

theorem resources_are_released_once_witness:
  "case daemon_Run sample_run [Connected 7] new_registry of (e, es, r) \<Rightarrow>
     opened_in es = [R_Listener, R_Discovery, R_Clipboard] \<and> mset (shut_in es) = mset (opened_in es) \<and> Started L_Accept \<notin> set es"
proof -
  obtain e es r where r: "daemon_Run sample_run [Connected 7] new_registry = (e, es, r)" by (cases "daemon_Run sample_run [Connected 7] new_registry")
  then have "e \<noteq> None" "opened_in es = [R_Listener, R_Discovery, R_Clipboard]"
    by (auto simp: daemon_Run_def sample_run_def Let_def)
  moreover note res = resources_are_released_once [OF r]
  have "Started L_Accept \<notin> set es"
  proof
    assume "Started L_Accept \<in> set es"
    then obtain before after where "es = before @ Started L_Accept # after" by (meson split_list)
    with res \<open>e \<noteq> None\<close> show False by blast
  qed
  moreover have "mset (shut_in es) = mset (opened_in es)" using res by blast
  ultimately show ?thesis by (simp add: r)
qed

definition sample_start :: start_env where
  "sample_start = \<lparr>se_faults = all_works, se_marshal = sample_config_marshal, se_unmarshal = sample_config_unmarshal,
     se_device = ''host'', se_tools = sample_tools, se_pem = sample_pem, se_x509 = (\<lambda>_. Some sample_own_cert),
     se_pkcs8 = (\<lambda>_. Some (Ed25519_Private ''seed'' ''pub'')), se_store = sample_env, se_decode = (\<lambda>_. None), se_read = None, se_now = 5,
     se_run = sample_run, se_activity = [], se_registry = new_registry\<rparr>"

theorem daemon_runs_on_sound_ground_witness:
  "\<exists>d w'. runDaemon sample_start sample_paths \<lparr>wo_os = sample_os, wo_peers = \<lparr>dk_target = None, dk_temps = []\<rparr>\<rparr>
      = (Some (Start_Run ''control: in use''), Some d, w') \<and> cf_ListenPort (fd_cfg d) \<le> 65535 \<and> st_pending (fd_store d) = []"
proof -
  let ?id = "pa_Identity sample_paths"
  have "os_ReadFile all_works ?id sample_config_os = Not_Exist" "mget (os_files sample_config_os) ?id = None"
    "mget (os_dirs sample_config_os) ?id = None" by (code_simp, code_simp, code_simp)
  then have "\<exists>own s. identity_LoadOrCreate all_works sample_tools sample_pem (\<lambda>_. Some sample_own_cert)
      (\<lambda>_. Some (Ed25519_Private ''seed'' ''pub'')) 5 ?id sample_config_os = (Inr own, s)
    \<and> mget (os_files s) ?id = Some \<lparr>of_content = id_TLSCert own, of_mode = 384\<rparr>"
    by (simp add: identity_LoadOrCreate_def create_identity_def sample_tools_def UUID_def Let_def
        write_private_def os_WriteFile_def os_Chmod_def write_content_def all_works_def gomap_simps)
  then obtain own s where i: "identity_LoadOrCreate all_works sample_tools sample_pem (\<lambda>_. Some sample_own_cert)
      (\<lambda>_. Some (Ed25519_Private ''seed'' ''pub'')) 5 ?id sample_config_os = (Inr own, s)"
    and s: "mget (os_files s) ?id = Some \<lparr>of_content = id_TLSCert own, of_mode = 384\<rparr>" by blast
  have p: "CheckPrivate (os_Stat all_works s) ?id = None"
    using s by (simp add: CheckPrivate_def os_Stat_def all_works_def open_bits_def)
  have "case Load sample_env (\<lambda>_. None) None \<lparr>dk_target = None, dk_temps = []\<rparr> of Inr _ \<Rightarrow> True | Inl _ \<Rightarrow> False" by code_simp
  then obtain store where l: "Load sample_env (\<lambda>_. None) None \<lparr>dk_target = None, dk_temps = []\<rparr> = Inr store"
    by (auto split: sum.splits)
  obtain d w' where r: "runDaemon sample_start sample_paths \<lparr>wo_os = sample_os, wo_peers = \<lparr>dk_target = None, dk_temps = []\<rparr>\<rparr>
      = (Some (Start_Run ''control: in use''), Some d, w')"
    using sample_created(1) i p l
    by (simp add: runDaemon_def sample_start_def daemon_Run_def sample_run_def Let_def)
  with daemon_runs_on_sound_ground [OF r] show ?thesis by blast
qed

end
