(* ===== verification/TLS_Config.thy ===== *)
theory TLS_Config
  imports Transport
begin

text \<open>
  The TLS configurations of \<open>internal/transport/tls.go\<close> and what a handshake between two of them
  comes to. Of package \<open>crypto/tls\<close> the model has what these configurations use: the choice of
  version and protocol, who presents a certificate, and when the verification callback runs. That
  an authenticated peer holds the key of its certificate is TLS's own business.
\<close>

section \<open>Configurations\<close>

definition VersionTLS13 :: nat where
  "VersionTLS13 = 772"

datatype client_auth = No_Client_Cert | Require_Any_Client_Cert

record tls_config =
  tc_Certificate :: certificate
  tc_MinVersion :: nat
  tc_ClientAuth :: client_auth
  tc_NextProtos :: "string list"
  tc_InsecureSkipVerify :: bool
  tc_VerifyConnection :: "time \<Rightarrow> store \<Rightarrow> connection_state \<Rightarrow> verify_error option"

text \<open>
  The configurations hold a pointer to the trust store: the callback gets the store as it is when
  it runs, which is not the one the configuration was made with.
\<close>

text \<open>\<open>key_pair\<close> is \<open>tls.X509KeyPair\<close> on one file that holds both blocks.\<close>

definition tls_Certificate :: "(string \<Rightarrow> string + certificate) \<Rightarrow> identity \<Rightarrow> string + certificate" where
  "tls_Certificate key_pair i = key_pair (id_TLSCert i)"

definition ServerConfig :: "(string \<Rightarrow> string + certificate) \<Rightarrow> identity \<Rightarrow> string + tls_config" where
  "ServerConfig key_pair i =
     (case tls_Certificate key_pair i of
        Inl e \<Rightarrow> Inl e
      | Inr cert \<Rightarrow>
          Inr \<lparr>tc_Certificate = cert, tc_MinVersion = VersionTLS13, tc_ClientAuth = Require_Any_Client_Cert,
               tc_NextProtos = [ALPNSync, ALPNPair], tc_InsecureSkipVerify = True,
               tc_VerifyConnection = (\<lambda>now s. server_verify now s)\<rparr>)"

definition ClientConfig ::
  "(string \<Rightarrow> string + certificate) \<Rightarrow> identity \<Rightarrow> string \<Rightarrow> string \<Rightarrow> string + tls_config" where
  "ClientConfig key_pair i proto expected =
     (case tls_Certificate key_pair i of
        Inl e \<Rightarrow> Inl e
      | Inr cert \<Rightarrow>
          Inr \<lparr>tc_Certificate = cert, tc_MinVersion = VersionTLS13, tc_ClientAuth = No_Client_Cert,
               tc_NextProtos = [proto], tc_InsecureSkipVerify = True,
               tc_VerifyConnection = (\<lambda>now s. client_verify now s proto expected)\<rparr>)"

section \<open>The handshake\<close>

text \<open>The server's preference decides; it is an error if both sides name protocols and share none.\<close>

definition negotiate_protocol :: "string list \<Rightarrow> string list \<Rightarrow> string option" where
  "negotiate_protocol server client =
     (if server = [] \<or> client = [] then Some []
      else find (\<lambda>p. p \<in> set client) server)"

datatype handshake_end = Handshake_Failed | Handshake_Done connection_state

text \<open>
  The client's end and the server's. \<open>version\<close> is the highest version both implement, \<open>chain\<close> the
  standard verification of a server's certificate; \<open>sa\<close> and \<open>sb\<close> are the two trust stores at the
  moment the callbacks run. In TLS 1.3 the client is done before the server
  has looked at its certificate.
\<close>

definition tls_handshake ::
  "nat \<Rightarrow> (certificate \<Rightarrow> bool) \<Rightarrow> time \<Rightarrow> store \<Rightarrow> time \<Rightarrow> store \<Rightarrow> tls_config \<Rightarrow> tls_config \<Rightarrow> handshake_end \<times> handshake_end" where
  "tls_handshake version chain nowC sa nowS sb client server =
     (if version < tc_MinVersion client \<or> version < tc_MinVersion server then (Handshake_Failed, Handshake_Failed)
      else case negotiate_protocol (tc_NextProtos server) (tc_NextProtos client) of
        None \<Rightarrow> (Handshake_Failed, Handshake_Failed)
      | Some p \<Rightarrow>
          let seen = \<lparr>cs_PeerCertificates = [tc_Certificate server], cs_NegotiatedProtocol = p\<rparr>;
              presented = \<lparr>cs_PeerCertificates =
                  (case tc_ClientAuth server of No_Client_Cert \<Rightarrow> [] | Require_Any_Client_Cert \<Rightarrow> [tc_Certificate client]),
                cs_NegotiatedProtocol = p\<rparr>
          in if \<not> tc_InsecureSkipVerify client \<and> \<not> chain (tc_Certificate server) \<or> tc_VerifyConnection client nowC sa seen \<noteq> None
             then (Handshake_Failed, Handshake_Failed)
             else if tc_VerifyConnection server nowS sb presented \<noteq> None then (Handshake_Done seen, Handshake_Failed)
             else (Handshake_Done seen, Handshake_Done presented))"

section \<open>Properties\<close>

definition acceptable :: "time \<Rightarrow> store \<Rightarrow> string \<Rightarrow> string \<Rightarrow> certificate \<Rightarrow> bool" where
  "acceptable now s proto expected c \<longleftrightarrow> (\<exists>k. cert_key c = Ed25519_Public k)
     \<and> cert_not_before c \<le> now \<and> now \<le> cert_not_after c \<and> cert_sig_ok c
     \<and> (expected = [] \<or> 12 \<le> length expected \<and> has_prefix (cert_fingerprint (cert_raw c)) expected)
     \<and> (proto = ALPNSync \<longrightarrow> TrustedFingerprint (cert_fingerprint (cert_raw c)) s \<noteq> None)"

lemma acceptable_eq:
  "acceptable now s proto expected c \<longleftrightarrow> verifySelfSigned now c = None
     \<and> (expected = [] \<or> 12 \<le> length expected \<and> has_prefix (cert_fingerprint (cert_raw c)) expected)
     \<and> (proto = ALPNSync \<longrightarrow> TrustedFingerprint (cert_fingerprint (cert_raw c)) s \<noteq> None)"
  by (simp add: acceptable_def verifySelfSigned_None)

lemma client_verify_acceptable:
  "client_verify now s proto expected \<lparr>cs_PeerCertificates = [c], cs_NegotiatedProtocol = p\<rparr> = None
     \<longleftrightarrow> acceptable now s proto expected c"
  by (auto simp: client_verify_def acceptable_eq Let_def split: option.splits)

lemma server_verify_acceptable:
  "server_verify now s \<lparr>cs_PeerCertificates = [c], cs_NegotiatedProtocol = p\<rparr> = None
     \<longleftrightarrow> p \<in> {ALPNSync, ALPNPair} \<and> acceptable now s p [] c"
  by (auto simp: server_verify_def acceptable_eq ALPNSync_def ALPNPair_def Let_def split: option.splits)

lemma negotiate_one: "negotiate_protocol [ALPNSync, ALPNPair] [p] = (if p \<in> {ALPNSync, ALPNPair} then Some p else None)"
  by (auto simp: negotiate_protocol_def)

text \<open>
  C3. Two daemons connect exactly when each accepts the other. Whatever the two stores hold when
  they are asked, the
  dialled daemon gets a connection if and only if the version is TLS 1.3 or later, the protocol is
  one of the two, and each side's certificate is valid and self-signed, matches what the dialler
  expects, and for sync is pinned in the other's store; then both ends agree on the protocol and
  each has seen exactly the other's certificate. Pairing needs no pin, sync always needs both.
\<close>

theorem handshake_is_mutual:
  assumes "ClientConfig key_pair a proto expected = Inr client" "ServerConfig key_pair b = Inr server"
  shows "tls_handshake version chain nowC sa nowS sb client server =
    (let ok = VersionTLS13 \<le> version \<and> proto \<in> {ALPNSync, ALPNPair} \<and> acceptable nowC sa proto expected (tc_Certificate server);
         seen = \<lparr>cs_PeerCertificates = [tc_Certificate server], cs_NegotiatedProtocol = proto\<rparr>;
         presented = \<lparr>cs_PeerCertificates = [tc_Certificate client], cs_NegotiatedProtocol = proto\<rparr>
     in (if ok then Handshake_Done seen else Handshake_Failed,
         if ok \<and> acceptable nowS sb proto [] (tc_Certificate client) then Handshake_Done presented else Handshake_Failed))
    \<and> key_pair (id_TLSCert a) = Inr (tc_Certificate client) \<and> key_pair (id_TLSCert b) = Inr (tc_Certificate server)"
proof -
  obtain ca cb where c: "key_pair (id_TLSCert a) = Inr ca" "key_pair (id_TLSCert b) = Inr cb"
    "client = \<lparr>tc_Certificate = ca, tc_MinVersion = VersionTLS13, tc_ClientAuth = No_Client_Cert,
       tc_NextProtos = [proto], tc_InsecureSkipVerify = True, tc_VerifyConnection = (\<lambda>now s. client_verify now s proto expected)\<rparr>"
    "server = \<lparr>tc_Certificate = cb, tc_MinVersion = VersionTLS13, tc_ClientAuth = Require_Any_Client_Cert,
       tc_NextProtos = [ALPNSync, ALPNPair], tc_InsecureSkipVerify = True, tc_VerifyConnection = (\<lambda>now s. server_verify now s)\<rparr>"
    using assms by (auto simp: ClientConfig_def ServerConfig_def tls_Certificate_def split: sum.splits)
  show ?thesis
    unfolding c(3,4) tls_handshake_def
    by (auto simp: c(1,2) negotiate_one client_verify_acceptable server_verify_acceptable Let_def not_le
        simp del: not_None_eq)
qed

section \<open>A sample\<close>

text \<open>A key pair file stands for its certificate; the two devices have pinned each other.\<close>

definition sample_cert_of :: "string \<Rightarrow> certificate" where
  "sample_cert_of b = \<lparr>cert_raw = b, cert_cn = ''lanclip:'' @ b, cert_key = Ed25519_Public b,
     cert_not_before = 0, cert_not_after = 9, cert_sig_ok = True\<rparr>"

definition sample_pinning :: "string \<Rightarrow> store" where
  "sample_pinning b = sample_trusted_store\<lparr>st_peers := [(''p'', sample_trusted\<lparr>p_Fingerprint := cert_fingerprint b\<rparr>)]\<rparr>"

definition sample_identity_of :: "string \<Rightarrow> identity" where
  "sample_identity_of b = \<lparr>id_ID = b, id_Certificate = b, id_PrivateKey = Ed25519_Private ''seed'' b, id_TLSCert = b\<rparr>"

theorem handshake_is_mutual_witness:
  "\<exists>client server ss. ClientConfig (\<lambda>b. Inr (sample_cert_of b)) (sample_identity_of ''a'') ALPNSync [] = Inr client
     \<and> ServerConfig (\<lambda>b. Inr (sample_cert_of b)) (sample_identity_of ''b'') = Inr server
     \<and> snd (tls_handshake 772 (\<lambda>_. False) 5 (sample_pinning ''b'') 5 (sample_pinning ''a'') client server) = Handshake_Done ss \<and> cs_PeerCertificates ss = [sample_cert_of ''a'']"
proof -
  let ?k = "\<lambda>b. Inr (sample_cert_of b)"
  obtain client server where c: "ClientConfig ?k (sample_identity_of ''a'') ALPNSync [] = Inr client"
    "ServerConfig ?k (sample_identity_of ''b'') = Inr server"
    by (simp add: ClientConfig_def ServerConfig_def tls_Certificate_def)
  have "acceptable 5 (sample_pinning b) ALPNSync [] (sample_cert_of b)" for b
    by (simp add: acceptable_def sample_cert_of_def TrustedFingerprint_def
        sample_pinning_def sample_trusted_def)
  moreover have "tc_Certificate client = sample_cert_of ''a''" "tc_Certificate server = sample_cert_of ''b''"
    using handshake_is_mutual [OF c, of 772 "\<lambda>_. False" 5 "sample_pinning ''b''" 5 "sample_pinning ''a''"] by (simp_all add: sample_identity_of_def)
  ultimately have "snd (tls_handshake 772 (\<lambda>_. False) 5 (sample_pinning ''b'') 5 (sample_pinning ''a'') client server)
      = Handshake_Done \<lparr>cs_PeerCertificates = [sample_cert_of ''a''], cs_NegotiatedProtocol = ALPNSync\<rparr>"
    using handshake_is_mutual [OF c, of 772 "\<lambda>_. False" 5 "sample_pinning ''b''" 5 "sample_pinning ''a''"] by (simp add: VersionTLS13_def Let_def)
  with c show ?thesis by force
qed

end
