(* ===== verification/Sync_Machine.thy ===== *)
theory Sync_Machine
  imports Control_Commands
begin

text \<open>
  All sync sessions of a running daemon, interleaved. A session is a goroutine in
  \<open>handleSync\<close>; between the points where it takes a lock every other goroutine may run. The
  steps are those points: reading the trust store for the certificate of the connection, the
  greeting (whose only effect is \<open>UpdateName\<close>), the locked part of \<open>register\<close>, the close of a
  replaced socket, \<open>unregister\<close> and the final close. The \<open>unpair\<close> command of \<open>handleControl\<close> is
  cut the same way: \<open>Resolve\<close>, \<open>getConn\<close>, the close of the connection found, \<open>Store.Unpair\<close>.
  Beside these the statistics are updated, sockets are closed from outside (a failed write), the
  trust store runs its other operations, and \<open>Daemon.close\<close> empties the registry.

  Sockets are numbered; a session is known by the number of its socket, which is also the
  identity of its \<open>peerConn\<close>, since \<open>handleSync\<close> makes one for its socket.
\<close>

section \<open>States and steps\<close>

datatype phase = Greeting | Greeted | Replacing peer_conn | Running | Closing | Ended

record session =
  ss_cert :: certificate
  ss_peer :: peer
  ss_outbound :: bool
  ss_addr :: string
  ss_phase :: phase

text \<open>An \<open>unpair\<close> command under way: the device it resolved to, and what it found registered.\<close>

datatype unpairing = Resolved string | Found string "peer_conn option" | Disconnected string

record daemon =
  dm_store :: store
  dm_reg :: registry
  dm_sessions :: "nat \<Rightarrow> session option"
  dm_unpairs :: "unpairing list"
  dm_stopped :: bool

definition session_conn :: "nat \<Rightarrow> session \<Rightarrow> peer_conn" where
  "session_conn c ss = \<lparr>pc_ref = c, pc_id = p_ID (ss_peer ss), pc_conn = c, pc_addr = ss_addr ss,
     pc_outbound = ss_outbound ss\<rparr>"

definition set_phase :: "nat \<Rightarrow> session \<Rightarrow> phase \<Rightarrow> daemon \<Rightarrow> daemon" where
  "set_phase c ss ph d = d\<lparr>dm_sessions := (dm_sessions d)(c \<mapsto> ss\<lparr>ss_phase := ph\<rparr>)\<rparr>"

fun no_unpair :: "store_event \<Rightarrow> bool" where
  "no_unpair (EvUnpair _ _) \<longleftrightarrow> False"
| "no_unpair _ \<longleftrightarrow> True"

inductive sync_step :: "identity \<Rightarrow> daemon \<Rightarrow> daemon \<Rightarrow> bool" for own :: identity where
  opened: "dm_sessions d c = None
    \<Longrightarrow> TrustedFingerprint (cert_fingerprint (cert_raw cert)) (dm_store d) = Some p
    \<Longrightarrow> ss = \<lparr>ss_cert = cert, ss_peer = p, ss_outbound = out, ss_addr = addr, ss_phase = Greeting\<rparr>
    \<Longrightarrow> sync_step own d (d\<lparr>dm_sessions := (dm_sessions d)(c \<mapsto> ss)\<rparr>)"
| refused: "dm_sessions d c = None
    \<Longrightarrow> TrustedFingerprint (cert_fingerprint (cert_raw (cert :: certificate))) (dm_store d) = None
    \<Longrightarrow> sync_step own d (d\<lparr>dm_reg := close_socket c (dm_reg d)\<rparr>)"
| greet: "dm_sessions d c = Some ss \<Longrightarrow> ss_phase ss = Greeting
    \<Longrightarrow> sync_greet own cfgName (ss_outbound ss) (ss_peer ss) wrote got ev now (dm_store d) = (sent, ok, s)
    \<Longrightarrow> sync_step own d (set_phase c ss (if ok then Greeted else Closing) (d\<lparr>dm_store := s\<rparr>))"
| install: "dm_sessions d c = Some ss \<Longrightarrow> ss_phase ss = Greeted
    \<Longrightarrow> register_locked (session_conn c ss) (dm_reg d) = ((ok, old), r)
    \<Longrightarrow> ph = (if \<not> ok then Closing else case old of Some q \<Rightarrow> Replacing q | None \<Rightarrow> Running)
    \<Longrightarrow> sync_step own d (set_phase c ss ph (d\<lparr>dm_reg := r\<rparr>))"
| replace: "dm_sessions d c = Some ss \<Longrightarrow> ss_phase ss = Replacing q
    \<Longrightarrow> sync_step own d (set_phase c ss Running (d\<lparr>dm_reg := close_socket (pc_conn q) (dm_reg d)\<rparr>))"
| finish: "dm_sessions d c = Some ss \<Longrightarrow> ss_phase ss = Running
    \<Longrightarrow> sync_step own d (set_phase c ss Closing
          (d\<lparr>dm_reg := unregister (session_conn c ss) (dm_reg d)\<rparr>))"
| hangup: "dm_sessions d c = Some ss \<Longrightarrow> ss_phase ss = Closing
    \<Longrightarrow> sync_step own d (set_phase c ss Ended (d\<lparr>dm_reg := close_socket c (dm_reg d)\<rparr>))"
| unpair_resolve: "Resolve tab now query [Trusted] (dm_store d) = (Inr (pid, p), s)
    \<Longrightarrow> sync_step own d (d\<lparr>dm_store := s, dm_unpairs := Resolved pid # dm_unpairs d\<rparr>)"
| unpair_find: "dm_unpairs d = xs @ Resolved pid # ys
    \<Longrightarrow> sync_step own d (d\<lparr>dm_unpairs := xs @ Found pid (getConn pid (dm_reg d)) # ys\<rparr>)"
| unpair_close: "dm_unpairs d = xs @ Found pid found # ys
    \<Longrightarrow> r = (case found of Some pc \<Rightarrow> close_socket (pc_conn pc) (dm_reg d) | None \<Rightarrow> dm_reg d)
    \<Longrightarrow> sync_step own d (d\<lparr>dm_reg := r, dm_unpairs := xs @ Disconnected pid # ys\<rparr>)"
| unpair_remove: "dm_unpairs d = xs @ Disconnected pid # ys
    \<Longrightarrow> sync_step own d (d\<lparr>dm_store := snd (Unpair ev pid (dm_store d)), dm_unpairs := xs @ ys\<rparr>)"
| closed_outside: "sync_step own d (d\<lparr>dm_reg := close_socket c (dm_reg d)\<rparr>)"
| bookkeeping: "r \<in> {recordError pid err (dm_reg d), recordSent pid now n (dm_reg d),
      recordReceived pid now n (dm_reg d), snd (beginConnect pid (dm_reg d)), endConnect pid (dm_reg d)}
    \<Longrightarrow> sync_step own d (d\<lparr>dm_reg := r\<rparr>)"
| store_ops: "store_run es (dm_store d) s \<Longrightarrow> list_all no_unpair es \<Longrightarrow> sync_step own d (d\<lparr>dm_store := s\<rparr>)"
| stop: "sync_step own d (d\<lparr>dm_reg := close_all (dm_reg d), dm_stopped := True\<rparr>)"

abbreviation sync_run :: "identity \<Rightarrow> daemon \<Rightarrow> daemon \<Rightarrow> bool" where
  "sync_run own \<equiv> (sync_step own)\<^sup>*\<^sup>*"

definition started :: "store \<Rightarrow> daemon" where
  "started s = \<lparr>dm_store = s, dm_reg = new_registry, dm_sessions = (\<lambda>_. None),
     dm_unpairs = [], dm_stopped = False\<rparr>"

fun live_phase :: "phase \<Rightarrow> bool" where
  "live_phase (Replacing _) = True"
| "live_phase Running = True"
| "live_phase _ = False"

section \<open>The invariant\<close>

text \<open>
  A registered connection belongs to a live session; a live session that is not registered has
  been replaced, and its socket is closed or about to be closed by the session that replaced it.
  The statistics agree with the registry until \<open>Daemon.close\<close>, which leaves them as they are.
\<close>

definition owned :: "daemon \<Rightarrow> bool" where
  "owned d \<longleftrightarrow> (\<forall>pid pc. mget (rg_conns (dm_reg d)) pid = Some pc \<longrightarrow>
     (\<exists>ss. dm_sessions d (pc_conn pc) = Some ss \<and> live_phase (ss_phase ss)
        \<and> pc = session_conn (pc_conn pc) ss \<and> p_ID (ss_peer ss) = pid))"

definition replaced_closing :: "daemon \<Rightarrow> nat \<Rightarrow> session \<Rightarrow> bool" where
  "replaced_closing d c ss \<longleftrightarrow> c \<in> set (rg_closed (dm_reg d))
     \<or> (\<exists>c' ss'. dm_sessions d c' = Some ss' \<and> ss_phase ss' = Replacing (session_conn c ss))"

definition accounted :: "daemon \<Rightarrow> bool" where
  "accounted d \<longleftrightarrow> (\<forall>c ss. dm_sessions d c = Some ss \<longrightarrow> live_phase (ss_phase ss) \<longrightarrow>
     mget (rg_conns (dm_reg d)) (p_ID (ss_peer ss)) = Some (session_conn c ss)
     \<or> replaced_closing d c ss)"

definition daemon_inv :: "daemon \<Rightarrow> bool" where
  "daemon_inv d \<longleftrightarrow> (dm_stopped d \<or> registry_ok (dm_reg d)) \<and> owned d \<and> accounted d"

lemma session_conn_simps [simp]:
  "pc_ref (session_conn c ss) = c" "pc_conn (session_conn c ss) = c"
  "pc_id (session_conn c ss) = p_ID (ss_peer ss)"
  "session_conn c (ss\<lparr>ss_phase := ph\<rparr>) = session_conn c ss"
  by (simp_all add: session_conn_def)

lemma session_conn_inj: "session_conn c ss = session_conn c' ss' \<Longrightarrow> c = c'"
  by (simp add: session_conn_def)

lemma set_phase_simps [simp]:
  "dm_reg (set_phase c ss ph d) = dm_reg d" "dm_store (set_phase c ss ph d) = dm_store d"
  "dm_unpairs (set_phase c ss ph d) = dm_unpairs d" "dm_stopped (set_phase c ss ph d) = dm_stopped d"
  "dm_sessions (set_phase c ss ph d) = (dm_sessions d)(c \<mapsto> ss\<lparr>ss_phase := ph\<rparr>)"
  by (simp_all add: set_phase_def)

lemma ownedD:
  assumes "owned d" "mget (rg_conns (dm_reg d)) pid = Some pc"
  obtains ss where "dm_sessions d (pc_conn pc) = Some ss" "live_phase (ss_phase ss)"
    "pc = session_conn (pc_conn pc) ss" "p_ID (ss_peer ss) = pid"
  using assms unfolding owned_def by blast

lemma replaced_closing_cong:
  "replaced_closing d x s0 \<Longrightarrow> session_conn x sx = session_conn x s0 \<Longrightarrow> replaced_closing d x sx"
  by (simp add: replaced_closing_def)

lemma replaced_closing_mono:
  assumes "replaced_closing d x sx" "set (rg_closed (dm_reg d)) \<subseteq> set (rg_closed (dm_reg d'))"
    and "\<And>c' s' q. dm_sessions d c' = Some s' \<Longrightarrow> ss_phase s' = Replacing q
      \<Longrightarrow> dm_sessions d' c' = Some s' \<or> pc_conn q \<in> set (rg_closed (dm_reg d'))"
  shows "replaced_closing d' x sx"
proof (cases "x \<in> set (rg_closed (dm_reg d))")
  case True
  with assms(2) show ?thesis by (auto simp: replaced_closing_def)
next
  case False
  with assms(1) obtain c' s' where c': "dm_sessions d c' = Some s'" "ss_phase s' = Replacing (session_conn x sx)"
    by (auto simp: replaced_closing_def)
  from assms(3) [OF this] show ?thesis
    using c'(2) by (auto simp: replaced_closing_def)
qed

text \<open>A step that touches neither the connections nor a live session keeps the invariant.\<close>

lemma inv_registry_only:
  assumes inv: "daemon_inv d" and r: "dm_stopped d \<or> registry_ok r" "rg_conns r = rg_conns (dm_reg d)"
    "set (rg_closed (dm_reg d)) \<subseteq> set (rg_closed r)"
  shows "daemon_inv (d\<lparr>dm_store := s, dm_reg := r, dm_unpairs := us\<rparr>)"
  using inv r unfolding daemon_inv_def owned_def accounted_def replaced_closing_def
  by simp blast

text \<open>\<open>Daemon.close\<close>: every registered socket is closed, and the sessions find out by themselves.\<close>

lemma inv_stop:
  assumes inv: "daemon_inv d"
  shows "daemon_inv (d\<lparr>dm_reg := close_all (dm_reg d), dm_stopped := True\<rparr>)" (is "daemon_inv ?d")
proof -
  note closes = close_all_closes [of "dm_reg d"]
  have "accounted ?d"
    unfolding accounted_def
  proof (intro allI impI)
    fix c ss assume c: "dm_sessions ?d c = Some ss" "live_phase (ss_phase ss)"
    with inv have "mget (rg_conns (dm_reg d)) (p_ID (ss_peer ss)) = Some (session_conn c ss)
        \<or> replaced_closing d c ss"
      by (auto simp: daemon_inv_def accounted_def)
    then have "replaced_closing ?d c ss"
    proof
      assume "mget (rg_conns (dm_reg d)) (p_ID (ss_peer ss)) = Some (session_conn c ss)"
      then have "session_conn c ss \<in> snd ` set (rg_conns (dm_reg d))" by (force dest: mget_Some_mem)
      with closes have "c \<in> set (rg_closed (close_all (dm_reg d)))" by force
      then show ?thesis by (simp add: replaced_closing_def)
    next
      assume "replaced_closing d c ss"
      then show ?thesis by (rule replaced_closing_mono) (use closes in auto)
    qed
    then show "mget (rg_conns (dm_reg ?d)) (p_ID (ss_peer ss)) = Some (session_conn c ss)
        \<or> replaced_closing ?d c ss" by simp
  qed
  with closes show ?thesis by (simp add: daemon_inv_def owned_def)
qed

lemma inv_idle_phase:
  assumes inv: "daemon_inv d" and c: "dm_sessions d c = None \<or>
      (\<exists>ss0. dm_sessions d c = Some ss0 \<and> \<not> live_phase (ss_phase ss0))"
    and ss: "\<not> live_phase (ss_phase ss)"
  shows "daemon_inv (d\<lparr>dm_sessions := (dm_sessions d)(c \<mapsto> ss)\<rparr>)"
proof -
  let ?d = "d\<lparr>dm_sessions := (dm_sessions d)(c \<mapsto> ss)\<rparr>"
  have "owned ?d"
    unfolding owned_def
  proof (intro allI impI)
    fix pid pc assume "mget (rg_conns (dm_reg ?d)) pid = Some pc"
    then have "mget (rg_conns (dm_reg d)) pid = Some pc" by simp
    with inv obtain s0 where s0: "dm_sessions d (pc_conn pc) = Some s0" "live_phase (ss_phase s0)"
        "pc = session_conn (pc_conn pc) s0" "p_ID (ss_peer s0) = pid"
      unfolding daemon_inv_def by (metis ownedD)
    with c have "pc_conn pc \<noteq> c" by auto
    with s0 show "\<exists>ss. dm_sessions ?d (pc_conn pc) = Some ss \<and> live_phase (ss_phase ss)
        \<and> pc = session_conn (pc_conn pc) ss \<and> p_ID (ss_peer ss) = pid"
      by auto
  qed
  moreover have "accounted ?d"
    unfolding accounted_def
  proof (intro allI impI)
    fix x sx assume "dm_sessions ?d x = Some sx" "live_phase (ss_phase sx)"
    with ss have x: "dm_sessions d x = Some sx" "live_phase (ss_phase sx)"
      by (auto split: if_splits)
    have "replaced_closing ?d x sx" if "replaced_closing d x sx"
      by (rule replaced_closing_mono [OF that]) (use c in auto)
    with inv x show "mget (rg_conns (dm_reg ?d)) (p_ID (ss_peer sx)) = Some (session_conn x sx)
        \<or> replaced_closing ?d x sx"
      unfolding daemon_inv_def accounted_def by auto
  qed
  ultimately show ?thesis using inv by (simp add: daemon_inv_def)
qed

lemma inv_live_phase:
  assumes own: "owned d" and c: "dm_sessions d c = Some ss" "live_phase (ss_phase ss)" "live_phase ph"
    and conns: "rg_conns r = rg_conns (dm_reg d)"
  shows "owned (set_phase c ss ph (d\<lparr>dm_reg := r\<rparr>))"
  unfolding owned_def
proof (intro allI impI)
  fix pid pc assume "mget (rg_conns (dm_reg (set_phase c ss ph (d\<lparr>dm_reg := r\<rparr>)))) pid = Some pc"
  then have "mget (rg_conns (dm_reg d)) pid = Some pc" by (simp add: conns)
  with own obtain s0 where "dm_sessions d (pc_conn pc) = Some s0" "live_phase (ss_phase s0)"
      "pc = session_conn (pc_conn pc) s0" "p_ID (ss_peer s0) = pid"
    by (rule ownedD)
  with c show "\<exists>ss'. dm_sessions (set_phase c ss ph (d\<lparr>dm_reg := r\<rparr>)) (pc_conn pc) = Some ss'
      \<and> live_phase (ss_phase ss') \<and> pc = session_conn (pc_conn pc) ss' \<and> p_ID (ss_peer ss') = pid"
    by auto
qed

lemma step_replace_inv:
  assumes inv: "daemon_inv d" and c: "dm_sessions d c = Some ss" "ss_phase ss = Replacing q"
  shows "daemon_inv (set_phase c ss Running (d\<lparr>dm_reg := close_socket (pc_conn q) (dm_reg d)\<rparr>))"
    (is "daemon_inv ?d")
proof -
  have "accounted ?d"
    unfolding accounted_def
  proof (intro allI impI)
    fix x sx assume x: "dm_sessions ?d x = Some sx" "live_phase (ss_phase sx)"
    then obtain s0 where s0: "dm_sessions d x = Some s0" "live_phase (ss_phase s0)"
        "session_conn x sx = session_conn x s0" "p_ID (ss_peer sx) = p_ID (ss_peer s0)"
      using c by (cases "x = c") auto
    have "replaced_closing ?d x sx" if "replaced_closing d x s0"
      by (rule replaced_closing_mono [OF replaced_closing_cong [OF that s0(3)]]) (use c in auto)
    with inv s0 show "mget (rg_conns (dm_reg ?d)) (p_ID (ss_peer sx)) = Some (session_conn x sx)
        \<or> replaced_closing ?d x sx"
      unfolding daemon_inv_def accounted_def by auto
  qed
  moreover have "owned ?d"
    by (rule inv_live_phase) (use inv c in \<open>auto simp: daemon_inv_def\<close>)
  ultimately show ?thesis
    using inv by (auto simp: daemon_inv_def registry_kept)
qed

lemma step_finish_inv:
  assumes inv: "daemon_inv d" and c: "dm_sessions d c = Some ss" "ss_phase ss = Running"
  shows "daemon_inv (set_phase c ss Closing (d\<lparr>dm_reg := unregister (session_conn c ss) (dm_reg d)\<rparr>))"
    (is "daemon_inv ?d")
proof -
  let ?r = "dm_reg d" and ?pid = "p_ID (ss_peer ss)"
  have own: "owned d" and ok: "dm_stopped d \<or> registry_ok ?r" and acc: "accounted d"
    using inv by (auto simp: daemon_inv_def)
  have kept: "mget (rg_conns (dm_reg ?d)) pid = Some pc \<longleftrightarrow>
      mget (rg_conns ?r) pid = Some pc \<and> pc_conn pc \<noteq> c" for pid pc
  proof -
    have "pid = ?pid \<and> pc = session_conn c ss" if "pc_conn pc = c" "mget (rg_conns ?r) pid = Some pc"
      by (rule ownedD [OF own that(2)]) (use that(1) c(1) in auto)
    moreover have "pc_ref q = pc_conn q" if "mget (rg_conns ?r) pid = Some q" for q pid
      by (rule ownedD [OF own that]) (metis session_conn_simps(1))
    ultimately show ?thesis by (auto simp: unregister_conns gomap_simps split: if_splits)
  qed
  have "owned ?d"
    unfolding owned_def
  proof (intro allI impI)
    fix pid pc assume "mget (rg_conns (dm_reg ?d)) pid = Some pc"
    with kept have "mget (rg_conns ?r) pid = Some pc" "pc_conn pc \<noteq> c" by blast+
    with own show "\<exists>s'. dm_sessions ?d (pc_conn pc) = Some s' \<and> live_phase (ss_phase s')
        \<and> pc = session_conn (pc_conn pc) s' \<and> p_ID (ss_peer s') = pid"
      by (auto elim!: ownedD)
  qed
  moreover have "accounted ?d"
    unfolding accounted_def
  proof (intro allI impI)
    fix x sx assume "dm_sessions ?d x = Some sx" "live_phase (ss_phase sx)"
    then have x: "dm_sessions d x = Some sx" "live_phase (ss_phase sx)" "x \<noteq> c"
      by (auto split: if_splits)
    have "replaced_closing ?d x sx" if "replaced_closing d x sx"
      by (rule replaced_closing_mono [OF that]) (use c in auto)
    with acc x kept show "mget (rg_conns (dm_reg ?d)) (p_ID (ss_peer sx)) = Some (session_conn x sx)
        \<or> replaced_closing ?d x sx"
      unfolding accounted_def by auto
  qed
  ultimately show ?thesis
    using ok by (auto simp: daemon_inv_def registry_kept)
qed

lemma step_install_inv:
  assumes inv: "daemon_inv d" and c: "dm_sessions d c = Some ss" "ss_phase ss = Greeted"
    and reg: "register_locked (session_conn c ss) (dm_reg d) = ((ok, old), r)"
    and ph: "ph = (if \<not> ok then Closing else case old of Some q \<Rightarrow> Replacing q | None \<Rightarrow> Running)"
  shows "ok \<and> daemon_inv (set_phase c ss ph (d\<lparr>dm_reg := r\<rparr>))" (is "ok \<and> daemon_inv ?d")
proof -
  let ?pid = "p_ID (ss_peer ss)"
  have own: "owned d" and acc: "accounted d" and ok: "dm_stopped d \<or> registry_ok (dm_reg d)"
    using inv by (auto simp: daemon_inv_def)
  have other: "pc_conn pc \<noteq> c \<and> pc_ref pc = pc_conn pc" if "mget (rg_conns (dm_reg d)) pid = Some pc" for pid pc
    by (rule ownedD [OF own that]) (use c in \<open>auto, metis session_conn_simps(1)\<close>)
  show ?thesis
  proof (cases rule: register_locked_cases [of "dm_reg d" "session_conn c ss"])
    case (same q)
    then show ?thesis using other [of ?pid q] by auto
  next
    case (new r')
    with reg have r: "ok" "r' = r" "old = mget (rg_conns (dm_reg d)) ?pid" by auto
    then have ph': "live_phase ph" "ph = (case old of Some q \<Rightarrow> Replacing q | None \<Rightarrow> Running)"
      using ph by (auto split: option.splits)
    have conns: "rg_conns (dm_reg ?d) = mput ?pid (session_conn c ss) (rg_conns (dm_reg d))"
      using new(3) r by simp
    have "owned ?d"
      unfolding owned_def
    proof (intro allI impI)
      fix pid pc assume "mget (rg_conns (dm_reg ?d)) pid = Some pc"
      then consider "pid = ?pid" "pc = session_conn c ss"
        | "pid \<noteq> ?pid" "mget (rg_conns (dm_reg d)) pid = Some pc"
        unfolding conns by (auto simp: gomap_simps split: if_splits)
      then show "\<exists>s'. dm_sessions ?d (pc_conn pc) = Some s' \<and> live_phase (ss_phase s')
          \<and> pc = session_conn (pc_conn pc) s' \<and> p_ID (ss_peer s') = pid"
      proof cases
        case 1
        then show ?thesis using ph'(1) by simp
      next
        case 2
        with own other [OF 2(2)] show ?thesis by (auto elim!: ownedD)
      qed
    qed
    moreover have "accounted ?d"
      unfolding accounted_def
    proof (intro allI impI)
      fix x sx assume x: "dm_sessions ?d x = Some sx" "live_phase (ss_phase sx)"
      have mono: "replaced_closing ?d y sy" if "replaced_closing d y sy" for y sy
        by (rule replaced_closing_mono [OF that]) (use c new(6) r in auto)
      show "mget (rg_conns (dm_reg ?d)) (p_ID (ss_peer sx)) = Some (session_conn x sx)
          \<or> replaced_closing ?d x sx"
      proof (cases "x = c")
        case True
        then show ?thesis using x conns by (auto simp: gomap_simps)
      next
        case False
        with x acc have "mget (rg_conns (dm_reg d)) (p_ID (ss_peer sx)) = Some (session_conn x sx)
            \<or> replaced_closing d x sx"
          by (auto simp: accounted_def)
        then show ?thesis
        proof
          assume m: "mget (rg_conns (dm_reg d)) (p_ID (ss_peer sx)) = Some (session_conn x sx)"
          show ?thesis
          proof (cases "p_ID (ss_peer sx) = ?pid")
            case True
            with m r(3) ph'(2) have "ph = Replacing (session_conn x sx)" by simp
            then show ?thesis by (auto simp: replaced_closing_def)
          next
            case False
            with m show ?thesis unfolding conns by (simp add: gomap_simps)
          qed
        qed (simp add: mono)
      qed
    qed
    moreover have "dm_stopped d \<or> registry_ok r"
      using register_locked_ok [of "dm_reg d" "session_conn c ss"] ok reg by auto
    ultimately show ?thesis using r(1) by (simp add: daemon_inv_def)
  qed
qed

lemma started_inv: "daemon_inv (started s)"
  by (simp add: daemon_inv_def started_def new_registry_ok owned_def accounted_def)
    (simp add: new_registry_def)

text \<open>Steps outside the sessions and the connections.\<close>

lemma store_only_inv:
  assumes "daemon_inv d"
  shows "daemon_inv (d\<lparr>dm_store := s\<rparr>)" "daemon_inv (d\<lparr>dm_unpairs := us\<rparr>)"
    "daemon_inv (d\<lparr>dm_store := s, dm_unpairs := us\<rparr>)"
  using assms inv_registry_only [OF assms, where r = "dm_reg d" and s = s and us = "dm_unpairs d"]
    inv_registry_only [OF assms, where r = "dm_reg d" and s = "dm_store d" and us = us] inv_registry_only [OF assms, where r = "dm_reg d" and s = s and us = us]
  by (simp_all add: daemon_inv_def)

lemma closed_socket_inv: "daemon_inv d \<Longrightarrow> daemon_inv (d\<lparr>dm_reg := close_socket c (dm_reg d)\<rparr>)"
  using inv_registry_only [where d = d and r = "close_socket c (dm_reg d)" and s = "dm_store d" and us = "dm_unpairs d"]
  by (simp add: daemon_inv_def registry_kept subset_insertI)
    (meson close_socket_ok)

lemma step_inv: "sync_step own d d' \<Longrightarrow> daemon_inv d \<Longrightarrow> daemon_inv d'"
proof (induction rule: sync_step.induct)
  case (opened d c cert p ss out addr)
  then show ?case by (intro inv_idle_phase) auto
next
  case (greet d c ss cfgName wrote got ev now sent ok s)
  have "daemon_inv (d\<lparr>dm_store := s\<rparr>)"
    using inv_registry_only [OF greet(4), where r = "dm_reg d" and s = s and us = "dm_unpairs d"] greet(4) by (simp add: daemon_inv_def)
  then show ?case
    unfolding set_phase_def
    by (rule inv_idle_phase) (use greet in \<open>auto split: if_splits\<close>)
next
  case (install d c ss ok old r ph)
  with step_install_inv show ?case by blast
next
  case (replace d c ss q)
  then show ?case by (intro step_replace_inv)
next
  case (finish d c ss)
  then show ?case by (intro step_finish_inv)
next
  case (hangup d c ss)
  have "daemon_inv (d\<lparr>dm_reg := close_socket c (dm_reg d)\<rparr>)"
    by (rule closed_socket_inv [OF hangup(3)])
  then show ?case
    unfolding set_phase_def by (rule inv_idle_phase) (use hangup in auto)
next
  case (bookkeeping r pid err d now n)
  then have "dm_stopped d \<or> registry_ok r" "rg_conns r = rg_conns (dm_reg d)" "rg_closed r = rg_closed (dm_reg d)"
    by (auto simp: daemon_inv_def registry_kept)
      (auto simp: recordError_def recordSent_def recordReceived_def beginConnect_def endConnect_def)
  then show ?case
    using inv_registry_only [OF bookkeeping(2), where r = r and s = "dm_store d" and us = "dm_unpairs d"] by simp
next
  case (unpair_close d xs pid found ys r)
  have "dm_stopped d \<or> registry_ok r" "rg_conns r = rg_conns (dm_reg d)" "set (rg_closed (dm_reg d)) \<subseteq> set (rg_closed r)"
    using unpair_close by (auto simp: daemon_inv_def registry_kept split: option.split)
  from inv_registry_only [OF unpair_close(3) this, where s = "dm_store d" and us = "xs @ Disconnected pid # ys"] show ?case by simp
next
  case (stop d)
  then show ?case by (rule inv_stop)
qed (auto intro: store_only_inv closed_socket_inv)

lemma run_inv: "sync_run own d d' \<Longrightarrow> daemon_inv d \<Longrightarrow> daemon_inv d'"
  by (induction rule: rtranclp_induct) (auto intro: step_inv)

section \<open>Where a session comes from\<close>

fun past_greeting :: "phase \<Rightarrow> bool" where
  "past_greeting Greeting = False"
| "past_greeting Closing = False"
| "past_greeting Ended = False"
| "past_greeting _ = True"

lemma step_session:
  assumes "sync_step own d d'" "dm_sessions d' c = Some ss'"
  shows "dm_sessions d c = None \<and> ss_phase ss' = Greeting \<and> dm_store d' = dm_store d
        \<and> TrustedFingerprint (cert_fingerprint (cert_raw (ss_cert ss'))) (dm_store d) = Some (ss_peer ss')
    \<or> (\<exists>ss. dm_sessions d c = Some ss \<and> ss' = ss\<lparr>ss_phase := ss_phase ss'\<rparr>
        \<and> (past_greeting (ss_phase ss') \<longrightarrow> past_greeting (ss_phase ss)
              \<or> ss_outbound ss = (id_ID own < p_ID (ss_peer ss))))"
  using assms
proof (induction rule: sync_step.induct)
  case (greet d c' ss cfgName wrote got ev now sent ok s)
  have "ok \<longrightarrow> ss_outbound ss = (id_ID own < p_ID (ss_peer ss))"
    using greet(3) by (auto elim: sync_greet_ok)
  with greet show ?case by (auto split: if_splits)
qed (auto split: if_splits option.splits)

lemma step_store_inv: "sync_step own d d' \<Longrightarrow> store_inv (dm_store d) \<Longrightarrow> store_inv (dm_store d')"
proof (induction rule: sync_step.induct)
  case (greet d c ss cfgName wrote got ev now sent ok s)
  then show ?case
    using sync_greet_store [of own cfgName "ss_outbound ss" "ss_peer ss" wrote got ev now "dm_store d"]
    by (auto simp: UpdateName_inv)
qed (auto intro: store_run_inv prune_inv Unpair_inv simp: Resolve_def Let_def)

lemma run_store_inv: "sync_run own d d' \<Longrightarrow> store_inv (dm_store d) \<Longrightarrow> store_inv (dm_store d')"
  by (induction rule: rtranclp_induct) (auto intro: step_store_inv)

text \<open>The step of a run in which a session was opened, with what the store said at that step.\<close>

definition admitted :: "identity \<Rightarrow> daemon \<Rightarrow> daemon \<Rightarrow> nat \<Rightarrow> session \<Rightarrow> bool" where
  "admitted own d0 d c ss \<longleftrightarrow>
     (\<exists>d1 d2. sync_run own d0 d1 \<and> sync_step own d1 d2 \<and> sync_run own d2 d
        \<and> dm_sessions d1 c = None \<and> dm_sessions d2 c = Some (ss\<lparr>ss_phase := Greeting\<rparr>)
        \<and> dm_store d2 = dm_store d1
        \<and> TrustedFingerprint (cert_fingerprint (cert_raw (ss_cert ss))) (dm_store d1) = Some (ss_peer ss))
     \<and> (past_greeting (ss_phase ss) \<longrightarrow> ss_outbound ss = (id_ID own < p_ID (ss_peer ss)))"

lemma admitted_step:
  assumes "admitted own d0 d c ss" "sync_step own d d'"
    and "past_greeting ph \<longrightarrow> past_greeting (ss_phase ss) \<or> ss_outbound ss = (id_ID own < p_ID (ss_peer ss))"
  shows "admitted own d0 d' c (ss\<lparr>ss_phase := ph\<rparr>)"
proof -
  from assms(1) obtain d1 d2 where "sync_run own d0 d1" "sync_step own d1 d2" "sync_run own d2 d"
      "dm_sessions d1 c = None" "dm_sessions d2 c = Some (ss\<lparr>ss_phase := Greeting\<rparr>)" "dm_store d2 = dm_store d1"
      "TrustedFingerprint (cert_fingerprint (cert_raw (ss_cert ss))) (dm_store d1) = Some (ss_peer ss)"
    and past: "past_greeting (ss_phase ss) \<longrightarrow> ss_outbound ss = (id_ID own < p_ID (ss_peer ss))"
    unfolding admitted_def by blast
  moreover from this(3) assms(2) have "sync_run own d2 d'" by (rule rtranclp.rtrancl_into_rtrancl)
  ultimately have "\<exists>d1 d2. sync_run own d0 d1 \<and> sync_step own d1 d2 \<and> sync_run own d2 d'
      \<and> dm_sessions d1 c = None \<and> dm_sessions d2 c = Some (ss\<lparr>ss_phase := Greeting\<rparr>)
      \<and> dm_store d2 = dm_store d1
      \<and> TrustedFingerprint (cert_fingerprint (cert_raw (ss_cert ss))) (dm_store d1) = Some (ss_peer ss)"
    by blast
  moreover have "past_greeting ph \<longrightarrow> ss_outbound ss = (id_ID own < p_ID (ss_peer ss))"
    using assms(3) past by blast
  ultimately show ?thesis by (simp add: admitted_def)
qed

lemma run_admitted:
  assumes "sync_run own (started s) d" "dm_sessions d c = Some ss"
  shows "admitted own (started s) d c ss"
  using assms
proof (induction arbitrary: ss rule: rtranclp_induct)
  case base
  then show ?case by (simp add: started_def)
next
  case (step d d')
  from step_session [OF step(2,4)] show ?case
  proof (elim disjE conjE exE)
    assume new: "dm_sessions d c = None" "ss_phase ss = Greeting" "dm_store d' = dm_store d"
      "TrustedFingerprint (cert_fingerprint (cert_raw (ss_cert ss))) (dm_store d) = Some (ss_peer ss)"
    then have "ss\<lparr>ss_phase := Greeting\<rparr> = ss" by simp
    with new step(1,2,4) show ?thesis
      unfolding admitted_def by (intro conjI exI [of _ d] exI [of _ d']) simp_all
  next
    fix s0 assume s0: "dm_sessions d c = Some s0" "ss = s0\<lparr>ss_phase := ss_phase ss\<rparr>"
      "past_greeting (ss_phase ss) \<longrightarrow> past_greeting (ss_phase s0)
         \<or> ss_outbound s0 = (id_ID own < p_ID (ss_peer s0))"
    have "admitted own (started s) d' c (s0\<lparr>ss_phase := ss_phase ss\<rparr>)"
      by (rule admitted_step [OF step(3) [OF s0(1)] step(2) s0(3)])
    with s0(2) show ?thesis by simp
  qed
qed

section \<open>The handler and the steps\<close>

text \<open>\<open>handleSync\<close> run alone, up to the registration, is a run of the machine.\<close>

lemma handleSync_steps:
  assumes h: "handleSync own cfgName outbound cert wrote got ev now c addr (dm_store d) (dm_reg d) = (sent, Some pc, s', r')"
    and new: "dm_sessions d c = None"
  shows "\<exists>ss. ss_cert ss = cert \<and> ss_phase ss = Running \<and> pc = session_conn c ss
    \<and> sync_run own d (d\<lparr>dm_store := s', dm_reg := r', dm_sessions := (dm_sessions d)(c \<mapsto> ss)\<rparr>)"
proof -
  from h obtain t where t: "TrustedFingerprint (cert_fingerprint (cert_raw cert)) (dm_store d) = Some t"
      "pc = \<lparr>pc_ref = c, pc_id = p_ID t, pc_conn = c, pc_addr = addr, pc_outbound = outbound\<rparr>"
      "register pc (dm_reg d) = (True, r')"
    by (auto elim: handleSync_Some)
  from h t(1) have g: "sync_greet own cfgName outbound t wrote got ev now (dm_store d) = (sent, True, s')"
    by (auto simp: handleSync_def Let_def split: prod.splits if_splits)
  define ss where "ss ph = \<lparr>ss_cert = cert, ss_peer = t, ss_outbound = outbound, ss_addr = addr, ss_phase = ph\<rparr>" for ph
  let ?d = "\<lambda>s r ph. d\<lparr>dm_store := s, dm_reg := r, dm_sessions := (dm_sessions d)(c \<mapsto> ss ph)\<rparr>"
  have pc: "session_conn c (ss ph) = pc" for ph by (simp add: session_conn_def ss_def t(2))
  have "sync_step own d (?d (dm_store d) (dm_reg d) Greeting)"
    using sync_step.opened [OF new t(1), of "ss Greeting" outbound addr] by (simp add: ss_def)
  moreover have "sync_step own (?d (dm_store d) (dm_reg d) Greeting) (?d s' (dm_reg d) Greeted)"
    using sync_step.greet [where own = own and d = "?d (dm_store d) (dm_reg d) Greeting" and c = c and ss = "ss Greeting"
        and ok = True and s = s' and cfgName = cfgName and wrote = wrote and got = got and ev = ev and now = now
        and sent = sent] g
    by (simp add: set_phase_def ss_def)
  moreover have "sync_run own (?d s' (dm_reg d) Greeted) (?d s' r' Running)"
  proof -
    obtain old r where l: "register_locked pc (dm_reg d) = ((True, old), r)"
        "r' = (case old of Some q \<Rightarrow> close_socket (pc_conn q) r | None \<Rightarrow> r)"
      using t(3) by (auto simp: register_def Let_def split: prod.splits if_splits)
    let ?ph = "case old of Some q \<Rightarrow> Replacing q | None \<Rightarrow> Running"
    have "sync_step own (?d s' (dm_reg d) Greeted) (?d s' r ?ph)"
      using sync_step.install [where own = own and d = "?d s' (dm_reg d) Greeted" and c = c and ss = "ss Greeted"
          and ok = True and old = old and r = r and ph = ?ph] l(1)
      by (simp add: pc set_phase_def) (simp add: ss_def)
    moreover have "sync_run own (?d s' r ?ph) (?d s' r' Running)"
    proof (cases old)
      case (Some q)
      have "sync_step own (?d s' r (Replacing q)) (?d s' r' Running)"
        using sync_step.replace [where own = own and d = "?d s' r (Replacing q)" and c = c and ss = "ss (Replacing q)" and q = q]
          l(2) Some
        by (simp add: set_phase_def) (simp add: ss_def)
      with Some show ?thesis by auto
    qed (use l(2) in simp)
    ultimately show ?thesis by (rule converse_rtranclp_into_rtranclp)
  qed
  ultimately have "sync_run own d (?d s' r' Running)" by (meson converse_rtranclp_into_rtranclp)
  then show ?thesis by (intro exI [of _ "ss Running"]) (simp add: pc, simp add: ss_def)
qed

text \<open>The \<open>unpair\<close> command that nothing interrupts is its four steps.\<close>

lemma unpair_command_steps:
  assumes "rq_Command q = ''unpair''" "rs_OK resp"
    and "handleControl cx q \<lparr>pt_store = dm_store d, pt_disc = disc, pt_reg = dm_reg d\<rparr> = (resp, pt')"
  obtains pid p found where
    "Resolve (cx_fold cx) (cx_clock cx 0) (rq_Argument q) [Trusted] (dm_store d)
       = (Inr (pid, p), prune_pending (cx_clock cx 0) (dm_store d))"
    "Unpair (cx_store cx) pid (prune_pending (cx_clock cx 0) (dm_store d)) = (None, pt_store pt')"
    "found = getConn pid (dm_reg d)"
    "pt_reg pt' = (case found of Some pc \<Rightarrow> close_socket (pc_conn pc) (dm_reg d) | None \<Rightarrow> dm_reg d)"
    "sync_run own d (d\<lparr>dm_reg := pt_reg pt', dm_store := pt_store pt'\<rparr>)"
proof -
  let ?s = "prune_pending (cx_clock cx 0) (dm_store d)"
  from assms obtain pid p where r: "Resolve (cx_fold cx) (cx_clock cx 0) (rq_Argument q) [Trusted] (dm_store d) = (Inr (pid, p), ?s)"
      "Unpair (cx_store cx) pid ?s = (None, pt_store pt')"
      "pt_reg pt' = (case getConn pid (dm_reg d) of Some pc \<Rightarrow> close_socket (pc_conn pc) (dm_reg d) | None \<Rightarrow> dm_reg d)"
    by (auto simp: handleControl_unpair Resolve_def Let_def split: sum.splits prod.splits cong: option.case_cong)
  let ?found = "getConn pid (dm_reg d)" and ?us = "dm_unpairs d"
  let ?d1 = "d\<lparr>dm_store := ?s, dm_unpairs := Resolved pid # ?us\<rparr>"
  let ?d2 = "d\<lparr>dm_store := ?s, dm_unpairs := Found pid ?found # ?us\<rparr>"
  let ?d3 = "d\<lparr>dm_store := ?s, dm_reg := pt_reg pt', dm_unpairs := Disconnected pid # ?us\<rparr>"
  have "sync_step own d ?d1" by (rule sync_step.unpair_resolve [OF r(1)])
  moreover have "sync_step own ?d1 ?d2"
    using sync_step.unpair_find [where own = own and d = ?d1 and xs = "[]" and pid = pid and ys = ?us] by simp
  moreover have "sync_step own ?d2 ?d3"
    using sync_step.unpair_close [where own = own and d = ?d2 and xs = "[]" and pid = pid and ys = ?us and found = ?found
        and r = "pt_reg pt'"] r(3) by (simp cong: option.case_cong)
  moreover have "sync_step own ?d3 (d\<lparr>dm_reg := pt_reg pt', dm_store := pt_store pt'\<rparr>)"
    using sync_step.unpair_remove [where own = own and d = ?d3 and xs = "[]" and pid = pid and ys = ?us and ev = "cx_store cx"] r(2)
    by simp
  ultimately have "sync_run own d (d\<lparr>dm_reg := pt_reg pt', dm_store := pt_store pt'\<rparr>)"
    by (meson converse_rtranclp_into_rtranclp rtranclp.rtrancl_refl)
  with that [OF r(1,2) refl r(3)] show thesis .
qed

section \<open>Properties of the running daemon\<close>

text \<open>
  What the status command shows is what is connected. Until the daemon stops, whatever sessions come and go, in any
  interleaving, a peer is shown as connected exactly when the registry holds a connection for it,
  and that connection belongs to a session of that peer that is still running.
\<close>

theorem status_shows_live_connections:
  assumes "sync_run own (started s) d" "\<not> dm_stopped d"
  shows "(sx_Connected (stats_of (dm_reg d) pid) \<longleftrightarrow> connected pid (dm_reg d))
    \<and> (connected pid (dm_reg d) \<longleftrightarrow>
        (\<exists>c ss. dm_sessions d c = Some ss \<and> live_phase (ss_phase ss) \<and> p_ID (ss_peer ss) = pid
           \<and> getConn pid (dm_reg d) = Some (session_conn c ss)))"
proof -
  have inv: "daemon_inv d" by (rule run_inv [OF assms(1) started_inv])
  with assms(2) have ok: "registry_ok (dm_reg d)" and own: "owned d" by (auto simp: daemon_inv_def)
  have "\<exists>c ss. dm_sessions d c = Some ss \<and> live_phase (ss_phase ss) \<and> p_ID (ss_peer ss) = pid
      \<and> getConn pid (dm_reg d) = Some (session_conn c ss)" if "connected pid (dm_reg d)"
  proof -
    from that obtain pc where pc: "mget (rg_conns (dm_reg d)) pid = Some pc"
      by (auto simp: connected_def)
    from own pc obtain ss where ss: "dm_sessions d (pc_conn pc) = Some ss" "live_phase (ss_phase ss)"
        "pc = session_conn (pc_conn pc) ss" "p_ID (ss_peer ss) = pid"
      by (rule ownedD)
    then show ?thesis using pc by (auto simp: getConn_def)
  qed
  then show ?thesis
    using ok by (auto simp: registry_ok_def connected_def getConn_def)
qed

text \<open>
  C11. One connection per peer. Two sessions with the same peer that are both past registration
  and whose sockets are both open are the same session, unless one of them is just about to be
  closed by the session that replaced it: a half-open old socket does not linger beside its
  replacement.
\<close>

theorem one_open_connection_per_peer:
  assumes "sync_run own (started s) d"
    and "dm_sessions d c1 = Some s1" "live_phase (ss_phase s1)" "c1 \<notin> set (rg_closed (dm_reg d))"
    and "dm_sessions d c2 = Some s2" "live_phase (ss_phase s2)" "c2 \<notin> set (rg_closed (dm_reg d))"
    and "p_ID (ss_peer s1) = p_ID (ss_peer s2)"
  shows "c1 = c2 \<or> (\<exists>c ss. dm_sessions d c = Some ss
      \<and> ss_phase ss \<in> {Replacing (session_conn c1 s1), Replacing (session_conn c2 s2)})"
proof -
  have acc: "accounted d" using run_inv [OF assms(1) started_inv] by (simp add: daemon_inv_def)
  then have a: "mget (rg_conns (dm_reg d)) (p_ID (ss_peer s1)) = Some (session_conn c1 s1)
      \<or> replaced_closing d c1 s1"
    and b: "mget (rg_conns (dm_reg d)) (p_ID (ss_peer s2)) = Some (session_conn c2 s2)
      \<or> replaced_closing d c2 s2"
    using assms(2,3,5,6) unfolding accounted_def by blast+
  then show ?thesis
    using assms(4,7,8) by (auto simp: replaced_closing_def dest: session_conn_inj)
qed

text \<open>
  C5. A session was let in by the trust store. Every sync session of every run, in whatever phase
  it is, was opened in a step of that run, and the store as it was at that very step trusted its
  peer, under the session's ID, with exactly the fingerprint of the certificate that the session's
  connection presented; and a session that got as far as registering was dialled by the device
  with the smaller ID.
\<close>

theorem sessions_come_from_trust:
  assumes "sync_run own (started s) d" "store_inv s" "dm_sessions d c = Some ss"
  shows "(\<exists>d1 d2. sync_run own (started s) d1 \<and> sync_step own d1 d2 \<and> sync_run own d2 d
        \<and> dm_sessions d1 c = None \<and> dm_sessions d2 c = Some (ss\<lparr>ss_phase := Greeting\<rparr>)
        \<and> dm_store d2 = dm_store d1 \<and> trusted_at (dm_store d1) (p_ID (ss_peer ss)) (ss_peer ss)
        \<and> p_Fingerprint (ss_peer ss) = cert_fingerprint (cert_raw (ss_cert ss)))
    \<and> (past_greeting (ss_phase ss) \<longrightarrow> ss_outbound ss = (id_ID own < p_ID (ss_peer ss)))"
proof -
  from run_admitted [OF assms(1,3)] obtain d1 d2 where d1: "sync_run own (started s) d1" "sync_step own d1 d2"
      "sync_run own d2 d" "dm_sessions d1 c = None" "dm_sessions d2 c = Some (ss\<lparr>ss_phase := Greeting\<rparr>)"
      "dm_store d2 = dm_store d1"
      "TrustedFingerprint (cert_fingerprint (cert_raw (ss_cert ss))) (dm_store d1) = Some (ss_peer ss)"
    and past: "past_greeting (ss_phase ss) \<longrightarrow> ss_outbound ss = (id_ID own < p_ID (ss_peer ss))"
    unfolding admitted_def by blast
  have "store_inv (dm_store d1)"
    using run_store_inv [OF d1(1)] assms(2) by (simp add: started_def)
  from TrustedFingerprint_entry [OF this d1(7)] d1 past show ?thesis by blast
qed

section \<open>A run, and a race\<close>

text \<open>Device a, whose store trusts b; b connects, greets with an empty name and is registered.\<close>

definition sample_session :: "phase \<Rightarrow> session" where
  "sample_session ph = \<lparr>ss_cert = sample_device_cert ''b'' ''B'', ss_peer = sample_trusted\<lparr>p_ID := ''b'',
     p_Fingerprint := cert_fingerprint ''B''\<rparr>, ss_outbound = True, ss_addr = ''b:1'', ss_phase = ph\<rparr>"

definition sample_daemon :: "store \<Rightarrow> registry \<Rightarrow> phase \<Rightarrow> daemon" where
  "sample_daemon s r ph = \<lparr>dm_store = s, dm_reg = r, dm_sessions = (\<lambda>_. None)(1 \<mapsto> sample_session ph),
     dm_unpairs = [], dm_stopped = False\<rparr>"

definition sample_registered :: registry where
  "sample_registered = snd (register_locked (session_conn 1 (sample_session Greeted)) new_registry)"

lemma sample_open:
  "sync_step (sample_device ''a'' ''A'') (started (sample_link_store ''b'' ''B''))
     (sample_daemon (sample_link_store ''b'' ''B'') new_registry Greeting)"
proof -
  let ?s = "sample_link_store ''b'' ''B''"
  have "sync_step (sample_device ''a'' ''A'') (started ?s)
      (started ?s\<lparr>dm_sessions := (dm_sessions (started ?s))(1 \<mapsto> sample_session Greeting)\<rparr>)"
    by (intro sync_step.opened [OF _ _ sample_session_def])
      (simp_all add: started_def sample_link_trust)
  then show ?thesis by (simp add: started_def sample_daemon_def)
qed

lemma normalize_Nil: "NormalizeDeviceName [] = []"
  by (simp add: NormalizeDeviceName_eq)

lemma sample_greet:
  "sync_step (sample_device ''a'' ''A'') (sample_daemon s new_registry Greeting)
     (sample_daemon s new_registry Greeted)"
proof -
  have "sync_greet (sample_device ''a'' ''A'') ''A'' True (ss_peer (sample_session Greeting)) None
      (Inr (hello_message (sample_device ''b'' ''B'') [])) sample_env 5 s
      = (Some (hello_message (sample_device ''a'' ''A'') ''A''), True, s)"
    by (simp add: sync_greet_def hello_message_def empty_message_def sample_device_def
        sample_session_def normalize_Nil)
  then have "sync_step (sample_device ''a'' ''A'') (sample_daemon s new_registry Greeting)
      (set_phase 1 (sample_session Greeting) (if True then Greeted else Closing)
        ((sample_daemon s new_registry Greeting)\<lparr>dm_store := s\<rparr>))"
    by (intro sync_step.greet) (simp_all add: sample_daemon_def sample_session_def)
  then show ?thesis by (simp add: set_phase_def sample_daemon_def sample_session_def)
qed

lemma sample_install:
  "sync_step (sample_device ''a'' ''A'') (sample_daemon s new_registry Greeted)
     (sample_daemon s sample_registered Running)"
proof -
  let ?pc = "session_conn 1 (sample_session Greeted)"
  have "register_locked ?pc new_registry = ((True, None), sample_registered)"
    by (simp add: sample_registered_def register_locked_def new_registry_def Let_def)
  then have "sync_step (sample_device ''a'' ''A'') (sample_daemon s new_registry Greeted)
      (set_phase 1 (sample_session Greeted) Running
        ((sample_daemon s new_registry Greeted)\<lparr>dm_reg := sample_registered\<rparr>))"
    by (intro sync_step.install [where ok = True and old = None and r = sample_registered]) (simp_all add: sample_daemon_def sample_session_def)
  then show ?thesis by (simp add: set_phase_def sample_daemon_def sample_session_def)
qed

lemma sample_daemon_registered:
  "getConn ''b'' sample_registered = Some (session_conn 1 (sample_session Greeted))"
  "rg_closed sample_registered = []"
  by (simp_all add: sample_registered_def register_locked_def getConn_def new_registry_def
      sample_session_def session_conn_def update_stats_def Let_def)

lemma sample_run_registered:
  "sync_run (sample_device ''a'' ''A'') (started (sample_link_store ''b'' ''B''))
     (sample_daemon (sample_link_store ''b'' ''B'') sample_registered Running)"
  using sample_open sample_greet sample_install
  by (meson converse_rtranclp_into_rtranclp rtranclp.rtrancl_refl)

lemma sample_live:
  "dm_sessions (sample_daemon s r Running) 1 = Some (sample_session Running)"
  "live_phase (ss_phase (sample_session Running))" "p_ID (ss_peer (sample_session ph)) = ''b''"
  by (simp_all add: sample_daemon_def sample_session_def)

theorem status_shows_live_connections_witness:
  "sx_Connected (stats_of sample_registered ''b'')"
proof -
  have "connected ''b'' sample_registered"
    using sample_daemon_registered(1) by (simp add: connected_def getConn_def)
  then show ?thesis
    using status_shows_live_connections [OF sample_run_registered, of "''b''"]
    by (simp add: sample_daemon_def)
qed

text \<open>A second session with the same peer, which has just taken the place of the first.\<close>

definition sample_two :: daemon where
  "sample_two = \<lparr>dm_store = sample_link_store ''b'' ''B'',
     dm_reg = snd (register_locked (session_conn 2 (sample_session Greeted)) sample_registered),
     dm_sessions = (\<lambda>_. None)(1 \<mapsto> sample_session Running,
       2 \<mapsto> sample_session (Replacing (session_conn 1 (sample_session Greeted)))),
     dm_unpairs = [], dm_stopped = False\<rparr>"

lemma sample_open_next:
  assumes "dm_store d = sample_link_store ''b'' ''B''" "dm_sessions d c = None"
  shows "sync_step own d (d\<lparr>dm_sessions := (dm_sessions d)(c \<mapsto> sample_session Greeting)\<rparr>)"
  by (intro sync_step.opened [OF _ _ sample_session_def]) (simp_all add: assms sample_link_trust)

lemma sample_greet_next:
  assumes "dm_sessions d c = Some (sample_session Greeting)"
  shows "sync_step (sample_device ''a'' ''A'') d (set_phase c (sample_session Greeting) Greeted d)"
proof -
  have "sync_greet (sample_device ''a'' ''A'') ''A'' (ss_outbound (sample_session Greeting))
      (ss_peer (sample_session Greeting)) None (Inr (hello_message (sample_device ''b'' ''B'') [])) sample_env 5 (dm_store d)
      = (Some (hello_message (sample_device ''a'' ''A'') ''A''), True, dm_store d)"
    by (simp add: sync_greet_def hello_message_def empty_message_def sample_device_def
        sample_session_def normalize_Nil)
  from sync_step.greet [OF assms _ this] show ?thesis by (simp add: sample_session_def)
qed

lemma sample_run_two:
  "sync_run (sample_device ''a'' ''A'') (started (sample_link_store ''b'' ''B'')) sample_two"
proof -
  let ?own = "sample_device ''a'' ''A''"
  let ?d0 = "sample_daemon (sample_link_store ''b'' ''B'') sample_registered Running"
  let ?d1 = "?d0\<lparr>dm_sessions := (dm_sessions ?d0)(2 \<mapsto> sample_session Greeting)\<rparr>"
  let ?d2 = "set_phase 2 (sample_session Greeting) Greeted ?d1"
  let ?q = "session_conn 1 (sample_session Greeted)" and ?pc = "session_conn 2 (sample_session Greeted)"
  have s1: "sync_step ?own ?d0 ?d1" by (rule sample_open_next) (simp_all add: sample_daemon_def)
  have s2: "sync_step ?own ?d1 ?d2" by (rule sample_greet_next) simp
  have "register_locked ?pc (dm_reg ?d2) = ((True, Some ?q), snd (register_locked ?pc sample_registered))"
    using sample_daemon_registered(1)
    by (simp add: set_phase_def sample_daemon_def register_locked_def getConn_def session_conn_def
        sample_session_def Let_def)
  then have "sync_step ?own ?d2 (set_phase 2 (sample_session Greeted) (Replacing ?q)
      (?d2\<lparr>dm_reg := snd (register_locked ?pc sample_registered)\<rparr>))"
    by (intro sync_step.install [where ok = True and old = "Some ?q"
          and r = "snd (register_locked ?pc sample_registered)"]) (simp_all add: set_phase_def sample_session_def)
  then have s3: "sync_step ?own ?d2 sample_two"
    by (simp add: set_phase_def sample_daemon_def sample_two_def sample_session_def)
  show ?thesis
    using sample_run_registered s1 s2 s3 by (meson rtranclp.rtrancl_into_rtrancl)
qed

theorem one_open_connection_per_peer_witness:
  "\<exists>c ss. dm_sessions sample_two c = Some ss
     \<and> ss_phase ss \<in> {Replacing (session_conn 1 (sample_session Running)), Replacing
         (session_conn 2 (sample_session (Replacing (session_conn 1 (sample_session Greeted)))))}"
proof -
  let ?two = "sample_session (Replacing (session_conn 1 (sample_session Greeted)))"
  have s: "dm_sessions sample_two 1 = Some (sample_session Running)" "dm_sessions sample_two 2 = Some ?two"
    "live_phase (ss_phase ?two)" "p_ID (ss_peer ?two) = ''b''" "rg_closed (dm_reg sample_two) = []"
    using sample_daemon_registered(2)
    by (simp_all add: sample_two_def sample_session_def session_conn_def register_locked_def
        update_stats_def Let_def)
  from one_open_connection_per_peer [OF sample_run_two s(1) sample_live(2) _ s(2,3)] s(4,5)
  show ?thesis by (simp add: sample_live(3))
qed

theorem sessions_come_from_trust_witness:
  "\<exists>d1 d2. sync_run (sample_device ''a'' ''A'') (started (sample_link_store ''b'' ''B'')) d1
     \<and> sync_step (sample_device ''a'' ''A'') d1 d2 \<and> dm_sessions d1 1 = None
     \<and> trusted_at (dm_store d1) ''b'' (ss_peer (sample_session Running))"
proof -
  have "store_inv (sample_link_store ''b'' ''B'')" by (rule sample_link_inv)
  from sessions_come_from_trust [OF sample_run_registered this sample_live(1)] sample_live(3) [of Running]
  show ?thesis by metis
qed

text \<open>The greeting in which the peer says hello, and the registration after it.\<close>

lemma greeted_registers:
  assumes ss: "dm_sessions d c = Some ss" "ss_phase ss = Greeting"
    and dialler: "ss_outbound ss = (id_ID own < p_ID (ss_peer ss))"
    and unknown: "mget (st_peers (dm_store d)) (p_ID (ss_peer ss)) = None"
    and other: "\<And>q. getConn (p_ID (ss_peer ss)) (dm_reg d) = Some q \<Longrightarrow> pc_ref q \<noteq> c"
  shows "\<exists>d1 d2 ph. sync_step own d d1 \<and> sync_step own d1 d2 \<and> dm_store d1 = dm_store d \<and> dm_store d2 = dm_store d
    \<and> dm_sessions d2 c = Some (ss\<lparr>ss_phase := ph\<rparr>) \<and> live_phase ph
    \<and> getConn (p_ID (ss_peer ss)) (dm_reg d2) = Some (session_conn c ss)
    \<and> rg_closed (dm_reg d2) = rg_closed (dm_reg d)"
proof -
  let ?pid = "p_ID (ss_peer ss)" and ?pc = "session_conn c ss"
  let ?m = "empty_message\<lparr>m_Type := ''hello'', m_DeviceID := ?pid\<rparr>"
  have "sync_greet own cfgName (ss_outbound ss) (ss_peer ss) None (Inr ?m) ev now (dm_store d)
      = (Some (hello_message own cfgName), True, dm_store d)" for cfgName ev now
    using dialler unknown
    by (simp add: sync_greet_def Let_def empty_message_def normalize_Nil)
  from sync_step.greet [OF ss this] have g: "sync_step own d (set_phase c ss Greeted d)" by simp
  let ?d1 = "set_phase c ss Greeted d"
  obtain old r where l: "register_locked ?pc (dm_reg d) = ((True, old), r)"
      "rg_conns r = mput ?pid ?pc (rg_conns (dm_reg d))" "rg_closed r = rg_closed (dm_reg d)"
    by (cases rule: register_locked_cases [of "dm_reg d" ?pc]) (use other in \<open>auto simp: getConn_def\<close>)
  let ?ph = "case old of Some q \<Rightarrow> Replacing q | None \<Rightarrow> Running"
  have "sync_step own ?d1 (set_phase c (ss\<lparr>ss_phase := Greeted\<rparr>) ?ph (?d1\<lparr>dm_reg := r\<rparr>))"
    by (rule sync_step.install [where ok = True and old = old]) (simp_all add: l(1))
  moreover have "live_phase ?ph" by (simp split: option.split)
  moreover have "dm_sessions (set_phase c (ss\<lparr>ss_phase := Greeted\<rparr>) ?ph (?d1\<lparr>dm_reg := r\<rparr>)) c = Some (ss\<lparr>ss_phase := ?ph\<rparr>)"
    by simp
  moreover have "getConn ?pid r = Some ?pc" by (simp add: getConn_def l(2) gomap_simps)
  ultimately show ?thesis
    using g l(3) by (intro exI [of _ ?d1] exI [of _ "set_phase c (ss\<lparr>ss_phase := Greeted\<rparr>) ?ph (?d1\<lparr>dm_reg := r\<rparr>)"]
      exI [of _ ?ph]) simp
qed

text \<open>A successful \<open>unpair\<close> that removed a device, as the sessions see it.\<close>

lemma unpair_spares_greeting:
  assumes inv: "daemon_inv d" and ss: "dm_sessions d c = Some ss" "\<not> live_phase (ss_phase ss)"
    and cmd: "rq_Command q = ''unpair''" "rs_OK resp"
      "handleControl cx q \<lparr>pt_store = dm_store d, pt_disc = disc, pt_reg = dm_reg d\<rparr> = (resp, pt')"
  shows "\<And>x. getConn x (pt_reg pt') = getConn x (dm_reg d)"
    and "\<And>x y. getConn x (pt_reg pt') = Some y \<Longrightarrow> pc_ref y \<noteq> c"
    and "c \<in> set (rg_closed (pt_reg pt')) \<longleftrightarrow> c \<in> set (rg_closed (dm_reg d))"
proof -
  obtain i where r: "pt_reg pt' = (case getConn i (dm_reg d) of Some pc \<Rightarrow> close_socket (pc_conn pc) (dm_reg d)
      | None \<Rightarrow> dm_reg d)"
    using unpair_command_steps [OF cmd] by metis
  then show conns: "getConn x (pt_reg pt') = getConn x (dm_reg d)" for x
    by (simp add: getConn_def split: option.split)
  have other: "pc_ref y \<noteq> c \<and> pc_conn y \<noteq> c" if y: "getConn x (dm_reg d) = Some y" for x y
  proof -
    from inv y obtain s0 where "dm_sessions d (pc_conn y) = Some s0" "live_phase (ss_phase s0)"
        "y = session_conn (pc_conn y) s0"
      unfolding daemon_inv_def getConn_def by (metis ownedD)
    with ss show ?thesis by (metis option.inject session_conn_simps(1))
  qed
  then show "pc_ref y \<noteq> c" if "getConn x (pt_reg pt') = Some y" for x y using conns that by auto
  show "c \<in> set (rg_closed (pt_reg pt')) \<longleftrightarrow> c \<in> set (rg_closed (dm_reg d))"
    unfolding r using other [of i] by (auto split: option.split)
qed

text \<open>
  C27. Unpairing misses a connection that is still greeting. \<open>unpair\<close> closes the peer's registered
  connection and then removes the peer from the store, while \<open>handleSync\<close> asks the store only once,
  before the greeting. In every state that a daemon can reach, if a session is greeting with a
  device, on a connection dialled from the right side and not closed, and an \<open>unpair\<close> command that
  succeeds removes that device, then the session's next two steps (the peer's hello, and the
  registration) register the connection under the device's ID, with its socket open, although
  the store does not know the device any more and nothing was paired again in between.
\<close>

theorem unpair_can_miss_a_connection:
  assumes "sync_run own (started s) d" "store_inv s"
    and "dm_sessions d c = Some ss" "ss_phase ss = Greeting" "c \<notin> set (rg_closed (dm_reg d))"
    and "ss_outbound ss = (id_ID own < p_ID (ss_peer ss))"
    and "rq_Command q = ''unpair''" "rs_OK resp"
    and "handleControl cx q \<lparr>pt_store = dm_store d, pt_disc = disc, pt_reg = dm_reg d\<rparr> = (resp, pt')"
    and "mget (st_peers (pt_store pt')) (p_ID (ss_peer ss)) = None"
  shows "\<exists>d1 d2 ph. sync_run own d (d\<lparr>dm_reg := pt_reg pt', dm_store := pt_store pt'\<rparr>)
    \<and> sync_step own (d\<lparr>dm_reg := pt_reg pt', dm_store := pt_store pt'\<rparr>) d1 \<and> sync_step own d1 d2
    \<and> dm_store d1 = pt_store pt' \<and> dm_store d2 = pt_store pt'
    \<and> dm_sessions d2 c = Some (ss\<lparr>ss_phase := ph\<rparr>) \<and> live_phase ph
    \<and> getConn (p_ID (ss_peer ss)) (dm_reg d2) = Some (session_conn c ss) \<and> c \<notin> set (rg_closed (dm_reg d2))
    \<and> (\<forall>p. \<not> trusted_at (dm_store d2) (p_ID (ss_peer ss)) p)"
proof -
  let ?d = "d\<lparr>dm_reg := pt_reg pt', dm_store := pt_store pt'\<rparr>" and ?pid = "p_ID (ss_peer ss)"
  have inv: "daemon_inv d" by (rule run_inv [OF assms(1) started_inv])
  have "\<not> live_phase (ss_phase ss)" using assms(4) by simp
  note spared = unpair_spares_greeting [OF inv assms(3) this assms(7-9)]
  have "sync_run own d ?d" using unpair_command_steps [OF assms(7-9)] by metis
  moreover obtain d1 d2 ph where "sync_step own ?d d1" "sync_step own d1 d2" "dm_store d1 = pt_store pt'"
      "dm_store d2 = pt_store pt'" "dm_sessions d2 c = Some (ss\<lparr>ss_phase := ph\<rparr>)" "live_phase ph"
      "getConn ?pid (dm_reg d2) = Some (session_conn c ss)" "rg_closed (dm_reg d2) = rg_closed (pt_reg pt')"
    using greeted_registers [of ?d c ss own] assms(3,4,6,10) spared(2) by auto
  moreover have "c \<notin> set (rg_closed (pt_reg pt'))" using spared(3) assms(5) by simp
  moreover have "\<not> trusted_at (pt_store pt') ?pid p" for p using assms(10) by (simp add: trusted_at_def)
  ultimately show ?thesis by (intro exI [of _ d1] exI [of _ d2] exI [of _ ph]) simp
qed

theorem unpair_can_miss_a_connection_witness:
  "\<exists>d2 :: daemon. getConn ''b'' (dm_reg d2) = Some (session_conn 1 (sample_session Greeting)) \<and> 1 \<notin> set (rg_closed (dm_reg d2))
     \<and> (\<forall>p. \<not> trusted_at (dm_store d2) ''b'' p)"
proof -
  let ?s = "sample_link_store ''b'' ''B''" and ?own = "sample_device ''a'' ''A''"
  let ?d = "sample_daemon ?s new_registry Greeting"
  let ?h = "handleControl sample_control sample_unpair_request \<lparr>pt_store = ?s, pt_disc = sample_service, pt_reg = new_registry\<rparr>"
  have run: "sync_run ?own (started ?s) ?d" using sample_open by blast
  obtain resp pt' where h: "?h = (resp, pt')" by fastforce
  have "rs_OK (fst ?h) \<and> st_peers (pt_store (snd ?h)) = []"
    by (simp add: handleControl_unpair sample_unpair_request_def sample_control_def Resolve_def Unpair_def
        sample_eval sample_link_store_def sample_trusted_store_def sample_trusted_def getConn_def new_registry_def)
  then have ok: "rs_OK resp" "mget (st_peers (pt_store pt')) (p_ID (ss_peer (sample_session Greeting))) = None"
    unfolding h by simp_all
  have d: "dm_sessions ?d 1 = Some (sample_session Greeting)" "ss_phase (sample_session Greeting) = Greeting"
    "1 \<notin> set (rg_closed (dm_reg ?d))" "dm_store ?d = ?s" "dm_reg ?d = new_registry"
    "ss_outbound (sample_session Greeting) = (id_ID ?own < p_ID (ss_peer (sample_session Greeting)))"
    by (simp_all add: sample_daemon_def sample_session_def new_registry_def sample_device_def)
  have cmd: "rq_Command sample_unpair_request = ''unpair''" by (simp add: sample_unpair_request_def)
  have "handleControl sample_control sample_unpair_request
      \<lparr>pt_store = dm_store ?d, pt_disc = sample_service, pt_reg = dm_reg ?d\<rparr> = (resp, pt')"
    using h by (simp add: d(4,5))
  from unpair_can_miss_a_connection [OF run sample_link_inv d(1,2,3,6) cmd ok(1) this ok(2)]
  show ?thesis unfolding sample_live(3) by blast
qed

end
