(* ===== verification/Connection_Writer.thy ===== *)
theory Connection_Writer
  imports Clipboard_Flow
begin

text \<open>
  One connection written by several goroutines (\<open>send\<close> and \<open>readLoop\<close> of
  \<open>internal/daemon/daemon.go\<close>): \<open>writeLoop\<close> sends clipboard messages, the ticker of \<open>readLoop\<close>
  pings and its reading goroutine pongs. \<open>send\<close> holds the connection's mutex while the frame is
  written, piece by piece; what the peer reads of all this is the subject of the theory.
\<close>

section \<open>send\<close>

definition stamped :: "message \<Rightarrow> message" where
  "stamped m = (if m_Protocol m = 0 then m\<lparr>m_Protocol := Version\<rparr> else m)"

definition send :: "(message \<Rightarrow> string option) \<Rightarrow> 'w writer \<Rightarrow> 'w \<Rightarrow> message \<Rightarrow> write_error option \<times> 'w" where
  "send marshal step w m = Write marshal step w m DefaultMaxFrame"

text \<open>
  The same call in steps: \<open>Waiting\<close> for the mutex, then \<open>Writing\<close> with the bytes that are left. A
  write that fails (its deadline passed, the peer is gone) may have taken any part of them, and
  breaks the TLS connection: no later write takes a byte.
\<close>

datatype send_job = Waiting message | Writing message string

record shared_conn =
  sc_lock :: "nat option"
  sc_jobs :: "nat \<Rightarrow> send_job option"
  sc_bytes :: string
  sc_broken :: bool
  sc_called :: "message list"
  sc_sent :: "message list"

definition new_conn :: shared_conn where
  "new_conn = \<lparr>sc_lock = None, sc_jobs = (\<lambda>_. None), sc_bytes = [], sc_broken = False, sc_called = [], sc_sent = []\<rparr>"

inductive send_step :: "(message \<Rightarrow> string option) \<Rightarrow> shared_conn \<Rightarrow> shared_conn \<Rightarrow> bool" for marshal where
  called: "sc_jobs c i = None
    \<Longrightarrow> send_step marshal c (c\<lparr>sc_jobs := (sc_jobs c)(i := Some (Waiting m)), sc_called := sc_called c @ [m]\<rparr>)"
| locked: "sc_jobs c i = Some (Waiting m) \<Longrightarrow> sc_lock c = None
    \<Longrightarrow> marshal (stamped m) = Some b \<Longrightarrow> length b \<le> DefaultMaxFrame
    \<Longrightarrow> send_step marshal c (c\<lparr>sc_lock := Some i, sc_jobs := (sc_jobs c)(i := Some (Writing m (frame b)))\<rparr>)"
| refused: "sc_jobs c i = Some (Waiting m) \<Longrightarrow> sc_lock c = None
    \<Longrightarrow> marshal (stamped m) = None \<or> (\<exists>b. marshal (stamped m) = Some b \<and> DefaultMaxFrame < length b)
    \<Longrightarrow> send_step marshal c (c\<lparr>sc_jobs := (sc_jobs c)(i := None)\<rparr>)"
| wrote: "sc_jobs c i = Some (Writing m (x @ y)) \<Longrightarrow> \<not> sc_broken c
    \<Longrightarrow> send_step marshal c (c\<lparr>sc_jobs := (sc_jobs c)(i := Some (Writing m y)), sc_bytes := sc_bytes c @ x\<rparr>)"
| finished: "sc_jobs c i = Some (Writing m [])
    \<Longrightarrow> send_step marshal c (c\<lparr>sc_lock := None, sc_jobs := (sc_jobs c)(i := None), sc_sent := sc_sent c @ [stamped m]\<rparr>)"
| failed: "sc_jobs c i = Some (Writing m y)
    \<Longrightarrow> send_step marshal c (c\<lparr>sc_lock := None, sc_jobs := (sc_jobs c)(i := None), sc_broken := True\<rparr>)"

section \<open>The bytes on the connection\<close>

definition frames_of :: "(message \<Rightarrow> string option) \<Rightarrow> message list \<Rightarrow> string" where
  "frames_of marshal ms = concat (map (\<lambda>m. frame (the (marshal m))) ms)"

lemma frames_of_simps [simp]:
  "frames_of marshal [] = []" "frames_of marshal (ms @ [m]) = frames_of marshal ms @ frame (the (marshal m))"
  by (simp_all add: frames_of_def)

definition encodes :: "(message \<Rightarrow> string option) \<Rightarrow> message \<Rightarrow> string \<Rightarrow> bool" where
  "encodes marshal m b \<longleftrightarrow> marshal (stamped m) = Some b \<and> length b \<le> DefaultMaxFrame"

text \<open>What the frame being written has put on the connection; nothing once the connection is broken.\<close>

definition wrote_part :: "(message \<Rightarrow> string option) \<Rightarrow> shared_conn \<Rightarrow> string \<Rightarrow> bool" where
  "wrote_part marshal c x \<longleftrightarrow> (if sc_broken c then x = [] else sc_bytes c = frames_of marshal (sc_sent c) @ x)"

lemma wrote_part_simps [simp]:
  "wrote_part marshal (c\<lparr>sc_lock := l\<rparr>) = wrote_part marshal c"
  "wrote_part marshal (c\<lparr>sc_jobs := j\<rparr>) = wrote_part marshal c"
  "wrote_part marshal (c\<lparr>sc_called := ms\<rparr>) = wrote_part marshal c"
  by (auto simp: wrote_part_def fun_eq_iff)

text \<open>Only the holder of the mutex writes, and what follows the finished frames is part of one.\<close>

definition part_of_called :: "(message \<Rightarrow> string option) \<Rightarrow> shared_conn \<Rightarrow> bool" where
  "part_of_called marshal c \<longleftrightarrow> (\<exists>m b x y. m \<in> set (sc_called c) \<and> encodes marshal m b \<and> frame b = x @ y
     \<and> sc_bytes c = frames_of marshal (sc_sent c) @ x)"

definition sent_ok :: "(message \<Rightarrow> string option) \<Rightarrow> message list \<Rightarrow> message list \<Rightarrow> bool" where
  "sent_ok marshal called sent \<longleftrightarrow> (\<forall>s \<in> set sent. \<exists>m b. m \<in> set called \<and> s = stamped m \<and> encodes marshal m b)"

definition conn_ok :: "(message \<Rightarrow> string option) \<Rightarrow> shared_conn \<Rightarrow> bool" where
  "conn_ok marshal c \<longleftrightarrow>
     (\<forall>i m y. sc_jobs c i = Some (Writing m y) \<longrightarrow> sc_lock c = Some i \<and> m \<in> set (sc_called c)
        \<and> (\<exists>b x. encodes marshal m b \<and> frame b = x @ y \<and> wrote_part marshal c x))
   \<and> (\<forall>i. sc_lock c = Some i \<longrightarrow> (\<exists>m y. sc_jobs c i = Some (Writing m y)))
   \<and> (\<forall>i m. sc_jobs c i = Some (Waiting m) \<longrightarrow> m \<in> set (sc_called c))
   \<and> (sc_lock c = None \<and> \<not> sc_broken c \<longrightarrow> sc_bytes c = frames_of marshal (sc_sent c))
   \<and> (sc_broken c \<longrightarrow> part_of_called marshal c)
   \<and> sent_ok marshal (sc_called c) (sc_sent c)"

lemma frame_not_empty [simp]: "frame b \<noteq> []"
  by (metis length_frame length_0_conv add_is_0 zero_neq_numeral)

lemma conn_okI:
  assumes "\<And>i m y. sc_jobs c i = Some (Writing m y) \<Longrightarrow> sc_lock c = Some i \<and> m \<in> set (sc_called c)
        \<and> (\<exists>b x. encodes marshal m b \<and> frame b = x @ y \<and> wrote_part marshal c x)"
    and "\<And>i. sc_lock c = Some i \<Longrightarrow> \<exists>m y. sc_jobs c i = Some (Writing m y)"
    and "\<And>i m. sc_jobs c i = Some (Waiting m) \<Longrightarrow> m \<in> set (sc_called c)"
    and "sc_lock c = None \<Longrightarrow> \<not> sc_broken c \<Longrightarrow> sc_bytes c = frames_of marshal (sc_sent c)"
    and "sc_broken c \<Longrightarrow> part_of_called marshal c" "sent_ok marshal (sc_called c) (sc_sent c)"
  shows "conn_ok marshal c"
  using assms unfolding conn_ok_def by blast

lemma conn_okD:
  assumes "conn_ok marshal c"
  shows "sc_jobs c i = Some (Writing m y) \<Longrightarrow> sc_lock c = Some i"
    and "sc_jobs c i = Some (Writing m y) \<Longrightarrow> m \<in> set (sc_called c)"
    and "sc_jobs c i = Some (Writing m y) \<Longrightarrow> \<exists>b x. encodes marshal m b \<and> frame b = x @ y \<and> wrote_part marshal c x"
    and "sc_lock c = Some i \<Longrightarrow> \<exists>m y. sc_jobs c i = Some (Writing m y)"
    and "sc_jobs c i = Some (Waiting m) \<Longrightarrow> m \<in> set (sc_called c)"
    and "sc_lock c = None \<Longrightarrow> \<not> sc_broken c \<Longrightarrow> sc_bytes c = frames_of marshal (sc_sent c)"
    and "sc_broken c \<Longrightarrow> part_of_called marshal c" "sent_ok marshal (sc_called c) (sc_sent c)"
  using assms unfolding conn_ok_def by blast+

lemma part_of_called_more:
  "part_of_called marshal c \<Longrightarrow> set (sc_called c) \<subseteq> set (sc_called c') \<Longrightarrow> sc_bytes c' = sc_bytes c
     \<Longrightarrow> sc_sent c' = sc_sent c \<Longrightarrow> part_of_called marshal c'"
  unfolding part_of_called_def by (metis subsetD)

lemma sent_ok_more: "sent_ok marshal called sent \<Longrightarrow> set called \<subseteq> set called' \<Longrightarrow> sent_ok marshal called' sent"
  unfolding sent_ok_def by blast

lemma sent_ok_snoc:
  "sent_ok marshal called sent \<Longrightarrow> m \<in> set called \<Longrightarrow> encodes marshal m b \<Longrightarrow> sent_ok marshal called (sent @ [stamped m])"
  unfolding sent_ok_def by auto

lemma conn_ok_new: "conn_ok marshal new_conn"
  by (simp add: conn_ok_def new_conn_def sent_ok_def)

lemma send_step_ok: "send_step marshal c c' \<Longrightarrow> conn_ok marshal c \<Longrightarrow> conn_ok marshal c'"
proof (induction rule: send_step.induct)
  case (called c i m)
  note d = conn_okD [OF called(2)]
  have other: "j \<noteq> i" if "sc_lock c = Some j" for j using d(4) [OF that] called(1) by auto
  show ?case
  proof (rule conn_okI, goal_cases)
    case (1 j m' y)
    then show ?case using d(1-3) [of j m' y] by (auto split: if_splits)
  next
    case (2 j) then show ?case using d(4) other by auto
  next
    case (3 j m') then show ?case using d(5) by (auto split: if_splits)
  next
    case 4 then show ?case using d(6) by simp
  next
    case 5 then show ?case using d(7) by (auto intro: part_of_called_more)
  next
    case 6 show ?case using d(8) by (auto intro: sent_ok_more)
  qed
next
  case (locked c i m b)
  note d = conn_okD [OF locked(5)]
  have free: "sc_jobs c j \<noteq> Some (Writing m' y)" for j m' y using d(1) locked(2) by fastforce
  have none: "wrote_part marshal c []" using d(6) [OF locked(2)] by (simp add: wrote_part_def)
  show ?case
  proof (rule conn_okI, goal_cases)
    case (1 j m' y)
    then show ?case using free d(5) [OF locked(1)] none locked(3,4) by (auto simp: encodes_def split: if_splits)
  next
    case (3 j m') then show ?case using d(5) by (auto split: if_splits)
  next
    case 5 then show ?case using d(7) by (auto intro: part_of_called_more)
  qed (use d(8) in auto)
next
  case (refused c i m)
  note d = conn_okD [OF refused(4)]
  show ?case
  proof (rule conn_okI, goal_cases)
    case (1 j m' y) then show ?case using d(1-3) [of j m' y] by (auto split: if_splits)
  next
    case (2 j) then show ?case using refused(2) by simp
  next
    case (3 j m') then show ?case using d(5) by (auto split: if_splits)
  next
    case 4 then show ?case using d(6) by simp
  next
    case 5 then show ?case using d(7) by (auto intro: part_of_called_more)
  qed (use d(8) in auto)
next
  case (wrote c i m x y)
  note d = conn_okD [OF wrote(3)]
  note own = d(1,2) [OF wrote(1)]
  have other: "sc_jobs c j \<noteq> Some (Writing m' y')" if "j \<noteq> i" for j m' y' using d(1) own(1) that by fastforce
  obtain b z where z: "encodes marshal m b" "frame b = z @ x @ y" "sc_bytes c = frames_of marshal (sc_sent c) @ z"
    using d(3) [OF wrote(1)] wrote(2) by (auto simp: wrote_part_def)
  have part: "wrote_part marshal (c\<lparr>sc_jobs := (sc_jobs c)(i := Some (Writing m y)), sc_bytes := sc_bytes c @ x\<rparr>) (z @ x)"
    using z(3) wrote(2) by (simp add: wrote_part_def)
  show ?case
  proof (rule conn_okI, goal_cases)
    case (1 j m' y')
    then have "j = i" "m' = m" "y' = y" using other by (auto split: if_splits)
    moreover have "frame b = (z @ x) @ y" using z(2) by simp
    ultimately show ?case using own z(1) part by auto
  next
    case (2 j) then show ?case using own by auto
  next
    case (3 j m') then show ?case using d(5) by (auto split: if_splits)
  qed (use own wrote(2) d(8) in auto)
next
  case (finished c i m)
  note d = conn_okD [OF finished(2)]
  note own = d(1,2) [OF finished(1)]
  have other: "sc_jobs c j \<noteq> Some (Writing m' y')" if "j \<noteq> i" for j m' y' using d(1) own(1) that by fastforce
  obtain b where b: "encodes marshal m b" "\<not> sc_broken c" "sc_bytes c = frames_of marshal (sc_sent c) @ frame b"
    using d(3) [OF finished(1)] by (auto simp: wrote_part_def split: if_splits)
  show ?case
  proof (rule conn_okI, goal_cases)
    case (1 j m' y') then show ?case using other by (auto split: if_splits)
  next
    case (3 j m') then show ?case using d(5) by (auto split: if_splits)
  next
    case 4 then show ?case using b(1,3) by (simp add: encodes_def)
  next
    case 6 show ?case using sent_ok_snoc [OF d(8) own(2) b(1)] by simp
  qed (use b(2) in auto)
next
  case (failed c i m y)
  note d = conn_okD [OF failed(2)]
  note own = d(1,2) [OF failed(1)]
  have other: "sc_jobs c j \<noteq> Some (Writing m' y')" if "j \<noteq> i" for j m' y' using d(1) own(1) that by fastforce
  obtain b x where b: "encodes marshal m b" "frame b = x @ y" "wrote_part marshal c x" using d(3) [OF failed(1)] by auto
  have part: "part_of_called marshal c"
  proof (cases "sc_broken c")
    case False
    with b own(2) show ?thesis unfolding part_of_called_def wrote_part_def by auto
  qed (rule d(7))
  show ?case
  proof (rule conn_okI, goal_cases)
    case (1 j m' y') then show ?case using other by (auto split: if_splits)
  next
    case (3 j m') then show ?case using d(5) by (auto split: if_splits)
  next
    case 5 show ?case by (rule part_of_called_more [OF part]) auto
  qed (use d(8) in auto)
qed

lemma send_steps_ok: "(send_step marshal)\<^sup>*\<^sup>* new_conn c \<Longrightarrow> conn_ok marshal c"
  by (induction rule: rtranclp_induct) (auto intro: conn_ok_new send_step_ok)

lemma conn_bytes:
  assumes "conn_ok marshal c"
  shows "sc_bytes c = frames_of marshal (sc_sent c) \<or> part_of_called marshal c"
proof (cases "sc_lock c")
  case None
  then show ?thesis using conn_okD(6,7) [OF assms] by blast
next
  case (Some i)
  obtain m y where j: "sc_jobs c i = Some (Writing m y)" using conn_okD(4) [OF assms Some] by blast
  show ?thesis
  proof (cases "sc_broken c")
    case False
    with conn_okD(2,3) [OF assms j] have "part_of_called marshal c"
      unfolding part_of_called_def wrote_part_def by auto
    then show ?thesis by blast
  qed (use conn_okD(7) [OF assms] in blast)
qed

section \<open>What the peer reads\<close>

lemma Read_part:
  assumes "concat cs = x" "frame b = x @ y" "y \<noteq> []" "length b \<le> DefaultMaxFrame"
  shows "\<exists>e. Read unmarshal cs DefaultMaxFrame = Inl e"
proof (cases "length x < 4")
  case True
  then show ?thesis using read_full_short [of cs 4] assms(1) by (auto simp: Read_def)
next
  case False
  have total: "length x + length y = 4 + length b" using arg_cong [OF assms(2), of length] by simp
  obtain r where r: "read_full 4 cs = Inr (take 4 x, r)" "concat r = drop 4 x"
    using read_full_some [of 4 cs] False assms(1) by auto
  have "take 4 x = take 4 (frame b)" using assms(2) False by simp
  then have "take 4 x = put_uint32 (word_of_nat (length b))" by (simp add: frame_def)
  moreover have "unat (word_of_nat (length b) :: 32 word) = length b"
    using assms(4) by (simp add: unsigned_of_nat take_bit_nat_eq_self DefaultMaxFrame_def)
  moreover have "length (concat r) < length b" using total assms(3) False r(2) by (cases y) auto
  ultimately show ?thesis using read_full_short [of r "length b"] r(1) by (auto simp: Read_def get_put_uint32 Let_def)
qed

lemma read_messages_then:
  assumes "list_all (framed marshal unmarshal DefaultMaxFrame) ms" "concat cs = frames_of marshal ms @ x"
  shows "\<exists>cs'. concat cs' = x
    \<and> fst (read_messages unmarshal DefaultMaxFrame cs) = ms @ fst (read_messages unmarshal DefaultMaxFrame cs')"
  using assms
proof (induction ms arbitrary: cs)
  case (Cons m ms)
  from Cons.prems(1) obtain b where b: "marshal m = Some b" "b \<noteq> []" "length b \<le> DefaultMaxFrame" "utf8_valid b"
      "unmarshal b = Some m" "m_Protocol m = Version" "m_Type m \<noteq> []"
    by (auto simp: framed_def)
  have "concat cs = frame b @ frames_of marshal ms @ x" using Cons.prems(2) b(1) by (simp add: frames_of_def)
  from Read_frame [where maxlen = DefaultMaxFrame and cs = cs and b = b and unmarshal = unmarshal and m = m, OF _ this b(2-7)] obtain r where
    r: "Read unmarshal cs DefaultMaxFrame = Inr (m, r)" "concat r = frames_of marshal ms @ x"
    by (auto simp: DefaultMaxFrame_def)
  from Cons.IH [OF _ r(2)] Cons.prems(1) r(1) show ?case
    by (auto simp: read_messages.simps [of _ _ cs] split: prod.splits)
qed (auto simp: frames_of_def)

section \<open>Pings, and the end of a read loop\<close>

definition ping_message :: "string \<Rightarrow> message" where
  "ping_message nonce = empty_message\<lparr>m_Type := ''ping'', m_Nonce := nonce\<rparr>"

text \<open>
  What \<open>readLoop\<close> itself selects: the context is done, a tick (with random bytes, if there are any,
  and the error of \<open>send\<close>), or the error of its reading goroutine. The result is the pings sent,
  the registry, and whether the loop has returned.
\<close>

datatype read_loop_event = Loop_Done | Tick "string option" "string option" | Reader_Ended conn_error

fun readLoop ::
  "(conn_error \<Rightarrow> string) \<Rightarrow> string \<Rightarrow> read_loop_event list \<Rightarrow> registry \<Rightarrow> message list \<times> registry \<times> bool" where
  "readLoop describe pid [] r = ([], r, False)"
| "readLoop describe pid (Loop_Done # es) r = ([], r, True)"
| "readLoop describe pid (Tick rnd err # es) r =
     (let nonce = (case RandomNonce rnd of Some n \<Rightarrow> n | None \<Rightarrow> []);
          m = ping_message nonce
      in if err \<noteq> None then ([m], r, True)
         else let (ms, r, returned) = readLoop describe pid es r in (m # ms, r, returned))"
| "readLoop describe pid (Reader_Ended e # es) r = ([], end_reading describe pid e r, True)"

fun ends_loop :: "read_loop_event \<Rightarrow> bool" where
  "ends_loop Loop_Done = True"
| "ends_loop (Tick rnd err) = (err \<noteq> None)"
| "ends_loop (Reader_Ended e) = True"

text \<open>The loop returns at the first event that ends it, and only a reader's error is recorded.\<close>

lemma readLoop_ends:
  "readLoop describe pid es r = (ms, r', returned) \<Longrightarrow> returned = list_ex ends_loop es
     \<and> r' = (case filter ends_loop es of Reader_Ended e # _ \<Rightarrow> end_reading describe pid e r | _ \<Rightarrow> r)"
proof (induction describe pid es r arbitrary: ms r' returned rule: readLoop.induct)
  case (3 describe pid rnd err es r)
  then show ?case by (cases err) (auto simp: Let_def split: prod.splits)
qed auto

section \<open>Properties\<close>

text \<open>
  C20. A connection carries whole messages, in order. However the goroutines that send on one
  connection interleave and in whatever pieces their frames are written, cut and read, the peer
  reads exactly the messages whose sending has succeeded, in that order, and after them at most
  one more that was being written, or whose sending failed last. The codec's law is assumed only
  for the messages sent.
\<close>

theorem sent_messages_arrive_in_order:
  assumes "(send_step marshal)\<^sup>*\<^sup>* new_conn c" "concat chunks = sc_bytes c"
    and codec: "\<And>m b. m \<in> set (sc_called c) \<Longrightarrow> marshal (stamped m) = Some b
      \<Longrightarrow> b \<noteq> [] \<and> utf8_valid b \<and> unmarshal b = Some (stamped m)"
    and typed: "\<And>m. m \<in> set (sc_called c) \<Longrightarrow> m_Type m \<noteq> [] \<and> m_Protocol m \<in> {0, Version}"
  shows "\<exists>rest. fst (read_messages unmarshal DefaultMaxFrame chunks) = sc_sent c @ rest
    \<and> (rest = [] \<or> (\<exists>m. m \<in> set (sc_called c) \<and> rest = [stamped m]))"
proof -
  note ok = send_steps_ok [OF assms(1)]
  have framed: "framed marshal unmarshal DefaultMaxFrame (stamped m)" if "m \<in> set (sc_called c)" "encodes marshal m b" for m b
    using codec [OF that(1)] typed [OF that(1)] that(2) by (auto simp: framed_def encodes_def stamped_def)
  have sent: "list_all (framed marshal unmarshal DefaultMaxFrame) (sc_sent c)"
    using conn_okD(8) [OF ok] framed by (auto simp: sent_ok_def list_all_iff)
  from conn_bytes [OF ok] show ?thesis
  proof
    assume "sc_bytes c = frames_of marshal (sc_sent c)"
    with assms(2) read_messages_frames [OF _ sent] show ?thesis by (auto simp: frames_of_def DefaultMaxFrame_def)
  next
    assume "part_of_called marshal c"
    then obtain m b x y where m: "m \<in> set (sc_called c)" "encodes marshal m b" "frame b = x @ y"
      "sc_bytes c = frames_of marshal (sc_sent c) @ x"
      unfolding part_of_called_def by blast
    show ?thesis
    proof (cases "y = []")
      case True
      then have "concat chunks = frames_of marshal (sc_sent c @ [stamped m])"
        using m assms(2) by (simp add: encodes_def)
      with read_messages_frames [of DefaultMaxFrame marshal unmarshal "sc_sent c @ [stamped m]" chunks] sent framed [OF m(1,2)] m(1)
      show ?thesis by (auto simp: frames_of_def DefaultMaxFrame_def)
    next
      case False
      obtain cs' where cs': "concat cs' = x"
        "fst (read_messages unmarshal DefaultMaxFrame chunks) = sc_sent c @ fst (read_messages unmarshal DefaultMaxFrame cs')"
        using read_messages_then [OF sent, of chunks x] assms(2) m(4) by auto
      obtain e where "Read unmarshal cs' DefaultMaxFrame = Inl e"
        using Read_part [OF cs'(1) m(3) False] m(2) by (auto simp: encodes_def)
      then have "fst (read_messages unmarshal DefaultMaxFrame cs') = []"
        by (simp add: read_messages.simps [of _ _ cs'])
      with cs'(2) show ?thesis by auto
    qed
  qed
qed

text \<open>
  C38. The steps are those of \<open>send\<close>. Over any writer that records what it takes, one call of
  \<open>send\<close> on an idle connection is a run of the steps that leaves the same bytes, counts the
  message as sent exactly if the call succeeded, and gives the mutex back on every path.
\<close>

theorem send_follows_the_steps:
  assumes "logs step log" "send marshal step w m = (err, w')"
    and "sc_bytes c = log w" "sc_lock c = None" "sc_jobs c i = None" "\<not> sc_broken c"
  shows "\<exists>c'. (send_step marshal)\<^sup>*\<^sup>* c c' \<and> sc_bytes c' = log w' \<and> sc_lock c' = None \<and> sc_jobs c' = sc_jobs c
    \<and> sc_sent c' = (if err = None then sc_sent c @ [stamped m] else sc_sent c)"
proof -
  let ?c1 = "c\<lparr>sc_jobs := (sc_jobs c)(i := Some (Waiting m)), sc_called := sc_called c @ [m]\<rparr>"
  have 1: "send_step marshal c ?c1" using assms(5) by (rule send_step.called)
  have wr: "Write marshal step w m DefaultMaxFrame = (err, w')" using assms(2) by (simp add: send_def)
  have stamp: "(if m_Protocol m = 0 then m\<lparr>m_Protocol := Version\<rparr> else m) = stamped m" by (simp add: stamped_def)
  note Write_cases = write_is_a_frame_or_an_error [OF assms(1) _ wr, unfolded stamp]
  show ?thesis
  proof (cases "\<exists>b. marshal (stamped m) = Some b \<and> length b \<le> DefaultMaxFrame")
    case False
    let ?c2 = "?c1\<lparr>sc_jobs := (sc_jobs ?c1)(i := None)\<rparr>"
    have "marshal (stamped m) = None \<or> (\<exists>b. marshal (stamped m) = Some b \<and> DefaultMaxFrame < length b)"
      using False by (cases "marshal (stamped m)") auto
    moreover have "err \<noteq> None \<and> w' = w"
      using calculation Write_cases wr by (auto simp: Write_def stamp)
    moreover from calculation(1) have "send_step marshal ?c1 ?c2"
      using assms(4) by (intro send_step.refused [where i = i and m = m]) simp_all
    ultimately show ?thesis
      using 1 assms(3-5) by (intro exI [of _ ?c2]) (auto intro: converse_rtranclp_into_rtranclp simp: fun_upd_idem_iff)
  next
    case True
    then obtain b where b: "marshal (stamped m) = Some b" "length b \<le> DefaultMaxFrame" by blast
    obtain k where k: "log w' = log w @ take k (frame b)" "err = None \<Longrightarrow> take k (frame b) = frame b"
      using Write_cases [OF b(1)] by (cases err) auto
    let ?c2 = "?c1\<lparr>sc_lock := Some i, sc_jobs := (sc_jobs ?c1)(i := Some (Writing m (frame b)))\<rparr>"
    let ?c3 = "?c2\<lparr>sc_jobs := (sc_jobs ?c2)(i := Some (Writing m (drop k (frame b)))), sc_bytes := sc_bytes ?c2 @ take k (frame b)\<rparr>"
    have 2: "send_step marshal ?c1 ?c2" using b assms(4) by (intro send_step.locked) simp_all
    have 3: "send_step marshal ?c2 ?c3" using assms(6) by (intro send_step.wrote) simp_all
    have run: "(send_step marshal)\<^sup>*\<^sup>* c c'" if "send_step marshal ?c3 c'" for c'
      using 1 2 3 that by (meson converse_rtranclp_into_rtranclp r_into_rtranclp)
    show ?thesis
    proof (cases err)
      case None
      let ?c4 = "?c3\<lparr>sc_lock := None, sc_jobs := (sc_jobs ?c3)(i := None), sc_sent := sc_sent ?c3 @ [stamped m]\<rparr>"
      have "drop k (frame b) = []" using k(2) [OF None] by (metis append_take_drop_id append_self_conv)
      then have "send_step marshal ?c3 ?c4" by (intro send_step.finished) simp
      from run [OF this] None k(1) assms(3-5) show ?thesis
        by (intro exI [of _ ?c4]) (auto simp: fun_upd_idem_iff)
    next
      case (Some e)
      let ?c4 = "?c3\<lparr>sc_lock := None, sc_jobs := (sc_jobs ?c3)(i := None), sc_broken := True\<rparr>"
      have "send_step marshal ?c3 ?c4" by (intro send_step.failed [where m = m and y = "drop k (frame b)"]) simp
      from run [OF this] Some k(1) assms(3-5) show ?thesis
        by (intro exI [of _ ?c4]) (auto simp: fun_upd_idem_iff)
    qed
  qed
qed

section \<open>Samples\<close>

text \<open>Two goroutines: one has sent its ping, the other has written a byte of the next.\<close>

theorem send_follows_the_steps_witness:
  "\<exists>c'. (send_step sample_marshal)\<^sup>*\<^sup>* new_conn c' \<and> sc_bytes c' = frame ''B'' \<and> sc_sent c' = [sample_ping]"
proof -
  have log: "logs one_byte (\<lambda>w. w)" by (auto simp: logs_def one_byte_def min_def)
  have st: "stamped sample_ping = sample_ping" by (simp add: stamped_def sample_ping_def)
  obtain err w' where w: "send sample_marshal one_byte [] sample_ping = (err, w')" by fastforce
  have "err = None \<and> w' = frame ''B''"
    using w by (auto simp: send_def Write_def sample_marshal_def sample_ping_def put_uint32_def one_byte_def
        writeAll.simps DefaultMaxFrame_def frame_def)
  with send_follows_the_steps [OF log w, of new_conn 0] st show ?thesis by (auto simp: new_conn_def)
qed

theorem sent_messages_arrive_in_order_witness:
  "\<exists>rest. fst (read_messages sample_unmarshal DefaultMaxFrame [[CHR 0x00], [CHR 0x00, CHR 0x00], [CHR 0x01, CHR ''B'']])
     = [sample_ping] @ rest"
proof -
  let ?chunks = "[[CHR 0x00], [CHR 0x00, CHR 0x00], [CHR 0x01, CHR ''B'']]"
  have fr: "frame ''B'' = concat ?chunks" by (simp) code_simp
  have st: "stamped sample_ping = sample_ping" by (simp add: stamped_def sample_ping_def)
  let ?c1 = "new_conn\<lparr>sc_jobs := (sc_jobs new_conn)(0 := Some (Waiting sample_ping)), sc_called := sc_called new_conn @ [sample_ping]\<rparr>"
  let ?c2 = "?c1\<lparr>sc_lock := Some 0, sc_jobs := (sc_jobs ?c1)(0 := Some (Writing sample_ping (frame ''B'')))\<rparr>"
  let ?c3 = "?c2\<lparr>sc_jobs := (sc_jobs ?c2)(0 := Some (Writing sample_ping [])), sc_bytes := sc_bytes ?c2 @ frame ''B''\<rparr>"
  let ?c4 = "?c3\<lparr>sc_lock := None, sc_jobs := (sc_jobs ?c3)(0 := None), sc_sent := sc_sent ?c3 @ [stamped sample_ping]\<rparr>"
  have "send_step sample_marshal new_conn ?c1" by (rule send_step.called) (simp add: new_conn_def)
  moreover have "send_step sample_marshal ?c1 ?c2"
    by (rule send_step.locked) (simp_all add: new_conn_def st sample_marshal_def DefaultMaxFrame_def)
  moreover have "send_step sample_marshal ?c2 ?c3" by (rule send_step.wrote) (simp_all add: new_conn_def)
  moreover have "send_step sample_marshal ?c3 ?c4" by (rule send_step.finished) simp
  ultimately have run: "(send_step sample_marshal)\<^sup>*\<^sup>* new_conn ?c4"
    by (meson converse_rtranclp_into_rtranclp r_into_rtranclp)
  have "utf8_valid ''B''" using sample_framed by (auto simp: framed_def sample_marshal_def)
  with sent_messages_arrive_in_order [OF run, where chunks = ?chunks and unmarshal = sample_unmarshal] fr st
  show ?thesis
    by (auto simp: new_conn_def sample_marshal_def sample_unmarshal_def sample_ping_def Version_def split: if_splits)
qed

end
