(* ===== verification/Clipboard_Interface.thy ===== *)
theory Clipboard_Interface
  imports Clipboard_Flow Control_Commands
begin

text \<open>
  The contract of \<open>clipboard.Adapter\<close> the daemon relies on (\<open>internal/clipboard/clipboard.go\<close>): what
  an adapter reports is not empty and within the limit it was made with. \<open>report\<close> is what the
  platform's watcher makes of one input. \<open>Clipboard_Linux\<close> and \<open>Clipboard_Darwin\<close> provide it.
\<close>

locale clipboard_adapter =
  fixes report :: "int \<Rightarrow> 'input \<Rightarrow> string option"
  assumes report_not_empty: "report limit i = Some x \<Longrightarrow> x \<noteq> []"
    and report_fits: "0 \<le> limit \<Longrightarrow> report limit i = Some x \<Longrightarrow> int (length x) \<le> limit"
begin

text \<open>
  The daemon, which uses the same limit, sends every reported text that is not suppressed: its own
  checks drop nothing.
\<close>

lemma reported_is_sent:
  assumes "0 \<le> limit" "report limit i = Some x" "length rnd = 16" "suppress_consume now x sp = (False, sp')"
  shows "\<exists>m. local_message (nat limit) now (Some rnd) x sp = (Some m, sp') \<and> m_Text m = x \<and> m_Type m = ''clipboard''"
proof -
  obtain u where "UUID (Some rnd) = Some u" by (simp add: UUID_def Let_def)
  moreover have "length x \<le> nat limit" using report_fits [OF assms(1,2)] by linarith
  ultimately show ?thesis
    using report_not_empty [OF assms(2)] assms(4) by (simp add: local_message_def empty_message_def)
qed

lemma reported_is_sent_to_all:
  assumes "0 \<le> limit" "report limit i = Some x" "length rnd = 16" "suppress_consume now x sp = (False, sp')"
  shows "\<exists>m. m_Text m = x \<and> (\<forall>c. snd (localLoop_step (nat limit) now (Some rnd) x r sp boxes) c
      = (if c \<in> pc_ref ` snd ` set (rg_conns r) then enqueuePeer m (boxes c) else boxes c))"
proof -
  obtain m where "local_message (nat limit) now (Some rnd) x sp = (Some m, sp')" "m_Text m = x"
    using reported_is_sent [OF assms] by blast
  then show ?thesis
    by (intro exI [of _ m]) (auto simp: localLoop_step_def enqueue_all image_iff split: prod.splits)
qed

end

section \<open>Setting the health\<close>

definition setHealth :: "bool \<Rightarrow> string \<Rightarrow> clip_health \<Rightarrow> clip_health" where
  "setHealth r e h = h\<lparr>ch_Running := r, ch_LastError := e\<rparr>"

definition unused_health :: clip_health where
  "unused_health = \<lparr>ch_Running = False, ch_LastEvent = [], ch_LastError = []\<rparr>"

end
