(* ===== verification/Clipboard_Linux.thy ===== *)
theory Clipboard_Linux
  imports Clipboard_Interface Config_File Protocol
begin

text \<open>
  \<open>internal/clipboard/clipboard_linux.go\<close>. \<open>wl-paste --watch\<close> runs the program's own
  \<open>clipboard-event\<close> command on every change, which sends the text over a local socket
  (\<open>SendWatchEvent\<close>) to the adapter, whose handlers put it into the channel the daemon reads.
  The Wayland tools, the socket calls and the environment are arguments.
\<close>

section \<open>New, Start and Close\<close>

record linux_adapter =
  la_max :: int
  la_socket :: string
  la_listener :: bool
  la_health :: clip_health
  la_cancel :: bool

definition linux_New :: "(string \<Rightarrow> string) \<Rightarrow> int \<Rightarrow> linux_adapter" where
  "linux_New getenv limit =
     (let run = getenv ''XDG_RUNTIME_DIR''
      in \<lparr>la_max = limit, la_socket = path_Join [run, ''lanclip-clipboard.sock''], la_listener = False,
          la_health = unused_health, la_cancel = False\<rparr>)"

datatype clip_event =
    Clip_Removed string | Clip_Listening string | Clip_Chmod string nat | Clip_Closed | Clip_Cancelled
  | Go_Accept | Go_Watch_Loop

text \<open>\<open>look_path\<close> gives the error of \<open>exec.LookPath\<close>, \<open>listen\<close> and \<open>chmod\<close> those of their calls.\<close>

definition linux_Start ::
  "(string \<Rightarrow> string) \<Rightarrow> (string \<Rightarrow> string option) \<Rightarrow> string option \<Rightarrow> string option \<Rightarrow> linux_adapter
     \<Rightarrow> string option \<times> linux_adapter \<times> clip_event list" where
  "linux_Start getenv look_path listen chmod a =
     (if getenv ''WAYLAND_DISPLAY'' = [] \<or> getenv ''XDG_RUNTIME_DIR'' = []
        then (Some ''WAYLAND_DISPLAY and XDG_RUNTIME_DIR are required'', a, [])
      else case look_path ''wl-paste'' of Some e \<Rightarrow> (Some e, a, [])
      | None \<Rightarrow> (case look_path ''wl-copy'' of Some e \<Rightarrow> (Some e, a, [])
      | None \<Rightarrow>
      let es = [Clip_Removed (la_socket a)]
      in (case listen of Some e \<Rightarrow> (Some e, a, es)
      | None \<Rightarrow>
      let es = es @ [Clip_Listening (la_socket a), Clip_Chmod (la_socket a) 384]
      in (case chmod of Some e \<Rightarrow> (Some e, a, es @ [Clip_Closed])
      | None \<Rightarrow>
      (None, a\<lparr>la_listener := True, la_cancel := True, la_health := setHealth True [] (la_health a)\<rparr>,
       es @ [Go_Accept, Go_Watch_Loop])))))"

definition linux_Close :: "linux_adapter \<Rightarrow> clip_event list" where
  "linux_Close a =
     (if la_cancel a then [Clip_Cancelled] else []) @ (if la_listener a then [Clip_Closed] else [])
     @ (if la_socket a \<noteq> [] then [Clip_Removed (la_socket a)] else [])"

section \<open>Write\<close>

datatype feed = Fed "string option" | Deadline string
datatype wl_copy = Not_Started | Killed_And_Reaped | Reaped_Later

text \<open>\<open>pipe\<close> and \<open>start\<close> are the errors of \<open>StdinPipe\<close> and \<open>Start\<close>, the feed is what \<open>select\<close> sees first.\<close>

definition linux_Write :: "string option \<Rightarrow> string option \<Rightarrow> feed \<Rightarrow> string option \<times> wl_copy" where
  "linux_Write pipe start fed =
     (case pipe of Some e \<Rightarrow> (Some e, Not_Started)
      | None \<Rightarrow> (case start of Some e \<Rightarrow> (Some e, Not_Started)
      | None \<Rightarrow> (case fed of
            Deadline e \<Rightarrow> (Some e, Killed_And_Reaped)
          | Fed (Some e) \<Rightarrow> (Some e, Killed_And_Reaped)
          | Fed None \<Rightarrow> (None, Reaped_Later))))"

section \<open>From wl-paste to the channel\<close>

text \<open>\<open>io.ReadAll (io.LimitReader r n)\<close>: \<open>r\<close> is what it yields and the error it then ends in, if any.\<close>

definition read_all_limited :: "string \<times> string option \<Rightarrow> nat \<Rightarrow> string + string" where
  "read_all_limited r n =
     (if n \<le> length (fst r) then Inr (take n (fst r))
      else case snd r of Some e \<Rightarrow> Inl e | None \<Rightarrow> Inr (fst r))"

text \<open>
  \<open>dial\<close> is the error of the dial; of a connection that breaks, \<open>broken\<close> says how many bytes it
  takes and the error. The result is the error and what went over the connection. The limit is an
  argument: \<open>clipboard-event\<close> (\<open>cmd/lanclip/cli.go\<close>) passes \<open>config.MaxPayload\<close>, whatever the
  configuration says, while the adapter is made with the configured limit.
\<close>

definition SendWatchEvent ::
  "string option \<Rightarrow> (nat \<times> string) option \<Rightarrow> string \<times> string option \<Rightarrow> int \<Rightarrow> string option \<times> string option" where
  "SendWatchEvent dial broken r limit =
     (case read_all_limited r (nat (limit + 1)) of
        Inl e \<Rightarrow> (Some e, None)
      | Inr b \<Rightarrow>
          if length b = 0 then (None, None)
          else if int (length b) > limit then (Some ''clipboard exceeds size limit'', None)
          else case dial of Some e \<Rightarrow> (Some e, None)
          | None \<Rightarrow>
              let h = put_uint32 (word_of_nat (length b))
              in (case broken of
                    None \<Rightarrow> (None, Some (h @ b))
                  | Some (k, e) \<Rightarrow>
                      if k < length h then (Some e, Some (take k h))
                      else if k - length h < length b then (Some e, Some (h @ take (k - length h) b))
                      else (None, Some (h @ b))))"

definition watch_callback ::
  "string option \<Rightarrow> (nat \<times> string) option \<Rightarrow> string \<times> string option \<Rightarrow> string option \<times> string option" where
  "watch_callback dial broken r = SendWatchEvent dial broken r MaxPayload"

text \<open>One connection: what the goroutine in \<open>accept\<close> reads from it, chunk by chunk.\<close>

definition handle_watch :: "int \<Rightarrow> string list \<Rightarrow> string option" where
  "handle_watch limit c =
     (case read_full 4 c of
        Inl _ \<Rightarrow> None
      | Inr (h, c) \<Rightarrow>
          let n = get_uint32 h
          in if n = 0 \<or> n > word_of_int limit then None
             else (case read_full (unat n) c of Inl _ \<Rightarrow> None | Inr (b, _) \<Rightarrow> Some b))"

section \<open>The accept loop and its handlers\<close>

text \<open>
  A handler reads; it holds a text and has not come to its \<open>select\<close>; it is parked in the \<open>select\<close>,
  because the channel was full and the context not done when it came there.
\<close>

datatype watch_handler = Reading_Event | Sending_Event string | Parked_Event string

record watch_server =
  ws_done :: bool
  ws_open :: bool
  ws_accepting :: bool
  ws_out :: "string list"
  ws_out_closed :: bool
  ws_handlers :: "(nat, watch_handler) gomap"
  ws_health :: clip_health
  ws_panicked :: bool

definition started_server :: watch_server where
  "started_server = \<lparr>ws_done = False, ws_open = True, ws_accepting = True, ws_out = [], ws_out_closed = False,
     ws_handlers = [], ws_health = setHealth True [] unused_health, ws_panicked = False\<rparr>"

definition out_capacity :: nat where
  "out_capacity = 32"

text \<open>\<open>accept\<close> returns: the deferred \<open>close\<close> runs.\<close>

definition accept_returns :: "string \<Rightarrow> watch_server \<Rightarrow> watch_server" where
  "accept_returns e s =
     (let s = (if \<not> ws_done s then s\<lparr>ws_health := setHealth False e (ws_health s)\<rparr> else s)
      in s\<lparr>ws_accepting := False, ws_out_closed := True\<rparr>)"

text \<open>
  The \<open>select\<close> of a handler: a send on a closed channel is ready and panics, which ends the
  process; with the context done as well, a handler that comes to the \<open>select\<close> may take either case.
  A parked handler is woken by the first of room in the channel, the end of the context and the
  close of the channel; \<open>Close\<close> ends the context before anything closes the channel.
\<close>

inductive watch_step :: "int \<Rightarrow> watch_server \<Rightarrow> watch_server \<Rightarrow> bool" for limit where
  accepted: "ws_accepting s \<Longrightarrow> ws_open s \<Longrightarrow> c \<notin> set (mkeys (ws_handlers s))
    \<Longrightarrow> watch_step limit s (s\<lparr>ws_handlers := mput c Reading_Event (ws_handlers s)\<rparr>)"
| accept_failed: "ws_accepting s \<Longrightarrow> watch_step limit s (accept_returns e s)"
| dropped: "mget (ws_handlers s) c = Some Reading_Event \<Longrightarrow> handle_watch limit chunks = None
    \<Longrightarrow> watch_step limit s (s\<lparr>ws_handlers := mdel c (ws_handlers s)\<rparr>)"
| read: "mget (ws_handlers s) c = Some Reading_Event \<Longrightarrow> handle_watch limit chunks = Some b
    \<Longrightarrow> watch_step limit s (s\<lparr>ws_handlers := mput c (Sending_Event b) (ws_handlers s),
          ws_health := (ws_health s)\<lparr>ch_LastEvent := now\<rparr>\<rparr>)"
| sent: "mget (ws_handlers s) c = Some (Sending_Event b) \<Longrightarrow> \<not> ws_out_closed s \<Longrightarrow> length (ws_out s) < out_capacity
    \<Longrightarrow> watch_step limit s (s\<lparr>ws_handlers := mdel c (ws_handlers s), ws_out := ws_out s @ [b]\<rparr>)"
| panicked: "mget (ws_handlers s) c = Some (Sending_Event b) \<Longrightarrow> ws_out_closed s
    \<Longrightarrow> watch_step limit s (s\<lparr>ws_panicked := True\<rparr>)"
| gave_up: "mget (ws_handlers s) c = Some (Sending_Event b) \<Longrightarrow> ws_done s
    \<Longrightarrow> watch_step limit s (s\<lparr>ws_handlers := mdel c (ws_handlers s)\<rparr>)"
| parked: "mget (ws_handlers s) c = Some (Sending_Event b) \<Longrightarrow> \<not> ws_out_closed s \<Longrightarrow> out_capacity \<le> length (ws_out s)
    \<Longrightarrow> \<not> ws_done s \<Longrightarrow> watch_step limit s (s\<lparr>ws_handlers := mput c (Parked_Event b) (ws_handlers s)\<rparr>)"
| woken_by_room: "mget (ws_handlers s) c = Some (Parked_Event b) \<Longrightarrow> \<not> ws_out_closed s \<Longrightarrow> \<not> ws_done s
    \<Longrightarrow> length (ws_out s) < out_capacity
    \<Longrightarrow> watch_step limit s (s\<lparr>ws_handlers := mdel c (ws_handlers s), ws_out := ws_out s @ [b]\<rparr>)"
| woken_by_end: "mget (ws_handlers s) c = Some (Parked_Event b) \<Longrightarrow> ws_done s
    \<Longrightarrow> watch_step limit s (s\<lparr>ws_handlers := mdel c (ws_handlers s)\<rparr>)"
| woken_by_close: "mget (ws_handlers s) c = Some (Parked_Event b) \<Longrightarrow> ws_out_closed s \<Longrightarrow> \<not> ws_done s
    \<Longrightarrow> watch_step limit s (s\<lparr>ws_panicked := True\<rparr>)"
| taken: "ws_out s = b # bs \<Longrightarrow> watch_step limit s (s\<lparr>ws_out := bs\<rparr>)"
| adapter_closed: "watch_step limit s (s\<lparr>ws_done := True, ws_open := False\<rparr>)"
| watcher: "watch_step limit s (s\<lparr>ws_health := setHealth r e (ws_health s)\<rparr>)"

definition live_step :: "int \<Rightarrow> watch_server \<Rightarrow> watch_server \<Rightarrow> bool" where
  "live_step limit s s' \<longleftrightarrow> \<not> ws_panicked s \<and> watch_step limit s s'"

section \<open>The watcher\<close>

text \<open>How one turn of the loop goes.\<close>

datatype watch_turn = Done_Before | Done_While_Running | Done_While_Waiting | Waited

text \<open>The delays asked for, the health, and whether the loop has returned.\<close>

fun watch_turns :: "watch_turn list \<Rightarrow> duration \<Rightarrow> clip_health \<Rightarrow> duration list \<times> clip_health \<times> bool" where
  "watch_turns [] backoff h = ([], h, False)"
| "watch_turns (t # ts) backoff h =
     (case t of
        Done_Before \<Rightarrow> ([], h, True)
      | Done_While_Running \<Rightarrow> ([], h, True)
      | Done_While_Waiting \<Rightarrow> ([backoff], setHealth False ''clipboard watcher exited'' h, True)
      | Waited \<Rightarrow>
          let h = setHealth False ''clipboard watcher exited'' h;
              next_backoff = (if backoff < 10 * second then backoff * 2 else backoff);
              (delays, h, returned) = watch_turns ts next_backoff (setHealth True [] h)
          in (backoff # delays, h, returned))"

definition watchLoop :: "string option \<Rightarrow> watch_turn list \<Rightarrow> clip_health \<Rightarrow> duration list \<times> clip_health \<times> bool" where
  "watchLoop executable ts h =
     (case executable of
        Some e \<Rightarrow> ([], setHealth False e h, True)
      | None \<Rightarrow> watch_turns ts second h)"

section \<open>What a handler takes\<close>

lemma compose32:
  fixes a b c d :: nat
  assumes "a < 256" "b < 256" "c < 256" "d < 256"
  shows "a * 2 ^ 24 + b * 2 ^ 16 + c * 2 ^ 8 + d < 2 ^ 32"
    "(a * 2 ^ 24 + b * 2 ^ 16 + c * 2 ^ 8 + d) div 2 ^ 24 mod 256 = a"
    "(a * 2 ^ 24 + b * 2 ^ 16 + c * 2 ^ 8 + d) div 2 ^ 16 mod 256 = b"
    "(a * 2 ^ 24 + b * 2 ^ 16 + c * 2 ^ 8 + d) div 2 ^ 8 mod 256 = c"
    "(a * 2 ^ 24 + b * 2 ^ 16 + c * 2 ^ 8 + d) mod 256 = d"
proof -
  let ?n = "a * 2 ^ 24 + b * 2 ^ 16 + c * 2 ^ 8 + d"
  show "?n < 2 ^ 32" using assms by simp
  have 8: "?n div 2 ^ 8 = a * 2 ^ 16 + b * 2 ^ 8 + c" using assms by simp
  have 16: "?n div 2 ^ 16 = a * 2 ^ 8 + b"
    using assms by (simp add: div_mult2_eq [of _ 256 256, simplified] 8 [simplified])
  have 24: "?n div 2 ^ 24 = a"
    using assms by (simp add: div_mult2_eq [of _ 65536 256, simplified] 16 [simplified])
  show "?n div 2 ^ 24 mod 256 = a" "?n div 2 ^ 16 mod 256 = b" "?n div 2 ^ 8 mod 256 = c" "?n mod 256 = d"
    unfolding 8 16 24 using assms by (simp_all add: mod_add_left_eq [symmetric])
qed

lemma put_get_uint32:
  assumes "length h = 4"
  shows "put_uint32 (get_uint32 h) = h"
proof -
  obtain a b c d where h: "h = [a, b, c, d]"
    using assms by (auto simp: numeral_eq_Suc length_Suc_conv)
  let ?n = "of_char a * 2 ^ 24 + of_char b * 2 ^ 16 + of_char c * 2 ^ 8 + of_char d :: nat"
  have "of_char x < (256::nat)" for x :: char by simp
  note n = compose32 [OF this [of a] this [of b] this [of c] this [of d]]
  have u: "unat (get_uint32 h) = ?n"
  proof -
    have "unat (word_of_nat ?n :: 32 word) = ?n"
      unfolding unsigned_of_nat of_nat_id using n(1) by (intro take_bit_nat_eq_self) simp
    then show ?thesis by (simp only: get_uint32_def h nth_Cons_0 nth_Cons_Suc One_nat_def numeral_2_eq_2 numeral_3_eq_3)
  qed
  have "take_bit 32 (unat (get_uint32 h)) = unat (get_uint32 h)"
    using unsigned_less [of "get_uint32 h"] by (intro take_bit_nat_eq_self) simp
  then have shift: "unat (drop_bit k (get_uint32 h)) = ?n div 2 ^ k" for k
    unfolding unsigned_drop_bit_eq by (simp add: drop_bit_eq_div u)
  show ?thesis unfolding put_uint32_def shift u n by (simp add: h)
qed

lemma handle_watch_SomeD:
  assumes "handle_watch limit c = Some b"
  shows "b \<noteq> []" "length b \<le> unat (word_of_int limit :: 32 word)" "concat c = put_uint32 (word_of_nat (length b)) @ b @ drop (4 + length b) (concat c)"
proof -
  obtain h r where h: "read_full 4 c = Inr (h, r)" using assms by (auto simp: handle_watch_def split: sum.splits)
  with assms obtain r' where b: "read_full (unat (get_uint32 h)) r = Inr (b, r')"
    and n: "get_uint32 h \<noteq> 0" "get_uint32 h \<le> word_of_int limit"
    by (auto simp: handle_watch_def Let_def not_less split: sum.splits if_splits)
  from read_full_InrD [OF h] read_full_InrD [OF b]
  have len: "length h = 4" "length b = unat (get_uint32 h)" "concat c = h @ b @ concat r'" by auto
  from len(2) n(1) show "b \<noteq> []" by (auto simp: unat_eq_0)
  from len(2) n(2) show "length b \<le> unat (word_of_int limit :: 32 word)" by (simp add: word_le_nat_alt)
  have "put_uint32 (get_uint32 h) = h" using len(1) by (rule put_get_uint32)
  with len show "concat c = put_uint32 (word_of_nat (length b)) @ b @ drop (4 + length b) (concat c)" by simp
qed

lemma unat_limit: "0 \<le> limit \<Longrightarrow> int (unat (word_of_int limit :: 32 word)) \<le> limit"
  by (simp add: uint_word_of_int zmod_le_nonneg_dividend)

interpretation linux: clipboard_adapter handle_watch
proof unfold_locales
  show "0 \<le> limit \<Longrightarrow> handle_watch limit i = Some x \<Longrightarrow> int (length x) \<le> limit" for limit i x
    using handle_watch_SomeD(2) [of limit i x] unat_limit [of limit] by linarith
qed (rule handle_watch_SomeD(1))

lemma handle_watch_whole:
  assumes "concat c = put_uint32 (word_of_nat (length b)) @ b" "b \<noteq> []" "int (length b) \<le> limit" "limit < 2 ^ 32"
  shows "handle_watch limit c = Some b"
proof -
  have len: "unat (word_of_nat (length b) :: 32 word) = length b"
    using assms(3,4) by (simp add: unsigned_of_nat take_bit_nat_eq_self)
  have ok: "(word_of_nat (length b) :: 32 word) \<noteq> 0" "\<not> (word_of_nat (length b) :: 32 word) > word_of_int limit"
    using len assms(2-4) by (auto simp: word_less_nat_alt unat_eq_0 [symmetric] nat_le_iff unsigned_of_int take_bit_int_eq_self)
  obtain r where r: "read_full 4 c = Inr (put_uint32 (word_of_nat (length b)), r)" "concat r = b"
    using read_full_some [of 4 c] assms(1) by auto
  obtain r2 where r2: "read_full (length b) r = Inr (b, r2)"
    using read_full_some [of "length b" r] r(2) by auto
  show ?thesis using ok by (simp add: handle_watch_def r(1) get_put_uint32 len r2)
qed

text \<open>A text above the limit gives nothing, and neither does a connection that ends early.\<close>

lemma handle_watch_large:
  assumes "concat c = put_uint32 (word_of_nat (length b)) @ b" "0 \<le> limit" "limit < int (length b)" "length b < 2 ^ 32"
  shows "handle_watch limit c = None"
proof (rule ccontr)
  assume "handle_watch limit c \<noteq> None"
  then obtain x where x: "handle_watch limit c = Some x" by auto
  note fits = linux.report_fits [OF assms(2) x]
  from handle_watch_SomeD(3) [OF x] assms(1) have "(word_of_nat (length x) :: 32 word) = word_of_nat (length b)"
    by (metis append_eq_append_conv length_put_uint32 get_put_uint32)
  moreover have "length x < 2 ^ 32" using fits assms(3,4) by linarith
  ultimately have "length x = length b"
    using assms(4) by (auto simp: word_of_nat_eq_iff take_bit_nat_eq_self)
  with fits assms(3) show False by simp
qed

lemma handle_watch_cut:
  assumes "concat c @ rest = put_uint32 (word_of_nat (length b)) @ b" "rest \<noteq> []" "length b < 2 ^ 32"
  shows "handle_watch limit c = None"
proof (rule ccontr)
  assume "handle_watch limit c \<noteq> None"
  then obtain x where x: "handle_watch limit c = Some x" by auto
  define y where "y = drop (4 + length x) (concat c)"
  have c: "concat c = put_uint32 (word_of_nat (length x)) @ x @ y" using handle_watch_SomeD(3) [OF x] by (simp add: y_def)
  with assms(1) have "(word_of_nat (length x) :: 32 word) = word_of_nat (length b)"
    by (metis append_eq_append_conv append_assoc length_put_uint32 get_put_uint32)
  moreover have "length x \<le> length b"
  proof -
    have "length (concat c @ rest) = 4 + length b" by (simp add: assms(1))
    then show ?thesis by (simp add: c)
  qed
  ultimately have "length x = length b"
    using assms(3) by (auto simp: word_of_nat_eq_iff take_bit_nat_eq_self)
  moreover have "length (concat c @ rest) = 4 + length b" by (simp add: assms(1))
  ultimately show False using assms(2) by (simp add: c)
qed

section \<open>What a sender sends\<close>

lemma SendWatchEvent_cases:
  assumes "SendWatchEvent dial broken (x, err) limit = (res, sent)" "0 \<le> limit"
  obtains (all_sent) "res = None" "sent = Some (put_uint32 (word_of_nat (length x)) @ x)" "x \<noteq> []" "int (length x) \<le> limit"
  | (cut) e b rest where "res = Some e" "sent = Some b" "b @ rest = put_uint32 (word_of_nat (length x)) @ x" "rest \<noteq> []" "int (length x) \<le> limit"
  | (empty) "res = None" "sent = None" "x = []"
  | (failed) e where "res = Some e" "sent = None"
proof (cases "int (length x) \<le> limit \<and> read_all_limited (x, err) (nat (limit + 1)) = Inr x")
  case False
  then have "\<exists>e. res = Some e \<and> sent = None"
    using assms by (auto simp: SendWatchEvent_def read_all_limited_def split: option.splits if_splits)
  then show ?thesis using failed by blast
next
  case True
  let ?h = "put_uint32 (word_of_nat (length x)) :: string"
  note res = assms(1) [unfolded SendWatchEvent_def]
  consider "x = []" | e where "x \<noteq> []" "dial = Some e" | "x \<noteq> []" "dial = None" "broken = None"
    | k e where "x \<noteq> []" "dial = None" "broken = Some (k, e)" "k < 4"
    | k e where "x \<noteq> []" "dial = None" "broken = Some (k, e)" "4 \<le> k" "k - 4 < length x"
    | k e where "x \<noteq> []" "dial = None" "broken = Some (k, e)" "4 \<le> k" "length x \<le> k - 4"
    by (metis not_le option.exhaust prod.exhaust)
  then show ?thesis
  proof cases
    case 1 with True res show ?thesis by (intro empty) auto
  next
    case 2 with True res show ?thesis by (intro failed) auto
  next
    case 3 with True res show ?thesis by (intro all_sent) auto
  next
    case (4 k e) with True res show ?thesis by (intro cut [of e "take k ?h" "drop k ?h @ x"]) auto
  next
    case (5 k e) with True res show ?thesis by (intro cut [of e "?h @ take (k - 4) x" "drop (k - 4) x"]) auto
  next
    case 6 with True res show ?thesis by (intro all_sent) auto
  qed
qed

section \<open>The server\<close>

definition fits :: "int \<Rightarrow> string \<Rightarrow> bool" where
  "fits limit b \<longleftrightarrow> b \<noteq> [] \<and> int (length b) \<le> limit"

definition watch_ok :: "int \<Rightarrow> watch_server \<Rightarrow> bool" where
  "watch_ok limit s \<longleftrightarrow> length (ws_out s) \<le> out_capacity \<and> list_all (fits limit) (ws_out s)
     \<and> (\<forall>c b. mget (ws_handlers s) c \<in> {Some (Sending_Event b), Some (Parked_Event b)} \<longrightarrow> fits limit b)
     \<and> (ws_out_closed s \<longleftrightarrow> \<not> ws_accepting s) \<and> (ws_panicked s \<longrightarrow> \<not> ws_accepting s)"

lemma accept_returns_simps [simp]:
  "ws_out (accept_returns e s) = ws_out s" "ws_handlers (accept_returns e s) = ws_handlers s"
  "ws_accepting (accept_returns e s) = False" "ws_out_closed (accept_returns e s)"
  "ws_panicked (accept_returns e s) = ws_panicked s" "ws_done (accept_returns e s) = ws_done s"
  by (simp_all add: accept_returns_def Let_def)

lemma watch_step_ok:
  assumes "0 \<le> limit"
  shows "watch_step limit s s' \<Longrightarrow> watch_ok limit s \<Longrightarrow> watch_ok limit s'"
proof (induction rule: watch_step.induct)
  case (read s c chunks b now)
  then have "fits limit b" using linux.report_not_empty linux.report_fits [OF assms] by (auto simp: fits_def)
  with read show ?case by (auto simp: watch_ok_def gomap_simps)
qed (auto simp: watch_ok_def gomap_simps split: if_splits)

lemma live_steps_ok:
  assumes "0 \<le> limit" "(live_step limit)\<^sup>*\<^sup>* started_server s"
  shows "watch_ok limit s"
  using assms(2)
proof (induction rule: rtranclp_induct)
  case base
  show ?case by (simp add: watch_ok_def started_server_def)
next
  case (step s s')
  with watch_step_ok [OF assms(1)] show ?case by (auto simp: live_step_def)
qed

section \<open>The delays\<close>

text \<open>One delay for each turn that was waited out, and one for a wait that the context cut short.\<close>

definition delays_of :: "watch_turn list \<Rightarrow> nat" where
  "delays_of ts = (let k = length (takeWhile (\<lambda>t. t = Waited) ts)
     in if k < length ts \<and> ts ! k = Done_While_Waiting then k + 1 else k)"

lemma delays_of_Cons: "delays_of (t # ts) =
    (if t = Waited then Suc (delays_of ts) else if t = Done_While_Waiting then 1 else 0)"
  by (simp add: delays_of_def Let_def)

lemma watch_turns_delays:
  "d = second * min (2 ^ j) 16 \<Longrightarrow> watch_turns ts d h = (delays, h', returned) \<Longrightarrow>
     length delays = delays_of ts \<and> (\<forall>k < length delays. delays ! k = second * min (2 ^ (j + k)) 16)
     \<and> (returned \<longleftrightarrow> \<not> list_all (\<lambda>t. t = Waited) ts)
     \<and> (ch_Running h' \<longrightarrow> ch_Running h \<or> Waited \<in> set ts)"
proof (induction ts d h arbitrary: j delays h' returned rule: watch_turns.induct)
  case (1 d h)
  then show ?case by (auto simp: delays_of_def)
next
  case (2 t ts d h)
  show ?case
  proof (cases "t = Waited")
    case False
    with 2 show ?thesis by (cases t) (auto simp: setHealth_def delays_of_Cons)
  next
    case True
    let ?d = "if d < 10 * second then d * 2 else d"
    obtain ds where ds: "watch_turns ts ?d (setHealth True [] (setHealth False ''clipboard watcher exited'' h)) = (ds, h', returned)"
        "delays = d # ds"
      using 2(3) True by (auto simp: Let_def split: prod.splits)
    have "?d = second * min (2 ^ Suc j) 16"
    proof (cases "j < 4")
      case True
      then have "j \<in> {0, 1, 2, 3}" by auto
      then show ?thesis using 2(2) by (auto simp: second_def)
    next
      case False
      then have "(2 :: int) ^ 4 \<le> 2 ^ j" by (intro power_increasing) auto
      then show ?thesis using 2(2) by (simp add: second_def min_def)
    qed
    from 2(1) [OF True refl refl this ds(1)] ds(2) True 2(2)
    show ?thesis by (auto simp: delays_of_Cons nth_Cons split: nat.splits)
  qed
qed

section \<open>Properties\<close>

text \<open>
  C13. A copied text arrives whole or not at all. Whatever \<open>wl-paste\<close> pipes into the callback,
  however the connection to the adapter is cut into pieces and wherever it breaks, the adapter
  reports exactly the text that was copied if the callback succeeded and the text is within the
  adapter's configured limit, and nothing otherwise; the callback succeeds without connecting only
  for an empty text, and a text above \<open>MaxPayload\<close> is an error. (A text between the two limits is
  dropped by the adapter although the callback reports success.)
\<close>

theorem copied_text_arrives_whole_or_not:
  assumes "watch_callback dial broken (x, err) = (res, sent)" "0 \<le> limit" "limit \<le> MaxPayload"
  shows "(sent = Some (concat chunks) \<longrightarrow>
        handle_watch limit chunks = (if res = None \<and> int (length x) \<le> limit then Some x else None))
    \<and> (sent = None \<and> res = None \<longrightarrow> x = []) \<and> (MaxPayload < int (length x) \<longrightarrow> sent = None \<and> res \<noteq> None)"
proof (cases rule: SendWatchEvent_cases [OF assms(1) [unfolded watch_callback_def]])
  case 1
  then show ?case by (simp add: MaxPayload_def)
next
  case 2
  then have "length x < 2 ^ 32" by (simp add: MaxPayload_def)
  with 2 show ?thesis
    using handle_watch_whole [of chunks x limit] handle_watch_large [of chunks x limit] assms(2,3)
    by (cases "int (length x) \<le> limit") (auto simp: MaxPayload_def)
next
  case (3 e b rest)
  then show ?thesis using handle_watch_cut [of chunks rest x limit] by (auto simp: MaxPayload_def)
next
  case 4
  then show ?thesis using assms(2) by (auto simp: MaxPayload_def)
qed auto

text \<open>
  What the user copies goes to every connected peer. If the callback for a copied text within the
  configured limit succeeds and the text is not one just received from a peer, the daemon puts a
  message with exactly this text into the mailbox of every registered connection and of no other.
\<close>

theorem copied_text_goes_to_every_peer:
  assumes "watch_callback dial broken (x, err) = (None, Some (concat chunks))" "int (length x) \<le> limit" "limit \<le> MaxPayload"
    and "length rnd = 16" "suppress_consume now x sp = (False, sp')"
  shows "\<exists>b m. handle_watch limit chunks = Some b \<and> m_Text m = x
    \<and> (\<forall>c. snd (localLoop_step (nat limit) now (Some rnd) b r sp boxes) c
         = (if c \<in> pc_ref ` snd ` set (rg_conns r) then enqueuePeer m (boxes c) else boxes c))"
proof (cases rule: SendWatchEvent_cases [OF assms(1) [unfolded watch_callback_def]])
  case 1
  then show ?case by (simp add: MaxPayload_def)
next
  case 2
  have limit: "0 \<le> limit" "limit < 2 ^ 32" using assms(2,3) by (simp_all add: MaxPayload_def)
  from 2 have "handle_watch limit chunks = Some x" using handle_watch_whole [of chunks x limit] assms(2) limit by simp
  with linux.reported_is_sent_to_all [OF limit(1) this assms(4,5)] show ?thesis by blast
qed simp_all

text \<open>
  C24. What the daemon can take from the channel is sound. However connections, handlers, the
  daemon and a closing adapter interleave, at most 32 texts wait, each of them and each text a
  handler holds is non-empty and within the limit, and no handler can panic while connections are
  accepted.
\<close>

theorem waiting_events_are_sound:
  assumes "(live_step limit)\<^sup>*\<^sup>* started_server s" "0 \<le> limit"
  shows "length (ws_out s) \<le> 32 \<and> (\<forall>b. b \<in> set (ws_out s) \<longrightarrow> b \<noteq> [] \<and> int (length b) \<le> limit)
    \<and> (\<forall>c b. mget (ws_handlers s) c = Some (Sending_Event b) \<longrightarrow> b \<noteq> [] \<and> int (length b) \<le> limit)
    \<and> (\<forall>c b. mget (ws_handlers s) c = Some (Parked_Event b) \<longrightarrow> b \<noteq> [] \<and> int (length b) \<le> limit)
    \<and> (ws_accepting s \<longrightarrow> \<not> ws_panicked s \<and> \<not> ws_out_closed s)"
  using live_steps_ok [OF assms(2,1)] by (auto simp: watch_ok_def fits_def out_capacity_def list_all_iff)

text \<open>
  C39. Closing the adapter can crash the daemon. \<open>accept\<close> closes the channel when it returns, but
  its handlers still send on it: from every reachable state in which a handler has read a text
  and not yet come to its \<open>select\<close>, closing the adapter can lead to a panic.
\<close>

theorem closing_can_panic:
  assumes "(live_step limit)\<^sup>*\<^sup>* started_server s" "ws_accepting s" "0 \<le> limit"
    and "mget (ws_handlers s) c = Some (Sending_Event b)"
  shows "\<exists>s'. (live_step limit)\<^sup>*\<^sup>* (s\<lparr>ws_done := True, ws_open := False\<rparr>) s' \<and> ws_panicked s'"
proof -
  let ?closed = "s\<lparr>ws_done := True, ws_open := False\<rparr>" and ?e = "''use of closed network connection''"
  let ?returned = "accept_returns ?e ?closed"
  have p: "\<not> ws_panicked s" using live_steps_ok [OF assms(3,1)] assms(2) by (simp add: watch_ok_def)
  have "live_step limit ?closed ?returned"
    using p assms(2) by (simp add: live_step_def watch_step.accept_failed)
  moreover have "live_step limit ?returned (?returned\<lparr>ws_panicked := True\<rparr>)"
    unfolding live_step_def using p assms(4) by (auto intro: watch_step.panicked [where c = c and b = b])
  ultimately have "(live_step limit)\<^sup>*\<^sup>* ?closed (?returned\<lparr>ws_panicked := True\<rparr>)"
    by (rule converse_rtranclp_into_rtranclp [OF _ r_into_rtranclp])
  then show ?thesis by (intro exI [of _ "?returned\<lparr>ws_panicked := True\<rparr>"]) simp
qed

text \<open>
  C37. A watcher that keeps dying is restarted with delays of 1, 2, 4, 8 and then always 16
  seconds: exactly one delay before each restart, one more if the context is done during a delay,
  and none if the program's own path is unknown. The loop returns in the first turn in which the
  context is done, or at once when the path is unknown, and only then.
\<close>

theorem watcher_restarts_are_paced:
  assumes "watchLoop executable ts h = (delays, h', returned)"
  shows "length delays = (let k = length (takeWhile (\<lambda>t. t = Waited) ts)
        in if executable \<noteq> None then 0 else if k < length ts \<and> ts ! k = Done_While_Waiting then k + 1 else k)
    \<and> (\<forall>k. k < length delays \<longrightarrow> delays ! k = second * min (2 ^ k) 16)
    \<and> (returned \<longleftrightarrow> executable \<noteq> None \<or> (\<exists>t. t \<in> set ts \<and> t \<noteq> Waited))"
proof (cases executable)
  case None
  with assms have "watch_turns ts second h = (delays, h', returned)" by (simp add: watchLoop_def)
  from watch_turns_delays [of second 0, OF _ this] None show ?thesis by (auto simp: list_all_iff delays_of_def Let_def)
qed (use assms in \<open>auto simp: watchLoop_def\<close>)

section \<open>Samples\<close>

theorem copied_text_arrives_whole_or_not_witness:
  "handle_watch 10 [[CHR 0x00, CHR 0x00], [CHR 0x00, CHR 0x02, CHR ''h''], [CHR ''i'']] = Some ''hi''
   \<and> handle_watch 1 [[CHR 0x00, CHR 0x00], [CHR 0x00, CHR 0x02, CHR ''h''], [CHR ''i'']] = None"
proof -
  let ?chunks = "[[CHR 0x00, CHR 0x00], [CHR 0x00, CHR 0x02, CHR ''h''], [CHR ''i'']]"
  have sent: "watch_callback None None (''hi'', None) = (None, Some (put_uint32 2 @ ''hi''))"
    by (simp add: watch_callback_def SendWatchEvent_def read_all_limited_def MaxPayload_def)
  have "put_uint32 2 = [CHR 0x00, CHR 0x00, CHR 0x00, CHR 0x02]" by code_simp
  then show ?thesis
    using copied_text_arrives_whole_or_not [OF sent, of 10 ?chunks] copied_text_arrives_whole_or_not [OF sent, of 1 ?chunks]
    by (simp add: MaxPayload_def)
qed

theorem copied_text_goes_to_every_peer_witness:
  "\<exists>m. m_Text m = ''hi'' \<and> snd (localLoop_step 10 1 (Some (replicate 16 CHR ''r'')) ''hi'' sample_registered_one daemon_suppressor
     (\<lambda>_. \<lparr>mb_out = None, mb_done = False\<rparr>)) 1 = enqueuePeer m \<lparr>mb_out = None, mb_done = False\<rparr>"
proof -
  let ?chunks = "[put_uint32 2 @ ''hi'']"
  have s: "watch_callback None None (''hi'', None) = (None, Some (concat ?chunks))"
    by (simp add: watch_callback_def SendWatchEvent_def read_all_limited_def MaxPayload_def)
  have h: "handle_watch 10 ?chunks = Some ''hi''" by (intro handle_watch_whole) simp_all
  from copied_text_goes_to_every_peer [OF s, where limit = 10 and rnd = "replicate 16 CHR ''r''" and now = 1 and sp = daemon_suppressor
      and r = sample_registered_one and boxes = "\<lambda>_. \<lparr>mb_out = None, mb_done = False\<rparr>"]
  show ?thesis by (auto simp: h sample_registered_one_def MaxPayload_def)
qed

definition sample_sending :: watch_server where
  "sample_sending = started_server\<lparr>ws_handlers := [(7, Sending_Event ''hi'')],
     ws_health := (ws_health started_server)\<lparr>ch_LastEvent := ''now''\<rparr>\<rparr>"

lemma sample_sending_reached: "(live_step 10)\<^sup>*\<^sup>* started_server sample_sending"
proof -
  let ?reading = "started_server\<lparr>ws_handlers := [(7, Reading_Event)]\<rparr>"
  have "put_uint32 2 = [CHR 0x00, CHR 0x00, CHR 0x00, CHR 0x02]" by code_simp
  then have "handle_watch 10 [[CHR 0x00, CHR 0x00, CHR 0x00, CHR 0x02, CHR ''h'', CHR ''i'']] = Some ''hi''"
    by (intro handle_watch_whole) simp_all
  from watch_step.read [OF _ this, of ?reading 7 "''now''"]
  have "live_step 10 ?reading sample_sending" by (simp add: live_step_def sample_sending_def started_server_def)
  moreover have "live_step 10 started_server ?reading"
    using watch_step.accepted [of started_server 7 10] by (simp add: live_step_def started_server_def)
  ultimately show ?thesis using converse_rtranclp_into_rtranclp r_into_rtranclp by (metis (full_types))
qed

theorem waiting_events_are_sound_witness:
  "mget (ws_handlers sample_sending) 7 = Some (Sending_Event ''hi'') \<and> \<not> ws_panicked sample_sending"
  using waiting_events_are_sound [OF sample_sending_reached] by (simp add: sample_sending_def started_server_def)

theorem closing_can_panic_witness:
  "\<exists>s'. (live_step 10)\<^sup>*\<^sup>* (sample_sending\<lparr>ws_done := True, ws_open := False\<rparr>) s' \<and> ws_panicked s'"
  by (rule closing_can_panic [OF sample_sending_reached, where c = 7 and b = "''hi''"])
    (simp_all add: sample_sending_def started_server_def)

theorem watcher_restarts_are_paced_witness:
  "fst (watchLoop None [Waited, Waited, Waited, Waited, Waited, Waited, Done_While_Running] unused_health)
     = [second, 2 * second, 4 * second, 8 * second, 16 * second, 16 * second]
   \<and> snd (snd (watchLoop None [Waited, Waited, Waited, Waited, Waited, Waited, Done_While_Running] unused_health))"
proof -
  let ?ts = "[Waited, Waited, Waited, Waited, Waited, Waited, Done_While_Running]"
  obtain ds h r where w: "watchLoop None ?ts unused_health = (ds, h, r)" by (cases "watchLoop None ?ts unused_health") auto
  have "ds = [second, 2 * second, 4 * second, 8 * second, 16 * second, 16 * second]"
    using w by (auto simp: watchLoop_def second_def)
  moreover have "Done_While_Running \<in> set ?ts" "Done_While_Running \<noteq> Waited" by simp_all
  then have r using watcher_restarts_are_paced [OF w] by blast
  ultimately show ?thesis by (simp only: w fst_conv snd_conv simp_thms)
qed

end
