(* ===== verification/Digest_Vectors.thy ===== *)
theory Digest_Vectors
  imports Digest
begin

text \<open>
  \<open>sha256\<close> evaluated on two messages: the first is the one-block example of FIPS 180-4. The
  evaluations take a minute each, which is why they stand alone.
\<close>

lemma sha256_abc:
  "hex_encode (sha256 ''abc'') = ''ba7816bf8f01cfea414140de5dae2223b00361a396177a9cb410ff61f20015ad''"
  by code_simp

lemma sha256_abc_NUL:
  "hex_encode (sha256 [CHR ''a'', CHR ''b'', CHR ''c'', CHR 0x00]) = ''dc1114cd074914bd872cc1f9a23ec910ea2203bc79779ab2e17da25782a624fc''"
  by code_simp

lemma sha256_tells_apart: "sha256 ''abc'' \<noteq> sha256 [CHR ''a'', CHR ''b'', CHR ''c'', CHR 0x00]"
proof
  assume "sha256 ''abc'' = sha256 [CHR ''a'', CHR ''b'', CHR ''c'', CHR 0x00]"
  then have "hex_encode (sha256 ''abc'') = hex_encode (sha256 [CHR ''a'', CHR ''b'', CHR ''c'', CHR 0x00])" by simp
  then show False unfolding sha256_abc sha256_abc_NUL by simp
qed

end
