(* ===== verification/Clipboard_Darwin.thy ===== *)
theory Clipboard_Darwin
  imports Clipboard_Interface Digest_Vectors
begin

text \<open>
  \<open>internal/clipboard/clipboard_darwin.go\<close>, with the three functions of \<open>clipboard_darwin.m\<close> it calls.
  The pasteboard is its change count and its text, if it has one; \<open>utf8\<close> says whether
  \<open>stringWithUTF8String\<close> takes a C string, \<open>n\<close> is the change count after \<open>clearContents\<close> and \<open>kept\<close> whether
  \<open>setString\<close> succeeds. C strings end at their first NUL byte.
\<close>

section \<open>The pasteboard\<close>

record pasteboard =
  pb_count :: int
  pb_text :: "string option"

text \<open>\<open>C.CString\<close> copies the bytes and adds a NUL; \<open>C.GoString\<close> and the C side read up to the first.\<close>

definition CString :: "string \<Rightarrow> string" where
  "CString s = s @ [CHR 0x00]"

definition GoString :: "string \<Rightarrow> string" where
  "GoString p = takeWhile (\<lambda>c. c \<noteq> CHR 0x00) p"

definition lanclip_write_string :: "(string \<Rightarrow> bool) \<Rightarrow> int \<Rightarrow> bool \<Rightarrow> string \<Rightarrow> pasteboard \<Rightarrow> bool \<times> pasteboard" where
  "lanclip_write_string utf8 n kept p pb =
     (if \<not> utf8 (GoString p) then (False, pb)
      else (kept, \<lparr>pb_count = n, pb_text = (if kept then Some (GoString p) else None)\<rparr>))"

text \<open>What is read is copied up to its first NUL (\<open>strdup\<close>) and ends with one.\<close>

definition lanclip_read_string :: "pasteboard \<Rightarrow> string option" where
  "lanclip_read_string pb = map_option (\<lambda>s. CString (GoString (CString s))) (pb_text pb)"

section \<open>The adapter\<close>

record darwin_adapter =
  da_max :: int
  da_health :: clip_health
  da_cancel :: bool

definition darwin_New :: "int \<Rightarrow> darwin_adapter" where
  "darwin_New limit = \<lparr>da_max = limit, da_health = unused_health, da_cancel = False\<rparr>"

definition darwin_Start :: "darwin_adapter \<Rightarrow> darwin_adapter" where
  "darwin_Start a = a\<lparr>da_cancel := True, da_health := (da_health a)\<lparr>ch_Running := True\<rparr>\<rparr>"

definition darwin_Close :: "darwin_adapter \<Rightarrow> bool \<times> darwin_adapter" where
  "darwin_Close a = (da_cancel a, a\<lparr>da_health := (da_health a)\<lparr>ch_Running := False\<rparr>\<rparr>)"

definition darwin_SendWatchEvent :: "string option" where
  "darwin_SendWatchEvent = Some ''clipboard-event is Linux-only''"

text \<open>What is made of a pasteboard whose count has changed.\<close>

definition reading :: "int \<Rightarrow> pasteboard \<Rightarrow> string option" where
  "reading limit pb =
     (case lanclip_read_string pb of
        None \<Rightarrow> None
      | Some p \<Rightarrow>
          let t = GoString p
          in if t = [] \<or> int (length t) > limit then None else Some t)"

text \<open>
  The goroutine, from wake-up to wake-up: the context is done, or the ticker has fired with the
  change count and the pasteboard as they are when each is asked, and then, when there is a text
  to send, either the channel takes it or the context is done first. The result is the texts sent, the count last seen and
  the health.
\<close>

datatype wake_up = Context_Done | Ticked int pasteboard string bool

fun darwin_watch ::
  "int \<Rightarrow> wake_up list \<Rightarrow> int \<Rightarrow> clip_health \<Rightarrow> string list \<times> int \<times> clip_health" where
  "darwin_watch limit [] seen h = ([], seen, h)"
| "darwin_watch limit (Context_Done # ws) seen h = ([], seen, h)"
| "darwin_watch limit (Ticked n pb now taken # ws) seen h =
     (if n = seen then darwin_watch limit ws seen h
      else case reading limit pb of
        None \<Rightarrow> darwin_watch limit ws n h
      | Some t \<Rightarrow>
          let h = h\<lparr>ch_LastEvent := now\<rparr>
          in if taken then (let (ts, seen, h) = darwin_watch limit ws n h in (t # ts, seen, h))
             else ([], n, h))"

definition darwin_Write :: "(string \<Rightarrow> bool) \<Rightarrow> int \<Rightarrow> bool \<Rightarrow> int \<Rightarrow> string \<Rightarrow> pasteboard \<Rightarrow> string option \<times> pasteboard" where
  "darwin_Write utf8 n kept limit x pb =
     (if int (length x) > limit then (Some ''clipboard exceeds size limit'', pb)
      else case lanclip_write_string utf8 n kept (CString x) pb of
        (False, pb) \<Rightarrow> (Some ''AppKit pasteboard write failed'', pb)
      | (True, pb) \<Rightarrow> (None, pb))"

section \<open>Lemmas\<close>

lemma GoString_CString [simp]: "GoString (CString s) = GoString s"
  by (induction s) (auto simp: GoString_def CString_def)

lemma GoString_GoString [simp]: "GoString (GoString s) = GoString s"
  by (simp add: GoString_def takeWhile_idem)

lemma GoString_no_NUL: "CHR 0x00 \<notin> set s \<Longrightarrow> GoString s = s"
  by (auto simp: GoString_def takeWhile_eq_all_conv)

lemma GoString_NUL: "CHR 0x00 \<notin> set a \<Longrightarrow> GoString (a @ CHR 0x00 # b) = a"
  by (induction a) (auto simp: GoString_def)

lemma reading_eq: "reading limit pb = Some t \<longleftrightarrow> (\<exists>s. pb_text pb = Some s \<and> t = GoString s \<and> t \<noteq> [] \<and> int (length t) \<le> limit)"
  by (auto simp: reading_def lanclip_read_string_def Let_def split: option.splits)

interpretation darwin: clipboard_adapter reading
  by unfold_locales (auto simp: reading_eq)

lemma darwin_Write_ok:
  assumes "darwin_Write utf8 n kept limit x pb = (None, pb')"
  shows "pb' = \<lparr>pb_count = n, pb_text = Some (GoString x)\<rparr>" "int (length x) \<le> limit"
  using assms by (auto simp: darwin_Write_def lanclip_write_string_def split: if_splits prod.splits bool.splits)

section \<open>The reference\<close>

text \<open>The ticks before the context is done, and those of them that find a new count.\<close>

fun ticks_of :: "wake_up list \<Rightarrow> (int \<times> pasteboard) list" where
  "ticks_of [] = []"
| "ticks_of (Context_Done # ws) = []"
| "ticks_of (Ticked n pb now taken # ws) = (n, pb) # ticks_of ws"

definition new_counts :: "int \<Rightarrow> (int \<times> pasteboard) list \<Rightarrow> pasteboard list" where
  "new_counts seen ts = map (snd \<circ> snd) (filter (\<lambda>(m, n, pb). m \<noteq> n) (zip (seen # map fst ts) ts))"

lemma new_counts_simps [simp]:
  "new_counts seen [] = []"
  "new_counts seen ((n, pb) # ts) = (if seen = n then new_counts seen ts else pb # new_counts n ts)"
  by (simp_all add: new_counts_def)

text \<open>Every wake-up before the last has its text taken.\<close>

lemma darwin_watch_eq:
  "(\<forall>w \<in> set ws. \<forall>n pb now. w \<noteq> Ticked n pb now False) \<Longrightarrow>
     fst (darwin_watch limit ws seen h) = List.map_filter (reading limit) (new_counts seen (ticks_of ws))"
proof (induction limit ws seen h rule: darwin_watch.induct)
  case (3 limit n pb now taken ws seen h)
  then show ?case by (auto simp: Let_def List.map_filter_simps split: option.splits prod.splits)
qed (simp_all add: List.map_filter_simps)

section \<open>Properties\<close>

text \<open>
  C36. The watcher of macOS sends each change once. As long as the daemon takes what it is sent,
  the texts reported are exactly the readings of those pasteboards whose change count differs
  from that of the tick before, in order, without those that have no text, an empty text or one
  above the limit; in particular ticks with an unchanged count report nothing.
\<close>

theorem each_change_is_sent_once:
  assumes "\<And>n pb now. Ticked n pb now False \<notin> set ws"
  shows "fst (darwin_watch limit ws seen h) = List.map_filter (reading limit) (new_counts seen (ticks_of ws))"
  using assms by (intro darwin_watch_eq) auto

text \<open>
  Text written on macOS is not sent back. A received text without NUL bytes that was written
  to the pasteboard is what the next tick reports, and the daemon, which has just recorded it,
  puts nothing into any mailbox.
\<close>

theorem written_text_is_not_sent_back:
  assumes "darwin_Write utf8 n kept limit (ib_text b) pb = (None, pb')" "CHR 0x00 \<notin> set (ib_text b)" "ib_text b \<noteq> []"
    and "n \<noteq> seen"
    and "clipboardWriteLoop_step now now' nowFail nowDone None b sp r = (sp', r')"
    and "sup_ttl sp = 5 * second" "t < now' + 5 * second"
  shows "fst (darwin_watch limit [Ticked (pb_count pb') pb' when True] seen h) = [ib_text b]
    \<and> snd (localLoop_step (nat limit) t rnd (ib_text b) r2 sp' boxes) = boxes"
proof -
  note w = darwin_Write_ok [OF assms(1)]
  have "reading limit pb' = Some (ib_text b)"
    using assms(2,3) w by (auto simp: reading_eq GoString_no_NUL)
  then have "fst (darwin_watch limit [Ticked (pb_count pb') pb' when True] seen h) = [ib_text b]"
    using w(1) assms(4) by (simp add: Let_def)
  moreover have sp': "sp' = suppress_add now now' (ib_eventID b) (ib_text b) sp"
    using assms(5) by (auto simp: clipboardWriteLoop_step_def Let_def)
  have "fst (suppress_consume t (ib_text b) sp')"
    using recorded_is_consumed [of now' sp "ib_text b" "[]" t now "ib_eventID b"] assms(6,7) by (simp add: sp')
  then have "fst (local_message (nat limit) t rnd (ib_text b) sp') = None"
    by (auto simp: local_message_def split: prod.splits)
  then have "snd (localLoop_step (nat limit) t rnd (ib_text b) r2 sp' boxes) = boxes"
    by (auto simp: localLoop_step_def split: prod.splits option.splits)
  ultimately show ?thesis by blast
qed

text \<open>
  C25. A text with a NUL byte comes back cut off. \<open>Write\<close> reports success although the pasteboard
  holds only what is before the first NUL; the digest recorded is that of the whole text, so the
  next tick reports the beginning as a local copy and the daemon sends it to every connection,
  the sender's included.
\<close>

theorem nul_text_comes_back_cut_off:
  assumes "darwin_Write utf8 n kept limit (ib_text b) pb = (None, pb')" "ib_text b = front @ CHR 0x00 # rest"
    and "front \<noteq> []" "CHR 0x00 \<notin> set front" "n \<noteq> seen"
    and "clipboardWriteLoop_step now now' nowFail nowDone None b sp r = (sp', r')"
    and "pending_hash (sha256 front) sp = 0" "sha256 front \<noteq> sha256 (ib_text b)" "length rb = 16"
  shows "fst (darwin_watch limit [Ticked (pb_count pb') pb' when True] seen h) = [front]
    \<and> (\<exists>m. m_Text m = front \<and> (\<forall>c. snd (localLoop_step (nat limit) t (Some rb) front r2 sp' boxes) c
         = (if c \<in> pc_ref ` snd ` set (rg_conns r2) then enqueuePeer m (boxes c) else boxes c)))"
proof -
  note w = darwin_Write_ok [OF assms(1)]
  have fits: "int (length front) \<le> limit" using w(2) assms(2) by simp
  then have rd: "reading limit pb' = Some front"
    using w(1) assms(2-4) by (simp add: reading_eq GoString_NUL GoString_no_NUL)
  have sp': "sp' = suppress_add now now' (ib_eventID b) (ib_text b) sp"
    using assms(6) by (auto simp: clipboardWriteLoop_step_def Let_def)
  have "pending_hash (sha256 front) sp' = 0"
    using pending_hash_add [of "sha256 front" now now' "ib_eventID b" "ib_text b" sp] assms(7,8) by (simp add: sp')
  then have "\<not> fst (suppress_consume t front sp')"
    using pending_hash_consume [of t front sp' True _ "sha256 front"] by (cases "suppress_consume t front sp'") auto
  then obtain sp2 where c: "suppress_consume t front sp' = (False, sp2)" by (cases "suppress_consume t front sp'") auto
  have "0 \<le> limit" using fits by linarith
  from darwin.reported_is_sent_to_all [OF this rd assms(9) c] rd w(1) assms(5) show ?thesis by (simp add: Let_def)
qed

section \<open>Samples\<close>

definition sample_pasteboard :: pasteboard where
  "sample_pasteboard = \<lparr>pb_count = 1, pb_text = Some ''hi''\<rparr>"

theorem each_change_is_sent_once_witness:
  "fst (darwin_watch 10 [Ticked 1 sample_pasteboard ''now'' True, Ticked 1 sample_pasteboard ''now'' True, Context_Done] 0 unused_health)
     = [''hi'']"
proof -
  have "reading 10 sample_pasteboard = Some ''hi''"
    by (simp add: reading_eq sample_pasteboard_def GoString_no_NUL)
  then show ?thesis
    by (subst each_change_is_sent_once) (auto simp: sample_pasteboard_def List.map_filter_simps)
qed

theorem written_text_is_not_sent_back_witness:
  "fst (darwin_watch 10 [Ticked 2 \<lparr>pb_count = 2, pb_text = Some ''hi''\<rparr> ''now'' True] 1 unused_health) = [''hi'']"
proof -
  have "darwin_Write (\<lambda>_. True) 2 True 10 (ib_text sample_inbound) sample_pasteboard
      = (None, \<lparr>pb_count = 2, pb_text = Some ''hi''\<rparr>)"
    by (simp add: darwin_Write_def lanclip_write_string_def sample_inbound_def GoString_no_NUL)
  moreover obtain sp' r' where "clipboardWriteLoop_step 1 1 1 1 None sample_inbound daemon_suppressor new_registry = (sp', r')"
    by fastforce
  ultimately show ?thesis
    using written_text_is_not_sent_back [where b = sample_inbound and pb' = "\<lparr>pb_count = 2, pb_text = Some ''hi''\<rparr>"
        and n = 2 and seen = 1 and sp = daemon_suppressor and now' = 1 and t = 1 and limit = 10]
    by (simp add: sample_inbound_def daemon_suppressor_def NewSuppressor_def second_def)
qed

definition sample_nul :: inbound_clipboard where
  "sample_nul = sample_inbound\<lparr>ib_text := [CHR ''a'', CHR ''b'', CHR ''c'', CHR 0x00]\<rparr>"

theorem nul_text_comes_back_cut_off_witness:
  "fst (darwin_watch 10 [Ticked 2 \<lparr>pb_count = 2, pb_text = Some ''abc''\<rparr> ''now'' True] 1 unused_health) = [''abc'']"
proof -
  have "GoString (CString [CHR ''a'', CHR ''b'', CHR ''c'', CHR 0x00]) = ''abc''" by code_simp
  then have "darwin_Write (\<lambda>_. True) 2 True 10 (ib_text sample_nul) sample_pasteboard
      = (None, \<lparr>pb_count = 2, pb_text = Some ''abc''\<rparr>)"
    by (simp add: darwin_Write_def lanclip_write_string_def sample_nul_def del: GoString_CString)
  moreover obtain sp' r' where "clipboardWriteLoop_step 1 1 1 1 None sample_nul daemon_suppressor new_registry = (sp', r')"
    by fastforce
  ultimately show ?thesis
    using sha256_tells_apart nul_text_comes_back_cut_off [where b = sample_nul and pb' = "\<lparr>pb_count = 2, pb_text = Some ''abc''\<rparr>"
        and n = 2 and seen = 1 and sp = daemon_suppressor and limit = 10 and front = "''abc''" and rest = "[]"
        and rb = "replicate 16 CHR ''r''"]
    by (simp add: sample_nul_def pending_hash_def daemon_suppressor_def NewSuppressor_def)
qed

end
