(* ===== verification/Spec2Isabelle.thy ===== *)
theory Spec2Isabelle
  imports Startup TLS_Config Sync_Machine Connection_Writer Clipboard_Linux Clipboard_Darwin
begin

text \<open>
  lanclip, a peer-to-peer clipboard for the local network (Go): a verification library.

  The program. A daemon per user session finds other devices by mDNS (\<open>internal/discovery\<close>),
  lets the user pair with one of them over mutually authenticated TLS (\<open>internal/transport\<close>,
  \<open>internal/identity\<close>), keeps the pinned certificates in a trust store
  (\<open>internal/pairing\<close>), and then exchanges clipboard texts as framed JSON messages
  (\<open>internal/protocol\<close>) over one connection per trusted device. A received text is written to
  the local clipboard and its hash recorded so that the change it causes is not sent back
  (\<open>internal/sync\<close>). \<open>internal/daemon\<close> composes these parts.

  The theories, in the order they build on each other.

  \<^item> \<open>Prelude\<close>: Go values (byte strings, instants, maps as association lists in walk order,
    results with errors) and the lemmas about tables shared by every component.
  \<^item> \<open>Runes\<close>: UTF-8, \<open>TrimSpace\<close>, \<open>EqualFold\<close>, and \<open>internal/pairing/name.go\<close>.
  \<^item> \<open>Digest\<close>: SHA-256 and hexadecimal encoding, defined and evaluated.
  \<^item> \<open>Identity\<close>: \<open>internal/identity/identity.go\<close> (identifiers, fingerprints, \<open>parse\<close>).
  \<^item> \<open>Trust_File\<close>: the save of \<open>internal/pairing/store.go\<close>, one system call at a time.
  \<^item> \<open>Pairing_Store\<close>, \<open>Pairing_Invariant\<close>, \<open>Pairing_Trust\<close>, \<open>Pairing_Resolve\<close>,
    \<open>Pairing_Restart\<close>, \<open>Pairing_Code\<close>: the trust store of \<open>internal/pairing/store.go\<close>; its
    operations, their elimination rules and invariant, histories of operations and what they
    establish, references and listings, \<open>Load\<close> after any history, the comparison code.
  \<^item> \<open>Windows\<close>, \<open>Rate_Limit\<close>: fixed-window counters as an interface, and the limiter of
    unauthenticated pairing requests of \<open>internal/daemon/daemon.go\<close>, which interprets it twice.
  \<^item> \<open>Suppression\<close>: \<open>internal/sync/suppression.go\<close>. \<open>Backoff\<close>: \<open>internal/transport/backoff.go\<close>.
  \<^item> \<open>Net_IP\<close>, \<open>Discovery\<close>, \<open>Discovery_Props\<close>: what is used of Go's package \<open>net\<close>, and
    \<open>internal/discovery/discovery.go\<close>.
  \<^item> \<open>Protocol\<close>: \<open>internal/protocol/protocol.go\<close>. \<open>Transport\<close>: the verification callbacks of
    \<open>internal/transport/tls.go\<close>. \<open>TLS_Config\<close>: its two configurations and the handshake between them.
  \<^item> \<open>Pair_Session\<close>: the pairing exchange of \<open>internal/daemon/daemon.go\<close>, both sides.
  \<^item> \<open>Registry\<close>, \<open>Sync_Session\<close>, \<open>Sync_Machine\<close>: the daemon's table of connections with
    their statistics; the greeting and registration of one session; all sessions of a daemon,
    interleaved with its \<open>unpair\<close> commands and its stop, as a step relation with its invariant.
  \<^item> \<open>Mailbox\<close>: the one-place channels that keep the newest value, one \<open>select\<close> at a time.
  \<^item> \<open>Clipboard_Flow\<close>: the read loop, the local loop and the two write loops.
  \<^item> \<open>Connection_Writer\<close>: \<open>send\<close> with its mutex, write by write, for the goroutines that share a
    connection, what the peer reads of it, and the pings of \<open>readLoop\<close>.
  \<^item> \<open>Dialing\<close>, \<open>Admission\<close>: the connect loop and manual addresses; the accept loop.
  \<^item> \<open>Control_Commands\<close>: the answers to the command line.
  \<^item> \<open>Prompts\<close>, \<open>Reports\<close>, \<open>Command_Line\<close>: the questions, the printed reports and the commands
    of \<open>cmd/lanclip/cli.go\<close>; a call to the daemon is a function on the daemon's state.
  \<^item> \<open>Control_Socket\<close>, \<open>Remote_Control\<close>: \<open>internal/control/control.go\<close> with the interface between
    command line and daemon, and the daemon's \<open>handleControl\<close> as its provider.
  \<^item> \<open>Files\<close>, \<open>Config_File\<close>, \<open>Identity_File\<close>: whole files with permission bits under a fault
    plan; \<open>internal/config\<close>; \<open>create\<close> and \<open>LoadOrCreate\<close> of \<open>internal/identity/identity.go\<close>.
  \<^item> \<open>Clipboard_Interface\<close>, \<open>Clipboard_Linux\<close>, \<open>Clipboard_Darwin\<close>: \<open>internal/clipboard\<close>, what the
    daemon expects of an adapter and the two adapters: on Linux the watch socket from the callback
    to the channel, with the accept loop and its handlers as a step relation; on macOS the polling
    loop over change count and text. \<open>Digest_Vectors\<close> evaluates SHA-256 on two messages.
  \<^item> \<open>Startup\<close>: \<open>cmd/lanclip/main.go\<close>, \<open>runCLI\<close>, and \<open>New\<close>, \<open>Run\<close> and \<open>close\<close> of the daemon.
    \<open>close\<close> ends the registered connections; the others are left to their handlers, as in the code.

  Interfaces. \<open>ttl_table\<close> and \<open>bounded_table\<close> (the suppressor, the discovery table, the pending
  requests), \<open>window_counter\<close> (pairing attempts and clipboard frames), \<open>coalescing\<close> (the two kinds
  of mailbox), \<open>control_service\<close> (the daemon behind the socket) and \<open>clipboard_adapter\<close> (both
  platforms) are locales, each interpreted on the model's own definitions.

  Parameters. Everything outside the repository is an argument: the instants of the clock (one
  for each reading), random bytes, JSON and PEM and X.509 codecs, the TLS handshake, name lookup
  and dialling, zeroconf, the environment, the Wayland tools and the pasteboard, and for files and
  sockets which calls fail and how much of a write gets through. Laws of such code are hypotheses
  of the properties that need them (a decoder inverts its encoder, for the trust file and the
  control socket on valid UTF-8 only; what JSON decodes is valid UTF-8; random bytes come as asked
  for).

  Concurrency. What several goroutines do is a step relation or a sequence of operations, one
  critical section or channel operation per step: \<open>sync_step\<close>, \<open>admission_step\<close>, \<open>pipe_step\<close>,
  \<open>send_step\<close>, \<open>watch_step\<close>, and the histories of store operations. Properties of them hold in every
  reachable state.

  Termination and bounds. Every loop of the model is a total function: the loops over data are
  structural, \<open>writeAll\<close> shortens its data, the dialogues shorten the input that is left; loops
  that run as long as the daemon does (the watcher, the connect loop, browsing) are functions of
  the list of their turns. No fuel is used.

  Not modelled. Deadlines and timers as such (a deadline that passes is an error of the call it
  ends), \<open>Backoff.Sleep\<close>, logging, the test hook \<open>ObserveForTest\<close>, the processes
  behind \<open>wl-paste\<close>, \<open>wl-copy\<close> and \<open>scutil\<close>, memory (\<open>C.free\<close>), scheduling fairness, and the
  installers and service files, which hold no logic of the program.
\<close>

end
